(* ===== verification/Prelude.thy ===== *)
theory Prelude
  imports Main "HOL-Library.Word" "HOL-Library.AList"
begin

text \<open>
  What the components share: the machine integers, the model of \<open>std::collections::HashMap\<close>
  with the laws its clients use, inclusive integer ranges, and the shape of a fallible, stateful
  operation (\<open>op\<close>) with its weakest-precondition calculus.  An operation of the daemon takes the
  state and returns a result and the new state; the result is a value (\<open>Ret\<close>), an error that
  left the function through \<open>?\<close> (\<open>Fail\<close>), or \<open>Hang\<close>: the task waits for a mutex that it holds
  itself and never continues.
\<close>

named_theorems wp \<open>weakest-precondition equations of the operations\<close>
named_theorems monad \<open>laws of sequencing\<close>
named_theorems hm_simps \<open>lookup after insert and remove of hash maps\<close>

section \<open>Machine integers\<close>

type_synonym u8 = "8 word"
type_synonym u16 = "16 word"
type_synonym u32 = "32 word"
type_synonym u64 = "64 word"

text \<open>Rust's \<open>saturating_sub\<close>, and the inclusive range \<open>a..=b\<close>.\<close>

definition saturating_sub :: "u64 \<Rightarrow> u64 \<Rightarrow> u64" where
  "saturating_sub a b = (if a \<le> b then 0 else a - b)"

definition range_incl :: "u64 \<Rightarrow> u64 \<Rightarrow> u64 list" where
  "range_incl a b = map word_of_nat [unat a..<Suc (unat b)]"

lemma unat_saturating_sub: "unat (saturating_sub a b) = unat a - unat b"
proof (cases "a \<le> b")
  case True
  then show ?thesis by (simp add: saturating_sub_def word_le_nat_alt)
next
  case False
  then have "b \<le> a" by simp
  then have "unat (a - b) = unat a - unat b" by (simp add: unat_sub_if' word_le_nat_alt)
  with False show ?thesis by (simp add: saturating_sub_def)
qed

lemma saturating_sub_one_le: "saturating_sub a 1 \<le> a"
  by (simp add: word_le_nat_alt unat_saturating_sub)

lemma saturating_sub_one_less: "0 < a \<Longrightarrow> saturating_sub a 1 < a"
  by (simp add: word_less_nat_alt unat_saturating_sub unat_gt_0)

lemma unat_plus_one_less: "x < y \<Longrightarrow> unat (x + 1 :: u64) = Suc (unat x)"
proof -
  assume "x < y"
  then have "unat x + unat (1 :: u64) < 2 ^ 64"
    using unsigned_less [of y, where ?'a = nat] by (simp add: word_less_nat_alt)
  then show ?thesis by (simp add: unat_plus_if')
qed

lemma unat_plus_one: "x \<noteq> - 1 \<Longrightarrow> unat (x + 1 :: u64) = Suc (unat x)"
  using unat_plus_one_less [of x "- 1"] word_order.not_eq_extremum [of x] by simp

lemma plus_one_le: "x < y \<Longrightarrow> x + 1 \<le> (y :: u64)"
  by (simp add: word_le_nat_alt word_less_nat_alt unat_plus_one_less)

lemma less_plus_one: "x < y \<Longrightarrow> x < (x + 1 :: u64)"
  by (simp add: word_less_nat_alt unat_plus_one_less)

lemma less_plus_one_iff: "y \<noteq> - 1 \<Longrightarrow> x < y + 1 \<longleftrightarrow> x \<le> (y :: u64)"
  by (simp add: word_less_nat_alt word_le_nat_alt unat_plus_one less_Suc_eq_le)

lemma set_range_incl: "set (range_incl a b) = {a..b}"
proof
  show "set (range_incl a b) \<subseteq> {a..b}"
  proof
    fix x assume "x \<in> set (range_incl a b)"
    then obtain n where n: "x = word_of_nat n" "unat a \<le> n" "n \<le> unat b"
      by (auto simp: range_incl_def)
    then have "n < 2 ^ 64" using unsigned_less [of b, where ?'a = nat] by simp
    then have "unat x = n" using n by (simp add: unat_of_nat)
    with n show "x \<in> {a..b}" by (simp add: word_le_nat_alt)
  qed
next
  show "{a..b} \<subseteq> set (range_incl a b)"
  proof
    fix x assume "x \<in> {a..b}"
    then have "unat a \<le> unat x" "unat x < Suc (unat b)" by (auto simp: word_le_nat_alt)
    then have "unat x \<in> set [unat a..<Suc (unat b)]" by auto
    then have "word_of_nat (unat x) \<in> set (range_incl a b)"
      unfolding range_incl_def by (simp only: set_map) (rule imageI)
    then show "x \<in> set (range_incl a b)" by simp
  qed
qed

section \<open>Decimal text\<close>

text \<open>\<open>format!("{}", n)\<close> for an unsigned integer.\<close>

definition digit_char :: "nat \<Rightarrow> char" where
  "digit_char n = char_of (48 + n)"

fun dec :: "nat \<Rightarrow> string" where
  "dec n = (if n < 10 then [digit_char n] else dec (n div 10) @ [digit_char (n mod 10)])"

declare dec.simps [simp del]

lemma unat_of_char: "char_of (unat (of_char c :: u8)) = c"
proof -
  have "(of_char c :: u8) = word_of_nat (of_char c)" by (simp add: of_char_def)
  moreover have "of_char c < (256 :: nat)" by (rule nat_of_char_less_256)
  ultimately show ?thesis by (simp add: unat_of_nat)
qed

text \<open>The position of a member of a list.\<close>

lemma takeWhile_position:
  assumes "x \<in> set xs"
  shows "length (takeWhile (\<lambda>y. y \<noteq> x) xs) < length xs" "xs ! length (takeWhile (\<lambda>y. y \<noteq> x) xs) = x"
proof -
  show n: "length (takeWhile (\<lambda>y. y \<noteq> x) xs) < length xs"
    using assms by (metis (mono_tags) length_takeWhile_le order_le_imp_less_or_eq set_takeWhileD
        takeWhile_eq_all_conv takeWhile_eq_take take_all)
  then show "xs ! length (takeWhile (\<lambda>y. y \<noteq> x) xs) = x" using nth_length_takeWhile by blast
qed

section \<open>Hash maps\<close>

text \<open>
  A \<open>HashMap\<close> is an association list with distinct keys; the list order stands for the iteration
  order, which the standard library leaves open.  Clients use it through the laws below.
\<close>

type_synonym ('k, 'v) hmap = "('k \<times> 'v) list"

definition hm_get :: "('k, 'v) hmap \<Rightarrow> 'k \<Rightarrow> 'v option" where
  "hm_get m k = map_of m k"

definition hm_insert :: "'k \<Rightarrow> 'v \<Rightarrow> ('k, 'v) hmap \<Rightarrow> ('k, 'v) hmap" where
  "hm_insert k v m = AList.update k v m"

definition hm_remove :: "'k \<Rightarrow> ('k, 'v) hmap \<Rightarrow> ('k, 'v) hmap" where
  "hm_remove k m = AList.delete k m"

definition hm_keys :: "('k, 'v) hmap \<Rightarrow> 'k list" where
  "hm_keys m = map fst m"

definition hm_wf :: "('k, 'v) hmap \<Rightarrow> bool" where
  "hm_wf m \<longleftrightarrow> distinct (map fst m)"

locale hash_map =
  fixes get :: "'m \<Rightarrow> 'k \<Rightarrow> 'v option"
    and ins :: "'k \<Rightarrow> 'v \<Rightarrow> 'm \<Rightarrow> 'm"
    and rem :: "'k \<Rightarrow> 'm \<Rightarrow> 'm"
    and keys :: "'m \<Rightarrow> 'k list"
    and wf :: "'m \<Rightarrow> bool"
  assumes get_ins: "get (ins k v m) k' = (if k' = k then Some v else get m k')"
    and get_rem: "wf m \<Longrightarrow> get (rem k m) k' = (if k' = k then None else get m k')"
    and set_keys: "set (keys m) = {k. get m k \<noteq> None}"
    and distinct_keys: "wf m \<Longrightarrow> distinct (keys m)"
    and wf_ins: "wf m \<Longrightarrow> wf (ins k v m)"
    and wf_rem: "wf m \<Longrightarrow> wf (rem k m)"
begin

lemma set_keys_ins: "set (keys (ins k v m)) = insert k (set (keys m))"
  by (auto simp: set_keys get_ins split: if_splits)

lemma set_keys_rem: "wf m \<Longrightarrow> set (keys (rem k m)) = set (keys m) - {k}"
  by (auto simp: set_keys get_rem split: if_splits)

lemma get_ins_foldr:
  "get (foldr (\<lambda>k. ins k (f k)) ks m) k' = (if k' \<in> set ks then Some (f k') else get m k')"
  by (induction ks) (auto simp: get_ins)

lemma card_keys: "wf m \<Longrightarrow> card {k. get m k \<noteq> None} = length (keys m)"
  by (metis distinct_card distinct_keys set_keys)

lemma length_keys_ins_new: "wf m \<Longrightarrow> get m k = None \<Longrightarrow> length (keys (ins k v m)) = Suc (length (keys m))"
proof -
  assume w: "wf m" and n: "get m k = None"
  have "length (keys (ins k v m)) = card (insert k (set (keys m)))"
    using distinct_card [OF distinct_keys [OF wf_ins [OF w]]] set_keys_ins by metis
  moreover have "k \<notin> set (keys m)" using n by (simp add: set_keys)
  ultimately show ?thesis using distinct_card [OF distinct_keys [OF w]] by simp
qed

end

interpretation hm: hash_map hm_get hm_insert hm_remove hm_keys hm_wf
proof
  fix m :: "('k, 'v) hmap" and k k' :: 'k and v :: 'v
  show "hm_get (hm_insert k v m) k' = (if k' = k then Some v else hm_get m k')"
    by (simp add: hm_get_def hm_insert_def update_conv')
  show "hm_get (hm_remove k m) k' = (if k' = k then None else hm_get m k')" if "hm_wf m"
    by (simp add: hm_get_def hm_remove_def delete_conv')
  show "set (hm_keys m) = {k. hm_get m k \<noteq> None}"
    by (auto simp: hm_keys_def hm_get_def map_of_eq_None_iff)
  show "distinct (hm_keys m)" if "hm_wf m"
    using that by (simp add: hm_wf_def hm_keys_def)
  show "hm_wf (hm_insert k v m)" if "hm_wf m"
    using that by (simp add: hm_wf_def hm_insert_def distinct_update)
  show "hm_wf (hm_remove k m)" if "hm_wf m"
    using that by (simp add: hm_wf_def hm_remove_def distinct_delete)
qed

declare hm.get_ins [hm_simps] hm.get_rem [hm_simps]

lemma hm_get_Nil [simp]: "hm_get [] k = None"
  by (simp add: hm_get_def)

lemma hm_wf_Nil [simp]: "hm_wf []"
  by (simp add: hm_wf_def)

lemma hm_keys_Nil [simp]: "hm_keys [] = []"
  by (simp add: hm_keys_def)

lemma hm_remove_absent: "hm_get m k = None \<Longrightarrow> hm_remove k m = m"
  by (simp add: hm_get_def hm_remove_def map_of_eq_None_iff)

lemma hm_wf_removes: "hm_wf m \<Longrightarrow> hm_wf (fold hm_remove ks m)"
  by (induction ks arbitrary: m) (simp_all add: hm.wf_rem)

lemma hm_get_removes:
  "hm_wf m \<Longrightarrow> hm_get (fold hm_remove ks m) k = (if k \<in> set ks then None else hm_get m k)"
  by (induction ks arbitrary: m) (simp_all add: hm_simps hm.wf_rem)

lemma hm_get_inserts:
  "hm_get (fold (\<lambda>k. hm_insert k (f k)) ks m) k = (if k \<in> set ks then Some (f k) else hm_get m k)"
  by (induction ks arbitrary: m) (simp_all add: hm_simps)

lemma hm_keys_insert: "hm_keys (hm_insert k v m) = (if k \<in> set (hm_keys m) then hm_keys m else hm_keys m @ [k])"
  by (simp add: hm_keys_def hm_insert_def update_keys)

lemma hm_wf_inserts: "hm_wf m \<Longrightarrow> hm_wf (fold (\<lambda>k. hm_insert k (f k)) ks m)"
  by (induction ks arbitrary: m) (simp_all add: hm.wf_ins)

section \<open>Operations\<close>

datatype err = IoError | JsonError | Panicked

datatype 'a res = Ret 'a | Fail err | Hang

type_synonym ('s, 'a) op = "'s \<Rightarrow> 'a res \<times> 's"

definition ret :: "'a \<Rightarrow> ('s, 'a) op" where
  "ret x s = (Ret x, s)"

definition fail :: "err \<Rightarrow> ('s, 'a) op" where
  "fail e s = (Fail e, s)"

definition hang :: "('s, 'a) op" where
  "hang s = (Hang, s)"

definition bind :: "('s, 'a) op \<Rightarrow> ('a \<Rightarrow> ('s, 'b) op) \<Rightarrow> ('s, 'b) op" where
  "bind m f s = (case m s of
       (Ret x, s') \<Rightarrow> f x s'
     | (Fail e, s') \<Rightarrow> (Fail e, s')
     | (Hang, s') \<Rightarrow> (Hang, s'))"

abbreviation (input) seq :: "('s, 'a) op \<Rightarrow> ('s, 'b) op \<Rightarrow> ('s, 'b) op" where
  "seq m n \<equiv> bind m (\<lambda>_. n)"

definition gets :: "('s \<Rightarrow> 'a) \<Rightarrow> ('s, 'a) op" where
  "gets f s = (Ret (f s), s)"

definition modify :: "('s \<Rightarrow> 's) \<Rightarrow> ('s, unit) op" where
  "modify f s = (Ret (), f s)"

definition when_op :: "bool \<Rightarrow> ('s, unit) op \<Rightarrow> ('s, unit) op" where
  "when_op b m = (if b then m else ret ())"

primrec for_each :: "'b list \<Rightarrow> ('b \<Rightarrow> ('s, unit) op) \<Rightarrow> ('s, unit) op" where
  "for_each [] f = ret ()"
| "for_each (x # xs) f = bind (f x) (\<lambda>_. for_each xs f)"

text \<open>\<open>Result<T, E>\<close> values of pure code, lifted: \<open>?\<close> on a JSON conversion.\<close>

definition from_json :: "'a option \<Rightarrow> ('s, 'a) op" where
  "from_json x = (case x of None \<Rightarrow> fail JsonError | Some y \<Rightarrow> ret y)"

text \<open>Run an operation on a field of the state.\<close>

definition zoom :: "('s \<Rightarrow> 't) \<Rightarrow> ('t \<Rightarrow> 's \<Rightarrow> 's) \<Rightarrow> ('t, 'a) op \<Rightarrow> ('s, 'a) op" where
  "zoom g u m s = (case m (g s) of (r, t) \<Rightarrow> (r, u t s))"

subsection \<open>Weakest preconditions\<close>

text \<open>
  \<open>post m Q s\<close>: running \<open>m\<close> from \<open>s\<close> ends in a result and a state that satisfy \<open>Q\<close>, whatever the
  result is.  \<open>on_ret\<close> continues after a \<open>Ret\<close> and passes an error or a hang through.
\<close>

definition post :: "('s, 'a) op \<Rightarrow> ('a res \<Rightarrow> 's \<Rightarrow> bool) \<Rightarrow> 's \<Rightarrow> bool" where
  "post m Q s \<longleftrightarrow> Q (fst (m s)) (snd (m s))"

lemma post_ret [wp]: "post (ret x) Q s \<longleftrightarrow> Q (Ret x) s"
  by (simp add: post_def ret_def)

lemma post_fail [wp]: "post (fail e) Q s \<longleftrightarrow> Q (Fail e) s"
  by (simp add: post_def fail_def)

lemma post_hang [wp]: "post hang Q s \<longleftrightarrow> Q Hang s"
  by (simp add: post_def hang_def)

lemma post_gets [wp]: "post (gets f) Q s \<longleftrightarrow> Q (Ret (f s)) s"
  by (simp add: post_def gets_def)

lemma post_modify [wp]: "post (modify f) Q s \<longleftrightarrow> Q (Ret ()) (f s)"
  by (simp add: post_def modify_def)

lemma post_bind [wp]:
  "post (bind m f) Q s \<longleftrightarrow>
     post m (\<lambda>r s'. case r of Ret x \<Rightarrow> post (f x) Q s' | Fail e \<Rightarrow> Q (Fail e) s' | Hang \<Rightarrow> Q Hang s') s"
  by (auto simp: post_def bind_def split: prod.splits res.splits)

lemma post_if [wp]: "post (if b then m else n) Q s \<longleftrightarrow> (if b then post m Q s else post n Q s)"
  by simp

lemma post_when_op [wp]: "post (when_op b m) Q s \<longleftrightarrow> (if b then post m Q s else Q (Ret ()) s)"
  by (simp add: when_op_def wp)

lemma post_zoom [wp]: "post (zoom g u m) Q s \<longleftrightarrow> post m (\<lambda>r t. Q r (u t s)) (g s)"
  by (simp add: post_def zoom_def split: prod.splits)

lemma post_from_json [wp]:
  "post (from_json x) Q s \<longleftrightarrow> (case x of None \<Rightarrow> Q (Fail JsonError) s | Some y \<Rightarrow> Q (Ret y) s)"
  by (simp add: from_json_def wp split: option.splits)

lemma post_mono: "post m Q s \<Longrightarrow> (\<And>r s'. Q r s' \<Longrightarrow> Q' r s') \<Longrightarrow> post m Q' s"
  by (simp add: post_def)

lemma post_conj: "post m (\<lambda>r s'. Q r s' \<and> Q' r s') s \<longleftrightarrow> post m Q s \<and> post m Q' s"
  by (auto simp: post_def)

lemma post_for_each:
  assumes "I s" "\<And>x s. x \<in> set xs \<Longrightarrow> I s \<Longrightarrow> post (f x) (\<lambda>r s'. I s') s"
  shows "post (for_each xs f) (\<lambda>r s'. I s') s"
  using assms
proof (induction xs arbitrary: s)
  case Nil
  then show ?case by (simp add: wp)
next
  case (Cons x xs)
  have "post (f x) (\<lambda>r s'. I s') s" using Cons.prems by simp
  moreover have "post (for_each xs f) (\<lambda>r s'. I s') t" if "I t" for t
    using that Cons.prems by (intro Cons.IH) auto
  ultimately show ?case
    by (simp add: post_bind) (erule post_mono, simp split: res.splits)
qed

subsection \<open>Laws\<close>

lemma bind_ret [monad]: "bind (ret x) f = f x"
  by (simp add: bind_def ret_def fun_eq_iff)

lemma bind_ret_right [monad]: "bind m ret = m"
  by (simp add: bind_def ret_def fun_eq_iff split: prod.splits res.splits)

lemma bind_assoc: "bind (bind m f) g = bind m (\<lambda>x. bind (f x) g)"
  by (simp add: bind_def fun_eq_iff split: prod.splits res.splits)

lemma case_option_ret [monad]: "(\<lambda>r. case r of None \<Rightarrow> ret None | Some b \<Rightarrow> ret (Some b)) = ret"
  by (simp add: fun_eq_iff split: option.splits)

text \<open>Evaluation: the operations as rewriting on a concrete state.\<close>

lemmas run_simps = bind_def ret_def fail_def hang_def gets_def modify_def when_op_def zoom_def
  from_json_def

end
