(* ===== verification/Protocol.thy ===== *)
theory Protocol
  imports Prelude
begin

text \<open>
  The shared types of \<open>raft-common\<close>: log entries and commands, the RPC messages and their envelope
  (\<open>protocol.rs\<close>), roles, persistent state and peers (\<open>state.rs\<close>), and the crate's constants
  (\<open>lib.rs\<close>).  Strings are byte strings, so \<open>length\<close> is Rust's \<open>len()\<close>.

  The fixed-capacity containers of the \<open>heapless\<close> crate are not part of the repository.  What the
  code does with them is a parameter: \<open>push_str E n s\<close> is the \<open>heapless::String<n>\<close> obtained from an
  empty one by \<open>let _ = t.push_str(s)\<close>, and \<open>vec_push E n v b\<close> is the \<open>heapless::Vec<u8, n>\<close> after
  \<open>let _ = v.push(b)\<close>.  \<open>heapless_ok\<close> states their documented behaviour: text that fits is stored,
  the capacity is never exceeded, and a push on a full vector is rejected.
\<close>

section \<open>The heapless crate\<close>

record heapless =
  push_str :: "nat \<Rightarrow> string \<Rightarrow> string"
  vec_push :: "nat \<Rightarrow> u8 list \<Rightarrow> u8 \<Rightarrow> u8 list"

definition heapless_ok :: "'e heapless_scheme \<Rightarrow> bool" where
  "heapless_ok E \<longleftrightarrow>
     (\<forall>n s. length s \<le> n \<longrightarrow> push_str E n s = s) \<and>
     (\<forall>n s. length (push_str E n s) \<le> n) \<and>
     (\<forall>n v b. length v < n \<longrightarrow> vec_push E n v b = v @ [b]) \<and>
     (\<forall>n v b. n \<le> length v \<longrightarrow> vec_push E n v b = v)"

lemma push_str_fits: "heapless_ok E \<Longrightarrow> length s \<le> n \<Longrightarrow> push_str E n s = s"
  by (simp add: heapless_ok_def)

lemma push_str_cap: "heapless_ok E \<Longrightarrow> length (push_str E n s) \<le> n"
  by (simp add: heapless_ok_def)

lemma push_str_overflow: "heapless_ok E \<Longrightarrow> n < length s \<Longrightarrow> push_str E n s \<noteq> s"
  by (metis push_str_cap not_le)

text \<open>\<open>for b in bytes { let _ = vec.push(b); }\<close>\<close>

definition push_bytes :: "'e heapless_scheme \<Rightarrow> nat \<Rightarrow> u8 list \<Rightarrow> u8 list" where
  "push_bytes E n bs = foldl (vec_push E n) [] bs"

lemma foldl_vec_push:
  "heapless_ok E \<Longrightarrow> length v \<le> n \<Longrightarrow> foldl (vec_push E n) v bs = v @ take (n - length v) bs"
proof (induction bs arbitrary: v)
  case Nil
  then show ?case by simp
next
  case (Cons b bs)
  show ?case
  proof (cases "length v < n")
    case True
    with Cons.prems have "vec_push E n v b = v @ [b]" by (simp add: heapless_ok_def)
    with True Cons.prems Cons.IH [of "v @ [b]"] show ?thesis by (simp add: take_Cons')
  next
    case False
    with Cons.prems have "vec_push E n v b = v" by (simp add: heapless_ok_def)
    with False Cons.prems Cons.IH [of v] show ?thesis by simp
  qed
qed

lemma push_bytes_take: "heapless_ok E \<Longrightarrow> push_bytes E n bs = take n bs"
  by (simp add: push_bytes_def foldl_vec_push)

text \<open>An instance, used where a concrete run needs one.\<close>

definition heapless_ref :: heapless where
  "heapless_ref = \<lparr>push_str = (\<lambda>n s. if length s \<le> n then s else []),
                   vec_push = (\<lambda>n v b. if length v < n then v @ [b] else v)\<rparr>"

lemma heapless_ref_ok: "heapless_ok heapless_ref"
  by (simp add: heapless_ok_def heapless_ref_def)

section \<open>Constants\<close>

definition RAFT_PORT :: u16 where "RAFT_PORT = 5555"
definition MAX_PEERS :: nat where "MAX_PEERS = 16"
definition MAX_VALUE_SIZE :: nat where "MAX_VALUE_SIZE = 1024"
definition MAX_KEY_SIZE :: nat where "MAX_KEY_SIZE = 256"

section \<open>Log entries and messages\<close>

datatype command =
    Put string "u8 list"
  | Delete string
  | Noop

record log_entry =
  index :: u64
  entry_term :: u64
  command :: command

record append_entries_request =
  ae_term :: u64
  ae_leader_id :: string
  prev_log_index :: u64
  prev_log_term :: u64
  ae_entries :: "log_entry list"
  leader_commit :: u64

record append_entries_response =
  aer_term :: u64
  success :: bool
  aer_last_log_index :: u64
  aer_node_id :: string

record request_vote_request =
  rv_term :: u64
  candidate_id :: string
  rv_last_log_index :: u64
  rv_last_log_term :: u64

record request_vote_response =
  rvr_term :: u64
  vote_granted :: bool
  rvr_node_id :: string

record client_request =
  request_id :: u64
  cr_command :: command

record client_response =
  cresp_success :: bool
  cresp_request_id :: u64
  cresp_data :: "u8 list option"
  cresp_error :: "string option"
  cresp_leader_id :: "string option"

datatype raft_message =
    AppendEntries append_entries_request
  | AppendEntriesResponse append_entries_response
  | RequestVote request_vote_request
  | RequestVoteResponse request_vote_response
  | ClientRequest client_request
  | ClientResponse client_response

record message_envelope =
  env_from :: string
  env_to :: string
  message :: raft_message

definition new_envelope :: "'e heapless_scheme \<Rightarrow> string \<Rightarrow> string \<Rightarrow> raft_message \<Rightarrow> message_envelope" where
  "new_envelope E from to msg =
     \<lparr>env_from = push_str E 64 from, env_to = push_str E 64 to, message = msg\<rparr>"

section \<open>Node state types\<close>

datatype node_role = Follower | Candidate | Leader

definition default_role :: node_role where "default_role = Follower"

record persistent_state =
  current_term :: u64
  voted_for :: "string option"

definition default_persistent_state :: persistent_state where
  "default_persistent_state = \<lparr>current_term = 0, voted_for = None\<rparr>"

record peer_info =
  peer_id :: string
  peer_address :: string

definition new_peer_info :: "'e heapless_scheme \<Rightarrow> string \<Rightarrow> string \<Rightarrow> peer_info" where
  "new_peer_info E i addr = \<lparr>peer_id = push_str E 64 i, peer_address = push_str E 64 addr\<rparr>"

text \<open>What the container types bound: keys, values and identifiers fit their capacities.\<close>

fun command_ok :: "command \<Rightarrow> bool" where
  "command_ok (Put k v) \<longleftrightarrow> length k \<le> MAX_KEY_SIZE \<and> length v \<le> MAX_VALUE_SIZE"
| "command_ok (Delete k) \<longleftrightarrow> length k \<le> MAX_KEY_SIZE"
| "command_ok Noop \<longleftrightarrow> True"

definition entry_ok :: "log_entry \<Rightarrow> bool" where
  "entry_ok e \<longleftrightarrow> command_ok (command e)"

section \<open>Log positions\<close>

text \<open>
  Raft compares logs by the position of their last entry: the later term wins, and within a term
  the higher index.  Positions carry that lexicographic order.
\<close>

datatype log_pos = LogPos (pos_term: u64) (pos_index: u64)

instantiation log_pos :: linorder
begin

definition less_eq_log_pos :: "log_pos \<Rightarrow> log_pos \<Rightarrow> bool" where
  "less_eq_log_pos p q \<longleftrightarrow> pos_term p < pos_term q \<or> (pos_term p = pos_term q \<and> pos_index p \<le> pos_index q)"

definition less_log_pos :: "log_pos \<Rightarrow> log_pos \<Rightarrow> bool" where
  "less_log_pos p q \<longleftrightarrow> pos_term p < pos_term q \<or> (pos_term p = pos_term q \<and> pos_index p < pos_index q)"

instance
  by standard
    (auto simp: less_eq_log_pos_def less_log_pos_def intro: log_pos.expand)

end

end
