(* ===== verification/Raft_Log.thy ===== *)
theory Raft_Log
  imports Protocol
begin

text \<open>
  The persistent log of \<open>raft/src/log.rs\<close>: the in-memory map of entries, the persistent state, and
  the two files \<open>state.json\<close> and \<open>log.jsonl\<close> of the data directory.  The directory is part of the
  model's state, with the bytes its files hold; a system call consumes one verdict of the list
  \<open>faults\<close> (an empty list means that everything works) and may be refused or be torn after some
  bytes, in which case \<open>?\<close> leaves the operation with what has been done so far.

  \<open>serde_json\<close> is a parameter (\<open>serde\<close>), with its round trips and its one-line output as the named
  hypothesis \<open>serde_ok\<close>.
\<close>

section \<open>Serialisation\<close>

record disk_log_entry =
  d_index :: u64
  d_term :: u64
  command_type :: string
  d_key :: "string option"
  d_value :: "u8 list option"

record serde = heapless +
  state_to_json :: "persistent_state \<Rightarrow> string option"
  state_from_json :: "string \<Rightarrow> persistent_state option"
  entry_to_json :: "disk_log_entry \<Rightarrow> string option"
  entry_from_json :: "string \<Rightarrow> disk_log_entry option"

definition LF :: char where "LF = CHR 0x0A"
definition CR :: char where "CR = CHR 0x0D"

definition state_ok :: "persistent_state \<Rightarrow> bool" where
  "state_ok p \<longleftrightarrow> (\<forall>v. voted_for p = Some v \<longrightarrow> length v \<le> 64)"

definition serde_ok :: "'e serde_scheme \<Rightarrow> bool" where
  "serde_ok E \<longleftrightarrow> heapless_ok E \<and>
     (\<forall>p. state_ok p \<longrightarrow> (\<exists>j. state_to_json E p = Some j \<and> state_from_json E j = Some p)) \<and>
     (\<forall>d. \<exists>j. entry_to_json E d = Some j \<and> entry_from_json E j = Some d \<and>
            j \<noteq> [] \<and> LF \<notin> set j \<and> CR \<notin> set j)"

lemma serde_ok_heapless: "serde_ok E \<Longrightarrow> heapless_ok E"
  by (simp add: serde_ok_def)

section \<open>The data directory\<close>

datatype fault = Works | Refused | Torn nat

record data_dir =
  state_json :: "string option"
  log_jsonl :: "string option"
  log_tmp :: "string option"
  faults :: "fault list"

definition no_files :: data_dir where
  "no_files = \<lparr>state_json = None, log_jsonl = None, log_tmp = None, faults = []\<rparr>"

definition take_fault :: "(data_dir, fault) op" where
  "take_fault d = (case faults d of [] \<Rightarrow> (Ret Works, d) | f # fs \<Rightarrow> (Ret f, d\<lparr>faults := fs\<rparr>))"

text \<open>A call that works or is refused, and one that writes bytes through \<open>upd\<close>.\<close>

definition io_call :: "(data_dir \<Rightarrow> data_dir) \<Rightarrow> (data_dir, unit) op" where
  "io_call f = bind take_fault (\<lambda>v. if v = Works then modify f else fail IoError)"

definition io_write :: "(string \<Rightarrow> data_dir \<Rightarrow> data_dir) \<Rightarrow> string \<Rightarrow> (data_dir, unit) op" where
  "io_write upd s = bind take_fault (\<lambda>v. case v of
       Works \<Rightarrow> modify (upd s)
     | Refused \<Rightarrow> fail IoError
     | Torn n \<Rightarrow> seq (modify (upd (take n s))) (fail IoError))"

definition append_text :: "string option \<Rightarrow> string \<Rightarrow> string option" where
  "append_text c s = Some (case c of None \<Rightarrow> s | Some t \<Rightarrow> t @ s)"

section \<open>The log\<close>

text \<open>
  \<open>Option<File>\<close> with what the open file is: \<open>log.jsonl\<close> itself, or the inode that a rename has
  unlinked (writes to it succeed and are lost).
\<close>

datatype log_handle = NoFile | LogFile | UnlinkedFile

record raft_log =
  data_dir :: data_dir
  entries :: "u64 \<rightharpoonup> log_entry"
  persistent :: persistent_state
  last_index :: u64
  log_file :: log_handle

abbreviation on_dir :: "(data_dir, 'a) op \<Rightarrow> (raft_log, 'a) op" where
  "on_dir \<equiv> zoom data_dir (\<lambda>d. data_dir_update (\<lambda>_. d))"

definition disk_entry_to_log_entry :: "'e heapless_scheme \<Rightarrow> disk_log_entry \<Rightarrow> log_entry" where
  "disk_entry_to_log_entry E d =
     \<lparr>index = d_index d, entry_term = d_term d,
      command =
        (if command_type d = ''Put'' then
           Put (push_str E 256 (case d_key d of None \<Rightarrow> [] | Some k \<Rightarrow> k))
               (push_bytes E 1024 (case d_value d of None \<Rightarrow> [] | Some v \<Rightarrow> v))
         else if command_type d = ''Delete'' then
           Delete (push_str E 256 (case d_key d of None \<Rightarrow> [] | Some k \<Rightarrow> k))
         else Noop)\<rparr>"

definition entry_to_disk :: "log_entry \<Rightarrow> disk_log_entry" where
  "entry_to_disk e =
     (case command e of
        Put k v \<Rightarrow> \<lparr>d_index = index e, d_term = entry_term e, command_type = ''Put'',
                    d_key = Some k, d_value = Some v\<rparr>
      | Delete k \<Rightarrow> \<lparr>d_index = index e, d_term = entry_term e, command_type = ''Delete'',
                     d_key = Some k, d_value = None\<rparr>
      | Noop \<Rightarrow> \<lparr>d_index = index e, d_term = entry_term e, command_type = ''Noop'',
                  d_key = None, d_value = None\<rparr>)"

definition save_state :: "'e serde_scheme \<Rightarrow> (raft_log, unit) op" where
  "save_state E =
     bind (gets persistent) (\<lambda>p.
     bind (from_json (state_to_json E p)) (\<lambda>content.
     on_dir (io_write (\<lambda>s d. d\<lparr>state_json := Some s\<rparr>) content)))"

definition log_current_term :: "raft_log \<Rightarrow> u64" where
  "log_current_term l = current_term (persistent l)"

definition set_current_term :: "'e serde_scheme \<Rightarrow> u64 \<Rightarrow> (raft_log, unit) op" where
  "set_current_term E t =
     seq (modify (\<lambda>l. l\<lparr>persistent := \<lparr>current_term = t, voted_for = None\<rparr>\<rparr>)) (save_state E)"

definition log_voted_for :: "raft_log \<Rightarrow> string option" where
  "log_voted_for l = voted_for (persistent l)"

definition set_voted_for :: "'e serde_scheme \<Rightarrow> string option \<Rightarrow> (raft_log, unit) op" where
  "set_voted_for E c =
     seq (modify (\<lambda>l. l\<lparr>persistent := (persistent l)\<lparr>voted_for := map_option (push_str E 64) c\<rparr>\<rparr>))
         (save_state E)"

definition last_term :: "raft_log \<Rightarrow> u64" where
  "last_term l = (case entries l (last_index l) of None \<Rightarrow> 0 | Some e \<Rightarrow> entry_term e)"

definition get_entry :: "raft_log \<Rightarrow> u64 \<Rightarrow> log_entry option" where
  "get_entry l i = entries l i"

definition term_at :: "raft_log \<Rightarrow> u64 \<Rightarrow> u64 option" where
  "term_at l i = map_option entry_term (entries l i)"

text \<open>Write one line through the log's file handle, if it has one; then \<open>flush\<close>.\<close>

definition write_line :: "'e serde_scheme \<Rightarrow> log_entry \<Rightarrow> (raft_log, unit) op" where
  "write_line E e =
     bind (gets log_file) (\<lambda>h.
     if h = NoFile then ret ()
     else bind (from_json (entry_to_json E (entry_to_disk e))) (\<lambda>line.
       on_dir (io_write
         (\<lambda>s d. if h = LogFile then d\<lparr>log_jsonl := append_text (log_jsonl d) s\<rparr> else d)
         (line @ [LF]))))"

definition flush_log :: "(raft_log, unit) op" where
  "flush_log = bind (gets log_file) (\<lambda>h. if h = NoFile then ret () else on_dir (io_call id))"

definition insert_entry :: "log_entry \<Rightarrow> (u64 \<rightharpoonup> log_entry) \<Rightarrow> (u64 \<rightharpoonup> log_entry)" where
  "insert_entry e m = m(index e \<mapsto> e)"

definition log_append :: "'e serde_scheme \<Rightarrow> u64 \<Rightarrow> command \<Rightarrow> (raft_log, u64) op" where
  "log_append E t c =
     bind (gets (\<lambda>l. last_index l + 1)) (\<lambda>i.
     let e = \<lparr>index = i, entry_term = t, command = c\<rparr> in
     seq (write_line E e) (
     seq flush_log (
     seq (modify (\<lambda>l. l\<lparr>entries := insert_entry e (entries l), last_index := i\<rparr>))
     (ret i))))"

definition append_entry_from_leader :: "'e serde_scheme \<Rightarrow> log_entry \<Rightarrow> (raft_log, unit) op" where
  "append_entry_from_leader E e =
     seq (write_line E e)
     (modify (\<lambda>l. l\<lparr>last_index := max (last_index l) (index e),
                    entries := insert_entry e (entries l)\<rparr>))"

definition append_entries :: "'e serde_scheme \<Rightarrow> log_entry list \<Rightarrow> (raft_log, unit) op" where
  "append_entries E es = seq (for_each es (append_entry_from_leader E)) flush_log"

text \<open>\<open>for idx in 1..from_index\<close>\<close>

definition range_below :: "u64 \<Rightarrow> u64 list" where
  "range_below b = map word_of_nat [1..<unat b]"

definition write_temp :: "'e serde_scheme \<Rightarrow> u64 \<Rightarrow> (raft_log, unit) op" where
  "write_temp E i =
     bind (gets (\<lambda>l. entries l i)) (\<lambda>x. case x of
       None \<Rightarrow> ret ()
     | Some e \<Rightarrow> bind (from_json (entry_to_json E (entry_to_disk e))) (\<lambda>line.
         on_dir (io_write (\<lambda>s d. d\<lparr>log_tmp := append_text (log_tmp d) s\<rparr>) (line @ [LF]))))"

definition open_log :: "(raft_log, unit) op" where
  "open_log =
     seq (on_dir (io_call (\<lambda>d. d\<lparr>log_jsonl := append_text (log_jsonl d) []\<rparr>)))
         (modify (\<lambda>l. l\<lparr>log_file := LogFile\<rparr>))"

definition truncate_from :: "'e serde_scheme \<Rightarrow> u64 \<Rightarrow> (raft_log, unit) op" where
  "truncate_from E from_index =
     seq (modify (\<lambda>l. l\<lparr>entries := (\<lambda>i. if i < from_index then entries l i else None),
                        last_index := saturating_sub from_index 1\<rparr>)) (
     seq (on_dir (io_call (\<lambda>d. d\<lparr>log_tmp := Some []\<rparr>))) (
     seq (for_each (range_below from_index) (write_temp E)) (
     seq (on_dir (io_call id)) (
     seq (on_dir (io_call (\<lambda>d. d\<lparr>log_jsonl := log_tmp d, log_tmp := None\<rparr>))) (
     seq (modify (\<lambda>l. l\<lparr>log_file := (if log_file l = LogFile then UnlinkedFile else log_file l)\<rparr>))
     open_log)))))"

definition get_entries :: "raft_log \<Rightarrow> u64 \<Rightarrow> u64 \<Rightarrow> log_entry list" where
  "get_entries l start_index end_index = List.map_filter (entries l) (range_incl start_index end_index)"

definition has_entry :: "raft_log \<Rightarrow> u64 \<Rightarrow> u64 \<Rightarrow> bool" where
  "has_entry l i t = (case entries l i of None \<Rightarrow> i = 0 | Some e \<Rightarrow> entry_term e = t)"

section \<open>Loading from disk\<close>

text \<open>\<open>BufRead::lines\<close>: a line ends at a newline, which is dropped with a carriage return before it.\<close>

definition strip_cr :: "string \<Rightarrow> string" where
  "strip_cr s = (if s \<noteq> [] \<and> List.last s = CR then butlast s else s)"

fun lines_from :: "string \<Rightarrow> string \<Rightarrow> string list" where
  "lines_from acc [] = (if acc = [] then [] else [acc])"
| "lines_from acc (c # cs) =
     (if c = LF then strip_cr acc # lines_from [] cs else lines_from (acc @ [c]) cs)"

definition lines_of :: "string \<Rightarrow> string list" where
  "lines_of s = lines_from [] s"

definition load_line :: "'e serde_scheme \<Rightarrow> string \<Rightarrow> (raft_log, unit) op" where
  "load_line E line =
     seq (on_dir (io_call id)) (
     if line = [] then ret ()
     else bind (from_json (entry_from_json E line)) (\<lambda>d.
       let e = disk_entry_to_log_entry E d in
       modify (\<lambda>l. l\<lparr>last_index := max (last_index l) (index e),
                     entries := insert_entry e (entries l)\<rparr>)))"

definition load_from_disk :: "'e serde_scheme \<Rightarrow> (raft_log, unit) op" where
  "load_from_disk E =
     bind (gets (\<lambda>l. state_json (data_dir l))) (\<lambda>sj.
     seq (case sj of
            None \<Rightarrow> ret ()
          | Some content \<Rightarrow>
              seq (on_dir (io_call id)) (
              bind (from_json (state_from_json E content)) (\<lambda>p.
              modify (\<lambda>l. l\<lparr>persistent := p\<rparr>)))) (
     bind (gets (\<lambda>l. log_jsonl (data_dir l))) (\<lambda>lj.
     seq (case lj of
            None \<Rightarrow> ret ()
          | Some text \<Rightarrow>
              seq (on_dir (io_call id)) (for_each (lines_of text) (load_line E)))
     open_log)))"

definition new_raft_log :: "'e serde_scheme \<Rightarrow> data_dir \<Rightarrow> unit res \<times> raft_log" where
  "new_raft_log E d =
     seq (on_dir (io_call id)) (load_from_disk E)
       \<lparr>data_dir = d, entries = Map.empty, persistent = default_persistent_state,
        last_index = 0, log_file = NoFile\<rparr>"

end
