(* ===== verification/State_Machine.thy ===== *)
theory State_Machine
  imports Protocol
begin

text \<open>
  The replicated key-value store of \<open>raft/src/state_machine.rs\<close>.  Parsing of message bodies
  (\<open>serde_json\<close>) and the snapshot format (\<open>bincode\<close>) are parameters.  The interface \<open>applier\<close> is what
  the node relies on when it feeds committed entries to the machine: an entry at or below the last
  applied index is ignored, any other moves that index to its own.
\<close>

record state_machine =
  sm_data :: "(string, u8 list) hmap"
  sm_last_applied :: u64

datatype apply_result = Ok | Value "u8 list option" | NoopApplied

definition new_state_machine :: state_machine where
  "new_state_machine = \<lparr>sm_data = [], sm_last_applied = 0\<rparr>"

definition apply_entry :: "log_entry \<Rightarrow> state_machine \<Rightarrow> apply_result \<times> state_machine" where
  "apply_entry e sm =
     (if index e \<le> sm_last_applied sm then (Ok, sm)
      else
        let (r, d) = (case command e of
            Put k v \<Rightarrow> (Ok, hm_insert k v (sm_data sm))
          | Delete k \<Rightarrow> (Ok, hm_remove k (sm_data sm))
          | Noop \<Rightarrow> (NoopApplied, sm_data sm))
        in (r, \<lparr>sm_data = d, sm_last_applied = index e\<rparr>))"

definition sm_get :: "state_machine \<Rightarrow> string \<Rightarrow> u8 list option" where
  "sm_get sm k = hm_get (sm_data sm) k"

definition sm_keys :: "state_machine \<Rightarrow> string list" where
  "sm_keys sm = hm_keys (sm_data sm)"

section \<open>Messages\<close>

definition starts_with :: "string \<Rightarrow> string \<Rightarrow> bool" where
  "starts_with s p \<longleftrightarrow> take (length p) s = p"

definition strip_prefix :: "string \<Rightarrow> string \<Rightarrow> string option" where
  "strip_prefix s p = (if starts_with s p then Some (drop (length p) s) else None)"

text \<open>\<open>str::parse::<u128>\<close>: an optional plus sign, at least one digit, and no overflow.\<close>

definition digit_of :: "char \<Rightarrow> nat option" where
  "digit_of c = (let n = of_char c :: nat in if 48 \<le> n \<and> n \<le> 57 then Some (n - 48) else None)"

fun parse_digits :: "nat \<Rightarrow> string \<Rightarrow> nat option" where
  "parse_digits acc [] = Some acc"
| "parse_digits acc (c # cs) = (case digit_of c of
      None \<Rightarrow> None
    | Some d \<Rightarrow> let acc' = acc * 10 + d in if acc' < 2 ^ 128 then parse_digits acc' cs else None)"

definition parse_u128 :: "string \<Rightarrow> nat option" where
  "parse_u128 s = (case s of
      [] \<Rightarrow> None
    | c # cs \<Rightarrow> if c = CHR ''+'' then (if cs = [] then None else parse_digits 0 cs) else parse_digits 0 s)"

definition msg_prefix :: string where "msg_prefix = ''_msg:''"

definition read_message :: "(u8 list \<Rightarrow> 'j option) \<Rightarrow> string \<times> u8 list \<Rightarrow> (nat \<times> 'j) option" where
  "read_message parse kv =
     Option.bind (strip_prefix (fst kv) msg_prefix) (\<lambda>rest.
     Option.bind (parse_u128 rest) (\<lambda>timestamp.
     Option.bind (parse (snd kv)) (\<lambda>msg. Some (timestamp, msg))))"

definition stamped_messages :: "(u8 list \<Rightarrow> 'j option) \<Rightarrow> state_machine \<Rightarrow> (nat \<times> 'j) list" where
  "stamped_messages parse sm =
     sort_key (\<lambda>p. - int (fst p))
       (List.map_filter (read_message parse) (filter (\<lambda>kv. starts_with (fst kv) msg_prefix) (sm_data sm)))"

definition sm_get_messages :: "(u8 list \<Rightarrow> 'j option) \<Rightarrow> state_machine \<Rightarrow> u64 \<Rightarrow> 'j list" where
  "sm_get_messages parse sm limit = map snd (take (unat limit) (stamped_messages parse sm))"

section \<open>Snapshots\<close>

record bincode =
  bin_serialize :: "(string, u8 list) hmap \<Rightarrow> u8 list option"
  bin_deserialize :: "u8 list \<Rightarrow> (string, u8 list) hmap option"

definition bincode_ok :: "bincode \<Rightarrow> bool" where
  "bincode_ok B \<longleftrightarrow> (\<forall>m. hm_wf m \<longrightarrow>
     (\<exists>b m'. bin_serialize B m = Some b \<and> bin_deserialize B b = Some m' \<and> hm_wf m' \<and> hm_get m' = hm_get m))"

definition snapshot :: "bincode \<Rightarrow> state_machine \<Rightarrow> u8 list" where
  "snapshot B sm = (case bin_serialize B (sm_data sm) of None \<Rightarrow> [] | Some b \<Rightarrow> b)"

definition restore :: "bincode \<Rightarrow> u8 list \<Rightarrow> u64 \<Rightarrow> state_machine \<Rightarrow> state_machine option" where
  "restore B b i sm = (case bin_deserialize B b of
      None \<Rightarrow> None
    | Some d \<Rightarrow> Some (sm\<lparr>sm_data := d, sm_last_applied := i\<rparr>))"

section \<open>The store as a map\<close>

text \<open>The abstract machine: a command acts on a partial map.\<close>

fun kv_apply :: "command \<Rightarrow> (string \<rightharpoonup> u8 list) \<Rightarrow> (string \<rightharpoonup> u8 list)" where
  "kv_apply (Put k v) m = m(k \<mapsto> v)"
| "kv_apply (Delete k) m = m(k := None)"
| "kv_apply Noop m = m"

definition sm_wf :: "state_machine \<Rightarrow> bool" where
  "sm_wf sm \<longleftrightarrow> hm_wf (sm_data sm)"

definition sm_abs :: "state_machine \<Rightarrow> (string \<rightharpoonup> u8 list)" where
  "sm_abs sm = hm_get (sm_data sm)"

definition sm_step :: "log_entry \<Rightarrow> state_machine \<Rightarrow> state_machine" where
  "sm_step e sm = snd (apply_entry e sm)"

lemma sm_step_stale: "index e \<le> sm_last_applied sm \<Longrightarrow> sm_step e sm = sm"
  by (simp add: sm_step_def apply_entry_def)

lemma sm_last_applied_step:
  "sm_last_applied (sm_step e sm) = max (sm_last_applied sm) (index e)"
  by (auto simp: sm_step_def apply_entry_def max_def split: command.splits)

lemma sm_wf_step: "sm_wf sm \<Longrightarrow> sm_wf (sm_step e sm)"
  by (auto simp: sm_wf_def sm_step_def apply_entry_def hm.wf_ins hm.wf_rem split: command.splits)

lemma sm_abs_step:
  "sm_wf sm \<Longrightarrow> sm_last_applied sm < index e \<Longrightarrow> sm_abs (sm_step e sm) = kv_apply (command e) (sm_abs sm)"
proof -
  assume w: "sm_wf sm" and i: "sm_last_applied sm < index e"
  then have n: "\<not> index e \<le> sm_last_applied sm" by simp
  show ?thesis
    using w n by (cases "command e") (auto simp: sm_wf_def sm_abs_def sm_step_def apply_entry_def hm_simps)
qed

lemma sm_wf_new [simp]: "sm_wf new_state_machine"
  by (simp add: sm_wf_def new_state_machine_def)

section \<open>Feeding entries\<close>

locale applier =
  fixes app :: "'e \<Rightarrow> 's \<Rightarrow> 's"
    and idx :: "'e \<Rightarrow> 'i :: linorder"
    and applied :: "'s \<Rightarrow> 'i"
  assumes stale: "idx e \<le> applied s \<Longrightarrow> app e s = s"
    and fresh: "applied s < idx e \<Longrightarrow> applied (app e s) = idx e"
begin

lemma applied_app: "applied (app e s) = max (applied s) (idx e)"
  by (metis fresh linorder_not_le max.absorb1 max.absorb2 order_less_imp_le stale)

lemma applied_mono: "applied s \<le> applied (fold app es s)"
proof (induction es arbitrary: s)
  case Nil
  then show ?case by simp
next
  case (Cons e es)
  have "applied s \<le> applied (app e s)" by (simp add: applied_app)
  also have "\<dots> \<le> applied (fold app es (app e s))" by (rule Cons.IH)
  finally show ?case by simp
qed

lemma idx_le_applied: "e \<in> set es \<Longrightarrow> idx e \<le> applied (fold app es s)"
proof (induction es arbitrary: s)
  case Nil
  then show ?case by simp
next
  case (Cons x es)
  have "idx x \<le> applied (app x s)" by (simp add: applied_app)
  then have "idx x \<le> applied (fold app es (app x s))" using applied_mono order_trans by blast
  with Cons show ?case by auto
qed

lemma fold_stale: "\<forall>e \<in> set es. idx e \<le> applied s \<Longrightarrow> fold app es s = s"
  by (induction es) (simp_all add: stale)

lemma app_once: "app e (app e s) = app e s"
  by (simp add: applied_app stale)

lemma replay_once: "set es' \<subseteq> set es \<Longrightarrow> fold app es' (fold app es s) = fold app es s"
  by (rule fold_stale) (auto intro: idx_le_applied)

end

interpretation sm: applier sm_step index sm_last_applied
  by unfold_locales (simp_all add: sm_step_stale sm_last_applied_step)

lemma sm_wf_fold: "sm_wf sm \<Longrightarrow> sm_wf (fold sm_step es sm)"
  by (induction es arbitrary: sm) (simp_all add: sm_wf_step)

text \<open>In index order the machine is the fold of the abstract commands.\<close>

lemma sm_abs_fold:
  assumes "sm_wf sm" "sorted_wrt (<) (sm_last_applied sm # map index es)"
  shows "sm_abs (fold sm_step es sm) = fold (\<lambda>e. kv_apply (command e)) es (sm_abs sm)"
  using assms
proof (induction es arbitrary: sm)
  case Nil
  then show ?case by simp
next
  case (Cons e es)
  then have "sm_last_applied (sm_step e sm) = index e"
    by (simp add: sm_last_applied_step)
  with Cons show ?case
    by (simp add: sm_wf_step sm_abs_step)
qed

end
