(* ===== verification/Config.thy ===== *)
theory Config
  imports Protocol
begin

text \<open>
  The daemon's configuration (\<open>raft/src/config.rs\<close>).  The TOML reader is a parameter that yields a
  document with every field optional; which fields are required and what the others default to is
  the \<open>serde\<close> attributes of the source, modelled by \<open>config_of_doc\<close>.
\<close>

record server_config =
  cfg_node_id :: string
  cfg_listen_addr :: string
  cfg_data_dir :: string
  cfg_log_level :: string

record timing_config =
  heartbeat_interval_ms :: u64
  election_timeout_min_ms :: u64
  election_timeout_max_ms :: u64
  rpc_timeout_ms :: u64

record peer_config =
  pc_id :: string
  pc_address :: string

record ebpf_config =
  ebpf_enabled :: bool
  ebpf_interface :: string

record config =
  cfg_server :: server_config
  cfg_timing :: timing_config
  cfg_peers :: "peer_config list"
  cfg_ebpf :: ebpf_config

definition default_data_dir :: string where "default_data_dir = ''/var/lib/raft''"
definition default_log_level :: string where "default_log_level = ''info''"
definition default_heartbeat_interval :: u64 where "default_heartbeat_interval = 50"
definition default_election_timeout_min :: u64 where "default_election_timeout_min = 150"
definition default_election_timeout_max :: u64 where "default_election_timeout_max = 300"
definition default_rpc_timeout :: u64 where "default_rpc_timeout = 1000"
definition default_ebpf_enabled :: bool where "default_ebpf_enabled = True"
definition default_interface :: string where "default_interface = ''eth0''"

definition default_timing :: timing_config where
  "default_timing =
     \<lparr>heartbeat_interval_ms = default_heartbeat_interval,
      election_timeout_min_ms = default_election_timeout_min,
      election_timeout_max_ms = default_election_timeout_max,
      rpc_timeout_ms = default_rpc_timeout\<rparr>"

definition default_ebpf :: ebpf_config where
  "default_ebpf = \<lparr>ebpf_enabled = default_ebpf_enabled, ebpf_interface = default_interface\<rparr>"

section \<open>Documents\<close>

record server_doc =
  doc_node_id :: "string option"
  doc_listen_addr :: "string option"
  doc_data_dir :: "string option"
  doc_log_level :: "string option"

record timing_doc =
  doc_heartbeat :: "u64 option"
  doc_timeout_min :: "u64 option"
  doc_timeout_max :: "u64 option"
  doc_rpc_timeout :: "u64 option"

record peer_doc =
  doc_peer_id :: "string option"
  doc_peer_address :: "string option"

record ebpf_doc =
  doc_enabled :: "bool option"
  doc_interface :: "string option"

record config_doc =
  doc_server :: "server_doc option"
  doc_timing :: "timing_doc option"
  doc_peers :: "peer_doc list option"
  doc_ebpf :: "ebpf_doc option"

definition default_or :: "'a \<Rightarrow> 'a option \<Rightarrow> 'a" where
  "default_or d x = (case x of None \<Rightarrow> d | Some y \<Rightarrow> y)"

definition server_of_doc :: "server_doc \<Rightarrow> server_config option" where
  "server_of_doc d =
     Option.bind (doc_node_id d) (\<lambda>n. Option.bind (doc_listen_addr d) (\<lambda>a.
     Some \<lparr>cfg_node_id = n, cfg_listen_addr = a,
           cfg_data_dir = default_or default_data_dir (doc_data_dir d),
           cfg_log_level = default_or default_log_level (doc_log_level d)\<rparr>))"

definition timing_of_doc :: "timing_doc \<Rightarrow> timing_config" where
  "timing_of_doc d =
     \<lparr>heartbeat_interval_ms = default_or default_heartbeat_interval (doc_heartbeat d),
      election_timeout_min_ms = default_or default_election_timeout_min (doc_timeout_min d),
      election_timeout_max_ms = default_or default_election_timeout_max (doc_timeout_max d),
      rpc_timeout_ms = default_or default_rpc_timeout (doc_rpc_timeout d)\<rparr>"

definition peer_of_doc :: "peer_doc \<Rightarrow> peer_config option" where
  "peer_of_doc d =
     Option.bind (doc_peer_id d) (\<lambda>i. Option.bind (doc_peer_address d) (\<lambda>a.
     Some \<lparr>pc_id = i, pc_address = a\<rparr>))"

fun peers_of_docs :: "peer_doc list \<Rightarrow> peer_config list option" where
  "peers_of_docs [] = Some []"
| "peers_of_docs (d # ds) =
     Option.bind (peer_of_doc d) (\<lambda>p. Option.bind (peers_of_docs ds) (\<lambda>ps. Some (p # ps)))"

definition ebpf_of_doc :: "ebpf_doc \<Rightarrow> ebpf_config" where
  "ebpf_of_doc d =
     \<lparr>ebpf_enabled = default_or default_ebpf_enabled (doc_enabled d),
      ebpf_interface = default_or default_interface (doc_interface d)\<rparr>"

definition config_of_doc :: "config_doc \<Rightarrow> config option" where
  "config_of_doc d =
     Option.bind (doc_server d) (\<lambda>sd. Option.bind (server_of_doc sd) (\<lambda>s.
     Option.bind (peers_of_docs (default_or [] (doc_peers d))) (\<lambda>ps.
     Some \<lparr>cfg_server = s,
           cfg_timing = (case doc_timing d of None \<Rightarrow> default_timing | Some t \<Rightarrow> timing_of_doc t),
           cfg_peers = ps,
           cfg_ebpf = (case doc_ebpf d of None \<Rightarrow> default_ebpf | Some e \<Rightarrow> ebpf_of_doc e)\<rparr>)))"

text \<open>
  \<open>Config::load\<close>: reading the file may fail, and so may the TOML syntax or a missing field.  Nothing
  else is checked.
\<close>

definition load_config ::
    "(string \<Rightarrow> config_doc option) \<Rightarrow> (string \<Rightarrow> string option) \<Rightarrow> string \<Rightarrow> config option" where
  "load_config parse_toml read_file path =
     Option.bind (read_file path) (\<lambda>content. Option.bind (parse_toml content) config_of_doc)"

definition default_for_testing :: "string \<Rightarrow> u16 \<Rightarrow> config" where
  "default_for_testing n port =
     \<lparr>cfg_server = \<lparr>cfg_node_id = n, cfg_listen_addr = ''127.0.0.1:'' @ dec (unat port),
                     cfg_data_dir = ''/tmp/raft-'' @ n, cfg_log_level = ''debug''\<rparr>,
      cfg_timing = default_timing,
      cfg_peers = [],
      cfg_ebpf = \<lparr>ebpf_enabled = False, ebpf_interface = ''lo''\<rparr>\<rparr>"

end
