(* ===== verification/Node.thy ===== *)
theory Node
  imports Raft_Log State_Machine Config
begin

text \<open>
  The Raft node of \<open>raft/src/node.rs\<close>: its state, and one operation per method, in the order of the
  source.  A handler runs as one operation from its first to its last \<open>await\<close>.  The mutex around the
  log is modelled (\<open>log_locked\<close>), because tokio's mutex is not reentrant: \<open>lock_log\<close> while the lock
  is held is \<open>Hang\<close>, and \<open>scope\<close> drops the guards a function still owns when it returns or leaves
  through \<open>?\<close>.  The other locks of the node are never held across a call that takes them again in
  the same task, so a run of one handler does not need them (their order between tasks is the
  subject of \<open>Locks\<close>).

  \<open>outgoing\<close> is the channel to the network task and \<open>replies\<close> are the values sent to clients; a
  client's channel is a number.  \<open>clock\<close> is what \<open>Instant::now()\<close> reads.
\<close>

datatype propose_result =
    Success u64
  | NotLeader "string option"
  | Failed string

record node_status =
  st_node_id :: string
  st_role :: node_role
  st_current_term :: u64
  st_commit_index :: u64
  st_last_applied :: u64
  st_leader_id :: "string option"
  st_peers :: "string list"

record node =
  node_id :: string
  config :: config
  role :: node_role
  log :: raft_log
  machine :: state_machine
  commit_index :: u64
  last_applied :: u64
  leader_id :: "string option"
  peers :: "(string, peer_info) hmap"
  next_index :: "(string, u64) hmap"
  match_index :: "(string, u64) hmap"
  votes_received :: "string list"
  last_heartbeat :: nat
  outgoing :: "message_envelope list"
  pending_requests :: "(u64, nat) hmap"
  log_locked :: bool
  clock :: nat
  replies :: "(nat \<times> propose_result) list"

type_synonym 'a node_op = "(node, 'a) op"

abbreviation node_term :: "node \<Rightarrow> u64" where
  "node_term s \<equiv> log_current_term (log s)"

section \<open>The log mutex\<close>

definition lock_log :: "unit node_op" where
  "lock_log s = (if log_locked s then (Hang, s) else (Ret (), s\<lparr>log_locked := True\<rparr>))"

definition drop_log :: "unit node_op" where
  "drop_log = modify (\<lambda>s. s\<lparr>log_locked := False\<rparr>)"

definition scope :: "'a node_op \<Rightarrow> 'a node_op" where
  "scope m s = (case m s of
       (Hang, s') \<Rightarrow> (Hang, s')
     | (r, s') \<Rightarrow> (r, s'\<lparr>log_locked := log_locked s\<rparr>))"

abbreviation on_log :: "(raft_log, 'a) op \<Rightarrow> 'a node_op" where
  "on_log \<equiv> zoom log (\<lambda>l. log_update (\<lambda>_. l))"

section \<open>Construction\<close>

definition initial_peers :: "'e heapless_scheme \<Rightarrow> config \<Rightarrow> (string, peer_info) hmap" where
  "initial_peers E c =
     fold (\<lambda>p. hm_insert (pc_id p) (new_peer_info E (pc_id p) (pc_address p))) (cfg_peers c) []"

definition new_node :: "'e serde_scheme \<Rightarrow> config \<Rightarrow> data_dir \<Rightarrow> nat \<Rightarrow> err + node" where
  "new_node E c d now = (case new_raft_log E d of
       (Ret _, l) \<Rightarrow> Inr
         \<lparr>node_id = cfg_node_id (cfg_server c), config = c, role = Follower, log = l,
          machine = new_state_machine, commit_index = 0, last_applied = 0, leader_id = None,
          peers = initial_peers E c, next_index = [], match_index = [], votes_received = [],
          last_heartbeat = now, outgoing = [], pending_requests = [], log_locked = False,
          clock = now, replies = []\<rparr>
     | (Fail e, _) \<Rightarrow> Inl e
     | (Hang, _) \<Rightarrow> Inl IoError)"

section \<open>Sending\<close>

definition send_envelope :: "message_envelope \<Rightarrow> unit node_op" where
  "send_envelope env = modify (\<lambda>s. s\<lparr>outgoing := outgoing s @ [env]\<rparr>)"

definition send_append_entries_response ::
    "'e serde_scheme \<Rightarrow> string \<Rightarrow> u64 \<Rightarrow> bool \<Rightarrow> unit node_op" where
  "send_append_entries_response E to t ok = scope (
     seq lock_log (
     bind (gets (\<lambda>s. new_envelope E (node_id s) to (AppendEntriesResponse
             \<lparr>aer_term = t, success = ok, aer_last_log_index = last_index (log s),
              aer_node_id = push_str E 64 (node_id s)\<rparr>)))
     send_envelope))"

definition send_request_vote_response ::
    "'e serde_scheme \<Rightarrow> string \<Rightarrow> u64 \<Rightarrow> bool \<Rightarrow> unit node_op" where
  "send_request_vote_response E to t granted =
     bind (gets (\<lambda>s. new_envelope E (node_id s) to (RequestVoteResponse
             \<lparr>rvr_term = t, vote_granted = granted, rvr_node_id = push_str E 64 (node_id s)\<rparr>)))
     send_envelope"

definition append_entries_for :: "'e serde_scheme \<Rightarrow> node \<Rightarrow> string \<Rightarrow> append_entries_request" where
  "append_entries_for E s p =
     (let next_idx = default_or 1 (hm_get (next_index s) p);
          prev = saturating_sub next_idx 1
      in \<lparr>ae_term = node_term s,
          ae_leader_id = push_str E 64 (node_id s),
          prev_log_index = prev,
          prev_log_term = default_or 0 (term_at (log s) prev),
          ae_entries = take 64 (get_entries (log s) next_idx (last_index (log s))),
          leader_commit = commit_index s\<rparr>)"

definition send_heartbeats :: "'e serde_scheme \<Rightarrow> unit node_op" where
  "send_heartbeats E = scope (
     bind (gets role) (\<lambda>r.
     if r \<noteq> Leader then ret ()
     else seq lock_log (
       bind (gets (\<lambda>s. hm_keys (peers s))) (\<lambda>ps.
       for_each ps (\<lambda>p.
         bind (gets (\<lambda>s. new_envelope E (node_id s) p (AppendEntries (append_entries_for E s p))))
         send_envelope)))))"

section \<open>Applying and committing\<close>

function apply_loop ::
    "(u64 \<rightharpoonup> log_entry) \<Rightarrow> u64 \<Rightarrow> u64 \<Rightarrow> state_machine \<Rightarrow> u64 \<times> state_machine" where
  "apply_loop m commit la sm =
     (if la < commit then
        let la' = la + 1 in
        apply_loop m commit la' (case m la' of None \<Rightarrow> sm | Some e \<Rightarrow> sm_step e sm)
      else (la, sm))"
  by pat_completeness auto
termination
proof (relation "measure (\<lambda>(m, commit, la, sm). unat commit - unat la)")
  show "wf (measure (\<lambda>(m, commit, la, sm). unat commit - unat la))" by simp
next
  fix m :: "u64 \<rightharpoonup> log_entry" and commit la la' :: u64 and sm
  assume "la < commit" "la' = la + 1"
  then show "((m, commit, la', case m la' of None \<Rightarrow> sm | Some e \<Rightarrow> sm_step e sm), m, commit, la, sm)
      \<in> measure (\<lambda>(m, commit, la, sm). unat commit - unat la)"
    by (simp add: unat_plus_one_less word_less_nat_alt)
qed

declare apply_loop.simps [simp del]

definition apply_committed_entries :: "unit node_op" where
  "apply_committed_entries = scope (
     bind (gets commit_index) (\<lambda>c.
     seq lock_log (
     modify (\<lambda>s. case apply_loop (get_entry (log s)) c (last_applied s) (machine s) of
       (la, sm) \<Rightarrow> s\<lparr>last_applied := la, machine := sm\<rparr>))))"

definition notify_pending_requests :: "u64 \<Rightarrow> unit node_op" where
  "notify_pending_requests up_to =
     bind (gets (\<lambda>s. filter (\<lambda>i. i \<le> up_to) (hm_keys (pending_requests s)))) (\<lambda>indices.
     for_each indices (\<lambda>i. modify (\<lambda>s. case hm_get (pending_requests s) i of
         None \<Rightarrow> s
       | Some tx \<Rightarrow> s\<lparr>pending_requests := hm_remove i (pending_requests s),
                      replies := replies s @ [(tx, Success i)]\<rparr>)))"

text \<open>The acknowledgements an index has, the leader's own included, and the majority it needs.\<close>

definition ack_count :: "node \<Rightarrow> u64 \<Rightarrow> nat" where
  "ack_count s n = 1 + length (filter (\<lambda>(p, i). n \<le> i) (match_index s))"

definition majority :: "node \<Rightarrow> nat" where
  "majority s = (length (hm_keys (peers s)) + 1) div 2 + 1"

definition commit_candidate :: "node \<Rightarrow> u64 option" where
  "commit_candidate s =
     find (\<lambda>n. term_at (log s) n = Some (node_term s) \<and> majority s \<le> ack_count s n)
       (rev (range_incl (commit_index s + 1) (last_index (log s))))"

definition try_advance_commit_index :: "unit node_op" where
  "try_advance_commit_index = scope (
     bind (gets role) (\<lambda>r.
     if r \<noteq> Leader then ret ()
     else seq lock_log (
       bind (gets commit_candidate) (\<lambda>c. case c of
         None \<Rightarrow> ret ()
       | Some n \<Rightarrow>
           seq drop_log (
           seq (modify (\<lambda>s. s\<lparr>commit_index := n\<rparr>)) (
           seq apply_committed_entries
           (notify_pending_requests n)))))))"

section \<open>Elections\<close>

definition become_leader :: "'e serde_scheme \<Rightarrow> unit node_op" where
  "become_leader E = scope (
     seq (modify (\<lambda>s. s\<lparr>role := Leader, leader_id := Some (node_id s)\<rparr>)) (
     seq lock_log (
     bind (gets (\<lambda>s. last_index (log s))) (\<lambda>last.
     seq drop_log (
     seq (modify (\<lambda>s. s\<lparr>
            next_index := fold (\<lambda>p. hm_insert p (last + 1)) (hm_keys (peers s)) (next_index s),
            match_index := fold (\<lambda>p. hm_insert p 0) (hm_keys (peers s)) (match_index s)\<rparr>))
     (send_heartbeats E))))))"

definition vote_request :: "'e serde_scheme \<Rightarrow> node \<Rightarrow> u64 \<Rightarrow> request_vote_request" where
  "vote_request E s t =
     \<lparr>rv_term = t, candidate_id = push_str E 64 (node_id s),
      rv_last_log_index = last_index (log s), rv_last_log_term = last_term (log s)\<rparr>"

definition start_election :: "'e serde_scheme \<Rightarrow> unit node_op" where
  "start_election E = scope (
     seq lock_log (
     bind (gets (\<lambda>s. node_term s + 1)) (\<lambda>new_term.
     seq (on_log (set_current_term E new_term)) (
     bind (gets node_id) (\<lambda>me.
     seq (on_log (set_voted_for E (Some me))) (
     seq (modify (\<lambda>s. s\<lparr>role := Candidate, votes_received := [node_id s], last_heartbeat := clock s\<rparr>)) (
     bind (gets (\<lambda>s. vote_request E s new_term)) (\<lambda>request.
     bind (gets (\<lambda>s. hm_keys (peers s))) (\<lambda>ps.
     seq (for_each ps (\<lambda>p.
            bind (gets (\<lambda>s. new_envelope E (node_id s) p (RequestVote request))) send_envelope)) (
     if ps = [] then seq drop_log (become_leader E) else ret ()))))))))))"

definition handle_request_vote :: "'e serde_scheme \<Rightarrow> string \<Rightarrow> request_vote_request \<Rightarrow> unit node_op" where
  "handle_request_vote E from req = scope (
     seq lock_log (
     bind (gets node_term) (\<lambda>current_term.
     if rv_term req < current_term then send_request_vote_response E from current_term False
     else
     seq (when_op (current_term < rv_term req)
            (seq (on_log (set_current_term E (rv_term req))) (modify (\<lambda>s. s\<lparr>role := Follower\<rparr>)))) (
     bind (gets (\<lambda>s. log_voted_for (log s))) (\<lambda>voted_for.
     bind (gets (\<lambda>s. last_term (log s))) (\<lambda>last_term.
     bind (gets (\<lambda>s. last_index (log s))) (\<lambda>last_index.
     let can_vote = voted_for = None \<or> voted_for = Some (candidate_id req);
         log_ok = last_term < rv_last_log_term req \<or>
                  (rv_last_log_term req = last_term \<and> last_index \<le> rv_last_log_index req)
     in if can_vote \<and> log_ok then
          seq (on_log (set_voted_for E (Some (candidate_id req)))) (
          seq (modify (\<lambda>s. s\<lparr>last_heartbeat := clock s\<rparr>)) (
          bind (gets node_term) (\<lambda>t. send_request_vote_response E from t True)))
        else
          bind (gets node_term) (\<lambda>t. send_request_vote_response E from t False))))))))"

definition handle_request_vote_response ::
    "'e serde_scheme \<Rightarrow> string \<Rightarrow> request_vote_response \<Rightarrow> unit node_op" where
  "handle_request_vote_response E from resp = scope (
     seq lock_log (
     bind (gets role) (\<lambda>r.
     if r \<noteq> Candidate then ret ()
     else bind (gets node_term) (\<lambda>current_term.
     if current_term < rvr_term resp then
       seq drop_log (
       seq lock_log (
       seq (on_log (set_current_term E (rvr_term resp)))
       (modify (\<lambda>s. s\<lparr>role := Follower\<rparr>))))
     else if vote_granted resp then
       seq (modify (\<lambda>s. if from \<in> set (votes_received s) then s
                        else s\<lparr>votes_received := votes_received s @ [from]\<rparr>)) (
       bind (gets (\<lambda>s. majority s \<le> length (votes_received s) + 1)) (\<lambda>won.
       if won then seq drop_log (become_leader E) else ret ()))
     else ret ()))))"

section \<open>Replication\<close>

definition first_conflict :: "raft_log \<Rightarrow> log_entry list \<Rightarrow> log_entry option" where
  "first_conflict l es =
     find (\<lambda>e. case term_at l (index e) of None \<Rightarrow> False | Some t \<Rightarrow> t \<noteq> entry_term e) es"

definition delete_conflicting :: "'e serde_scheme \<Rightarrow> log_entry list \<Rightarrow> (raft_log, unit) op" where
  "delete_conflicting E es =
     bind (gets (\<lambda>l. first_conflict l es)) (\<lambda>c. case c of
       None \<Rightarrow> ret ()
     | Some e \<Rightarrow> truncate_from E (index e))"

definition update_commit :: "u64 \<Rightarrow> node \<Rightarrow> node" where
  "update_commit lc s =
     (if commit_index s < lc then s\<lparr>commit_index := min lc (last_index (log s))\<rparr> else s)"

definition handle_append_entries :: "'e serde_scheme \<Rightarrow> string \<Rightarrow> append_entries_request \<Rightarrow> unit node_op" where
  "handle_append_entries E from req = scope (
     seq lock_log (
     bind (gets node_term) (\<lambda>current_term.
     if ae_term req < current_term then send_append_entries_response E from current_term False
     else
     seq (when_op (current_term < ae_term req)
            (seq (on_log (set_current_term E (ae_term req))) (modify (\<lambda>s. s\<lparr>role := Follower\<rparr>)))) (
     seq (modify (\<lambda>s. s\<lparr>last_heartbeat := clock s, leader_id := Some (ae_leader_id req)\<rparr>)) (
     bind (gets (\<lambda>s. has_entry (log s) (prev_log_index req) (prev_log_term req))) (\<lambda>consistent.
     if 0 < prev_log_index req \<and> \<not> consistent then
       bind (gets node_term) (\<lambda>t. send_append_entries_response E from t False)
     else
     seq (when_op (ae_entries req \<noteq> [])
            (seq (on_log (delete_conflicting E (ae_entries req)))
                 (on_log (append_entries E (ae_entries req))))) (
     seq (modify (update_commit (leader_commit req))) (
     seq drop_log (
     seq apply_committed_entries
     (send_append_entries_response E from current_term True))))))))))"

definition handle_append_entries_response ::
    "'e serde_scheme \<Rightarrow> string \<Rightarrow> append_entries_response \<Rightarrow> unit node_op" where
  "handle_append_entries_response E from resp = scope (
     seq lock_log (
     bind (gets role) (\<lambda>r.
     if r \<noteq> Leader then ret ()
     else bind (gets node_term) (\<lambda>current_term.
     if current_term < aer_term resp then
       seq drop_log (
       seq lock_log (
       seq (on_log (set_current_term E (aer_term resp)))
       (modify (\<lambda>s. s\<lparr>role := Follower\<rparr>))))
     else if success resp then
       seq (modify (\<lambda>s. s\<lparr>match_index := hm_insert from (aer_last_log_index resp) (match_index s),
                         next_index := hm_insert from (aer_last_log_index resp + 1) (next_index s)\<rparr>)) (
       seq drop_log
       try_advance_commit_index)
     else
       modify (\<lambda>s. case hm_get (next_index s) from of
           None \<Rightarrow> s
         | Some i \<Rightarrow> s\<lparr>next_index := hm_insert from (max (saturating_sub i 1) 1) (next_index s)\<rparr>)))))"

definition handle_message :: "'e serde_scheme \<Rightarrow> message_envelope \<Rightarrow> unit node_op" where
  "handle_message E env = (case message env of
       AppendEntries req \<Rightarrow> handle_append_entries E (env_from env) req
     | AppendEntriesResponse resp \<Rightarrow> handle_append_entries_response E (env_from env) resp
     | RequestVote req \<Rightarrow> handle_request_vote E (env_from env) req
     | RequestVoteResponse resp \<Rightarrow> handle_request_vote_response E (env_from env) resp
     | ClientRequest _ \<Rightarrow> ret ()
     | ClientResponse _ \<Rightarrow> ret ())"

section \<open>Clients and membership\<close>

definition reply_to :: "nat \<Rightarrow> propose_result \<Rightarrow> unit node_op" where
  "reply_to tx r = modify (\<lambda>s. s\<lparr>replies := replies s @ [(tx, r)]\<rparr>)"

definition propose :: "'e serde_scheme \<Rightarrow> command \<Rightarrow> nat \<Rightarrow> unit node_op" where
  "propose E c tx = scope (
     bind (gets role) (\<lambda>r.
     if r \<noteq> Leader then bind (gets leader_id) (\<lambda>l. reply_to tx (NotLeader l))
     else
     seq lock_log (
     bind (gets node_term) (\<lambda>t.
     bind (on_log (log_append E t c)) (\<lambda>i.
     seq drop_log (
     seq (modify (\<lambda>s. s\<lparr>pending_requests := hm_insert i tx (pending_requests s)\<rparr>))
     (send_heartbeats E)))))))"

definition add_peer :: "'e serde_scheme \<Rightarrow> string \<Rightarrow> string \<Rightarrow> unit node_op" where
  "add_peer E i address = scope (
     seq (modify (\<lambda>s. s\<lparr>peers := hm_insert i (new_peer_info E i address) (peers s)\<rparr>)) (
     bind (gets role) (\<lambda>r.
     when_op (r = Leader) (
       seq lock_log (
       modify (\<lambda>s. s\<lparr>next_index := hm_insert i (last_index (log s) + 1) (next_index s),
                     match_index := hm_insert i 0 (match_index s)\<rparr>))))))"

definition remove_peer :: "string \<Rightarrow> unit node_op" where
  "remove_peer i = modify (\<lambda>s. s\<lparr>peers := hm_remove i (peers s),
                                next_index := hm_remove i (next_index s),
                                match_index := hm_remove i (match_index s)\<rparr>)"

definition get_status :: "node_status node_op" where
  "get_status = scope (
     seq lock_log (
     gets (\<lambda>s. \<lparr>st_node_id = node_id s, st_role = role s, st_current_term = node_term s,
                st_commit_index = commit_index s, st_last_applied = last_applied s,
                st_leader_id = leader_id s, st_peers = hm_keys (peers s)\<rparr>)))"

definition time_since_heartbeat :: "node \<Rightarrow> nat" where
  "time_since_heartbeat s = clock s - last_heartbeat s"

text \<open>
  \<open>gen_range(min..=max)\<close> of the \<open>rand\<close> crate is a parameter; its documentation says that it panics on
  an empty range, which is \<open>None\<close> here.
\<close>

definition election_timeout :: "(u64 \<Rightarrow> u64 \<Rightarrow> u64) \<Rightarrow> config \<Rightarrow> u64 option" where
  "election_timeout gen_range c =
     (let lo = election_timeout_min_ms (cfg_timing c); hi = election_timeout_max_ms (cfg_timing c)
      in if hi < lo then None else Some (gen_range lo hi))"

definition heartbeat_interval :: "config \<Rightarrow> u64" where
  "heartbeat_interval c = heartbeat_interval_ms (cfg_timing c)"

definition get_value :: "string \<Rightarrow> node \<Rightarrow> u8 list option" where
  "get_value k s = sm_get (machine s) k"

definition get_messages :: "(u8 list \<Rightarrow> 'j option) \<Rightarrow> u64 \<Rightarrow> u64 \<Rightarrow> node \<Rightarrow> 'j list" where
  "get_messages parse limit since_index s = sm_get_messages parse (machine s) limit"

section \<open>Timers\<close>

text \<open>
  The two timer tasks of \<open>raft/src/main.rs\<close>, one iteration each: after sleeping for \<open>timeout\<close> the
  election task starts an election if no heartbeat came in that time; the heartbeat task sends when
  the node is leader.
\<close>

definition election_tick :: "'e serde_scheme \<Rightarrow> nat \<Rightarrow> unit node_op" where
  "election_tick E timeout =
     bind (gets role) (\<lambda>r.
     if r = Follower \<or> r = Candidate then
       bind (gets time_since_heartbeat) (\<lambda>since.
       if timeout \<le> since then start_election E else ret ())
     else ret ())"

definition heartbeat_tick :: "'e serde_scheme \<Rightarrow> unit node_op" where
  "heartbeat_tick E =
     bind (gets role) (\<lambda>r. if r = Leader then send_heartbeats E else ret ())"

end
