(* ===== verification/Raft_Log_Facts.thy ===== *)
theory Raft_Log_Facts
  imports Raft_Log
begin

text \<open>
  What the persistent log promises.  \<open>log_wf\<close>: an entry is stored under its own index and the
  indices are exactly \<open>1..last_index\<close>.  \<open>synced\<close>: the files hold what memory holds, so that
  \<open>RaftLog::new\<close> on the directory gives the same log back.  The interface \<open>durable_store\<close> says
  what the node relies on; the log's operations provide it.
\<close>

section \<open>Round trips\<close>

lemma disk_roundtrip:
  assumes "heapless_ok E" "entry_ok e"
  shows "disk_entry_to_log_entry E (entry_to_disk e) = e"
  using assms
  by (cases "command e")
    (auto simp: disk_entry_to_log_entry_def entry_to_disk_def entry_ok_def MAX_KEY_SIZE_def
      MAX_VALUE_SIZE_def push_str_fits push_bytes_take)

lemma lines_from_line:
  "LF \<notin> set l \<Longrightarrow> lines_from acc (l @ LF # rest) = strip_cr (acc @ l) # lines_from [] rest"
  by (induction l arbitrary: acc) auto

lemma strip_cr_id: "CR \<notin> set l \<Longrightarrow> strip_cr l = l"
  by (cases l rule: rev_cases) (auto simp: strip_cr_def)

lemma lines_of_concat:
  assumes "\<forall>l \<in> set ls. LF \<notin> set l \<and> CR \<notin> set l"
  shows "lines_of (concat (map (\<lambda>l. l @ [LF]) ls)) = ls"
  using assms
proof (induction ls)
  case Nil
  then show ?case by (simp add: lines_of_def)
next
  case (Cons l ls)
  then show ?case
    by (simp add: lines_of_def lines_from_line strip_cr_id)
qed

definition json_of :: "'e serde_scheme \<Rightarrow> log_entry \<Rightarrow> string" where
  "json_of E e = the (entry_to_json E (entry_to_disk e))"

definition disk_text :: "'e serde_scheme \<Rightarrow> log_entry list \<Rightarrow> string" where
  "disk_text E es = concat (map (\<lambda>e. json_of E e @ [LF]) es)"

lemma disk_text_append [simp]: "disk_text E (es @ es') = disk_text E es @ disk_text E es'"
  by (simp add: disk_text_def)

lemma disk_text_simps [simp]:
  "disk_text E [] = []" "disk_text E (e # es) = json_of E e @ LF # disk_text E es"
  by (simp_all add: disk_text_def)

lemma json_of:
  assumes "serde_ok E"
  shows "entry_to_json E (entry_to_disk e) = Some (json_of E e)"
    and "entry_from_json E (json_of E e) = Some (entry_to_disk e)"
    and "json_of E e \<noteq> []" and "LF \<notin> set (json_of E e)" and "CR \<notin> set (json_of E e)"
proof -
  from assms obtain j where "entry_to_json E (entry_to_disk e) = Some j"
    "entry_from_json E j = Some (entry_to_disk e)" "j \<noteq> []" "LF \<notin> set j" "CR \<notin> set j"
    unfolding serde_ok_def by blast
  then show "entry_to_json E (entry_to_disk e) = Some (json_of E e)"
    and "entry_from_json E (json_of E e) = Some (entry_to_disk e)"
    and "json_of E e \<noteq> []" and "LF \<notin> set (json_of E e)" and "CR \<notin> set (json_of E e)"
    by (simp_all add: json_of_def)
qed

lemma lines_of_disk_text: "serde_ok E \<Longrightarrow> lines_of (disk_text E es) = map (json_of E) es"
proof -
  assume "serde_ok E"
  then have "\<forall>l \<in> set (map (json_of E) es). LF \<notin> set l \<and> CR \<notin> set l"
    by (auto dest: json_of(4) json_of(5))
  from lines_of_concat [OF this] show ?thesis by (simp add: disk_text_def comp_def)
qed

section \<open>Well-formed logs\<close>

definition log_wf :: "raft_log \<Rightarrow> bool" where
  "log_wf l \<longleftrightarrow> (\<forall>i e. entries l i = Some e \<longrightarrow> index e = i) \<and>
                dom (entries l) = {i. 0 < i \<and> i \<le> last_index l}"

lemma log_wf_index: "log_wf l \<Longrightarrow> entries l i = Some e \<Longrightarrow> index e = i"
  by (simp add: log_wf_def)

lemma log_wf_entry: "log_wf l \<Longrightarrow> 0 < i \<Longrightarrow> i \<le> last_index l \<Longrightarrow> \<exists>e. entries l i = Some e"
  unfolding log_wf_def by (metis (mono_tags, lifting) domD mem_Collect_eq)

lemma log_wf_None: "log_wf l \<Longrightarrow> i = 0 \<or> last_index l < i \<Longrightarrow> entries l i = None"
  unfolding log_wf_def by (metis (mono_tags, lifting) domIff leD mem_Collect_eq word_gt_0)

lemma log_wf_le: "log_wf l \<Longrightarrow> entries l i = Some e \<Longrightarrow> 0 < i \<and> i \<le> last_index l"
  unfolding log_wf_def by (metis (mono_tags, lifting) domI mem_Collect_eq)

text \<open>Entries that extend a log ending at \<open>b\<close> or overwrite inside it, without a gap.\<close>

fun fits :: "u64 \<Rightarrow> log_entry list \<Rightarrow> bool" where
  "fits b [] \<longleftrightarrow> True"
| "fits b (e # es) \<longleftrightarrow>
     0 < index e \<and> (index e \<le> b \<or> (b \<noteq> - 1 \<and> index e = b + 1)) \<and> fits (max b (index e)) es"

definition mem_insert :: "log_entry \<Rightarrow> raft_log \<Rightarrow> raft_log" where
  "mem_insert e l = l\<lparr>last_index := max (last_index l) (index e), entries := insert_entry e (entries l)\<rparr>"

lemma mem_insert_simps [simp]:
  "last_index (mem_insert e l) = max (last_index l) (index e)"
  "entries (mem_insert e l) = insert_entry e (entries l)"
  "persistent (mem_insert e l) = persistent l"
  "data_dir (mem_insert e l) = data_dir l"
  "log_file (mem_insert e l) = log_file l"
  "mem_insert e (l\<lparr>data_dir := d\<rparr>) = (mem_insert e l)\<lparr>data_dir := d\<rparr>"
  by (simp_all add: mem_insert_def)

lemma fold_mem_insert_frame [simp]:
  "persistent (fold mem_insert es l) = persistent l"
  "data_dir (fold mem_insert es l) = data_dir l"
  "log_file (fold mem_insert es l) = log_file l"
  by (induction es arbitrary: l) simp_all

lemma fold_mem_insert_dir [simp]:
  "fold mem_insert es (l\<lparr>data_dir := d\<rparr>) = (fold mem_insert es l)\<lparr>data_dir := d\<rparr>"
  by (induction es arbitrary: l) simp_all

lemma log_wf_mem_insert:
  assumes "log_wf l" "fits (last_index l) [e]"
  shows "log_wf (mem_insert e l)"
proof -
  have "index e \<le> last_index l \<or> (last_index l \<noteq> - 1 \<and> index e = last_index l + 1)" "0 < index e"
    using assms(2) by auto
  then have "{i. 0 < i \<and> i \<le> max (last_index l) (index e)} = insert (index e) {i. 0 < i \<and> i \<le> last_index l}"
    by (auto simp: le_max_iff_disj order.order_iff_strict less_plus_one_iff)
  with assms(1) show ?thesis
    by (auto simp: log_wf_def insert_entry_def)
qed

lemma log_wf_fold_mem_insert:
  "log_wf l \<Longrightarrow> fits (last_index l) es \<Longrightarrow> log_wf (fold mem_insert es l)"
  by (induction es arbitrary: l) (simp_all add: log_wf_mem_insert)

lemma fold_mem_insert_other:
  "i \<notin> index ` set es \<Longrightarrow> entries (fold mem_insert es l) i = entries l i"
  by (induction es arbitrary: l) (simp_all add: insert_entry_def)

lemma fold_mem_insert_in:
  "i \<in> index ` set es \<Longrightarrow> \<exists>e \<in> set es. entries (fold mem_insert es l) i = Some e \<and> index e = i"
proof (induction es arbitrary: l)
  case Nil
  then show ?case by simp
next
  case (Cons e es)
  show ?case
  proof (cases "i \<in> index ` set es")
    case True
    then show ?thesis using Cons.IH [of "mem_insert e l"] by auto
  next
    case False
    then have "entries (fold mem_insert es (mem_insert e l)) i = entries (mem_insert e l) i"
      by (rule fold_mem_insert_other)
    with False Cons.prems show ?thesis by (auto simp: insert_entry_def)
  qed
qed

definition mem_truncate :: "u64 \<Rightarrow> raft_log \<Rightarrow> raft_log" where
  "mem_truncate b l = l\<lparr>entries := (\<lambda>i. if i < b then entries l i else None),
                        last_index := saturating_sub b 1\<rparr>"

lemma log_wf_mem_truncate:
  assumes "log_wf l" "0 < b" "b \<le> last_index l \<or> (last_index l \<noteq> - 1 \<and> b = last_index l + 1)"
  shows "log_wf (mem_truncate b l)"
proof -
  have "i \<le> saturating_sub b 1 \<longleftrightarrow> i < b" for i
    using assms(2) by (auto simp: word_le_nat_alt word_less_nat_alt unat_saturating_sub)
  moreover have "i < b \<Longrightarrow> i \<le> last_index l" for i
    using assms(3) by (auto simp: less_plus_one_iff)
  moreover have "dom (\<lambda>i. if i < b then entries l i else None) = dom (entries l) \<inter> {i. i < b}"
    by (auto split: if_splits)
  ultimately show ?thesis using assms(1)
    by (auto simp: log_wf_def mem_truncate_def split: if_splits)
qed

section \<open>Operations when every system call works\<close>

definition quiet :: "raft_log \<Rightarrow> bool" where
  "quiet l \<longleftrightarrow> faults (data_dir l) = []"

lemma quiet_simps [simp]:
  "quiet (l\<lparr>entries := m\<rparr>) = quiet l" "quiet (l\<lparr>persistent := p\<rparr>) = quiet l"
  "quiet (l\<lparr>last_index := i\<rparr>) = quiet l" "quiet (l\<lparr>log_file := h\<rparr>) = quiet l"
  "quiet (mem_insert e l) = quiet l" "quiet (mem_truncate b l) = quiet l"
  "quiet (l\<lparr>data_dir := (data_dir l)\<lparr>log_jsonl := x\<rparr>\<rparr>) = quiet l"
  "quiet (l\<lparr>data_dir := (data_dir l)\<lparr>log_tmp := x\<rparr>\<rparr>) = quiet l"
  "quiet (l\<lparr>data_dir := (data_dir l)\<lparr>state_json := x\<rparr>\<rparr>) = quiet l"
  by (simp_all add: quiet_def mem_insert_def mem_truncate_def)

lemma quiet_fold_mem_insert [simp]: "quiet (fold mem_insert es l) = quiet l"
  by (simp add: quiet_def)

lemma io_call_quiet: "faults d = [] \<Longrightarrow> io_call f d = (Ret (), f d)"
  by (simp add: io_call_def take_fault_def run_simps)

lemma io_write_quiet: "faults d = [] \<Longrightarrow> io_write upd s d = (Ret (), upd s d)"
  by (simp add: io_write_def take_fault_def run_simps)

lemma on_dir_call_quiet:
  "quiet l \<Longrightarrow> on_dir (io_call f) l = (Ret (), l\<lparr>data_dir := f (data_dir l)\<rparr>)"
  by (simp add: quiet_def zoom_def io_call_quiet)

lemma on_dir_write_quiet:
  "quiet l \<Longrightarrow> on_dir (io_write upd s) l = (Ret (), l\<lparr>data_dir := upd s (data_dir l)\<rparr>)"
  by (simp add: quiet_def zoom_def io_write_quiet)

lemma save_state_quiet:
  assumes "quiet l" "serde_ok E" "state_ok (persistent l)"
  obtains j where "state_to_json E (persistent l) = Some j"
    "state_from_json E j = Some (persistent l)"
    "save_state E l = (Ret (), l\<lparr>data_dir := (data_dir l)\<lparr>state_json := Some j\<rparr>\<rparr>)"
proof -
  from assms(2,3) obtain j where j: "state_to_json E (persistent l) = Some j"
      "state_from_json E j = Some (persistent l)"
    unfolding serde_ok_def by blast
  then have "save_state E l = (Ret (), l\<lparr>data_dir := (data_dir l)\<lparr>state_json := Some j\<rparr>\<rparr>)"
    using on_dir_write_quiet [OF assms(1), of "\<lambda>s d. d\<lparr>state_json := Some s\<rparr>" j]
    by (simp add: save_state_def run_simps)
  with j show ?thesis using that by blast
qed

lemma write_line_quiet:
  assumes "quiet l" "serde_ok E" "log_file l = LogFile"
  shows "write_line E e l =
    (Ret (), l\<lparr>data_dir := (data_dir l)\<lparr>log_jsonl := append_text (log_jsonl (data_dir l)) (json_of E e @ [LF])\<rparr>\<rparr>)"
  using on_dir_write_quiet [OF assms(1)] assms(3)
  by (simp add: write_line_def bind_def gets_def from_json_def ret_def json_of [OF assms(2)])

lemma flush_log_quiet: "quiet l \<Longrightarrow> flush_log l = (Ret (), l)"
  by (simp add: flush_log_def bind_def gets_def ret_def on_dir_call_quiet)

lemma append_text_append: "append_text (append_text c s) t = append_text c (s @ t)"
  by (simp add: append_text_def split: option.splits)

definition put_lines :: "'e serde_scheme \<Rightarrow> log_entry list \<Rightarrow> raft_log \<Rightarrow> raft_log" where
  "put_lines E es l =
     l\<lparr>data_dir := (data_dir l)\<lparr>log_jsonl := append_text (log_jsonl (data_dir l)) (disk_text E es)\<rparr>\<rparr>"

lemma put_lines_simps [simp]:
  "entries (put_lines E es l) = entries l" "last_index (put_lines E es l) = last_index l"
  "persistent (put_lines E es l) = persistent l" "log_file (put_lines E es l) = log_file l"
  "quiet (put_lines E es l) = quiet l"
  "log_jsonl (data_dir (put_lines E es l)) = append_text (log_jsonl (data_dir l)) (disk_text E es)"
  "state_json (data_dir (put_lines E es l)) = state_json (data_dir l)"
  by (simp_all add: put_lines_def)

definition opened :: "raft_log \<Rightarrow> bool" where
  "opened l \<longleftrightarrow> log_file l = LogFile \<and> log_jsonl (data_dir l) \<noteq> None"

lemma opened_simps [simp]:
  "opened (put_lines E es l) = (log_file l = LogFile)" "opened (mem_insert e l) = opened l"
  by (auto simp: opened_def append_text_def)

lemma opened_LogFile: "opened l \<Longrightarrow> log_file l = LogFile"
  by (simp add: opened_def)

lemma write_line_put:
  "quiet l \<Longrightarrow> serde_ok E \<Longrightarrow> opened l \<Longrightarrow> write_line E e l = (Ret (), put_lines E [e] l)"
  by (simp add: write_line_quiet put_lines_def opened_def)

lemma put_lines_mem_insert: "put_lines E es (mem_insert e l) = mem_insert e (put_lines E es l)"
  by (simp add: put_lines_def)

lemma put_lines_put_lines: "put_lines E es' (put_lines E es l) = put_lines E (es @ es') l"
  by (simp add: put_lines_def append_text_append)

lemma append_entry_quiet:
  "quiet l \<Longrightarrow> serde_ok E \<Longrightarrow> opened l \<Longrightarrow>
   append_entry_from_leader E e l = (Ret (), mem_insert e (put_lines E [e] l))"
  by (simp add: append_entry_from_leader_def bind_def write_line_put modify_def mem_insert_def)

lemma append_each_quiet:
  "quiet l \<Longrightarrow> serde_ok E \<Longrightarrow> opened l \<Longrightarrow>
   for_each es (append_entry_from_leader E) l = (Ret (), fold mem_insert es (put_lines E es l))"
proof (induction es arbitrary: l)
  case Nil
  then show ?case by (auto simp: ret_def put_lines_def append_text_def opened_def)
next
  case (Cons e es)
  then show ?case
    by (simp add: bind_def append_entry_quiet put_lines_mem_insert put_lines_put_lines opened_LogFile)
qed

lemma append_entries_quiet:
  assumes "quiet l" "serde_ok E" "opened l"
  shows "append_entries E es l = (Ret (), fold mem_insert es (put_lines E es l))"
proof -
  have "quiet (fold mem_insert es (put_lines E es l))"
    using assms(1) by (simp add: quiet_def put_lines_def)
  then show ?thesis
    by (simp add: append_entries_def bind_def append_each_quiet [OF assms] flush_log_quiet)
qed

lemma log_append_quiet:
  assumes "quiet l" "serde_ok E" "opened l" "last_index l \<noteq> - 1"
  shows "log_append E t c l =
    (let e = \<lparr>index = last_index l + 1, entry_term = t, command = c\<rparr>
     in (Ret (last_index l + 1), mem_insert e (put_lines E [e] l)))"
proof -
  have "last_index l \<le> last_index l + 1"
    using assms(4) less_plus_one_iff [of "last_index l" "last_index l"] by simp
  then show ?thesis
    using assms
    by (simp add: log_append_def Let_def bind_def gets_def ret_def modify_def write_line_put flush_log_quiet
        mem_insert_def max_absorb2)
qed

text \<open>Truncation: the temporary file receives the kept entries in order and replaces the log.\<close>

lemma write_temp_quiet:
  assumes "quiet l" "serde_ok E"
  shows "write_temp E i l = (Ret (), case entries l i of
      None \<Rightarrow> l
    | Some e \<Rightarrow> l\<lparr>data_dir := (data_dir l)\<lparr>log_tmp := append_text (log_tmp (data_dir l)) (disk_text E [e])\<rparr>\<rparr>)"
  using on_dir_write_quiet [OF assms(1)]
  by (simp add: write_temp_def bind_def gets_def from_json_def ret_def json_of [OF assms(2)]
      split: option.splits)

lemma write_temps_quiet:
  assumes "serde_ok E"
  shows "quiet l \<Longrightarrow> log_tmp (data_dir l) = Some t \<Longrightarrow>
    for_each is (write_temp E) l =
      (Ret (), l\<lparr>data_dir := (data_dir l)\<lparr>log_tmp := Some (t @ disk_text E (List.map_filter (entries l) is))\<rparr>\<rparr>)"
proof (induction "is" arbitrary: l t)
  case Nil
  then show ?case by (simp add: ret_def map_filter_simps)
next
  case (Cons i "is")
  show ?case
  proof (cases "entries l i")
    case None
    with Cons show ?thesis
      by (simp add: bind_def write_temp_quiet assms map_filter_simps)
  next
    case (Some e)
    let ?l = "l\<lparr>data_dir := (data_dir l)\<lparr>log_tmp := Some (t @ disk_text E [e])\<rparr>\<rparr>"
    from Some Cons.prems have "write_temp E i l = (Ret (), ?l)"
      by (simp add: write_temp_quiet assms append_text_def)
    moreover have "quiet ?l" "log_tmp (data_dir ?l) = Some (t @ disk_text E [e])" "entries ?l = entries l"
      using Cons.prems by simp_all
    ultimately show ?thesis
      using Some Cons.IH [of ?l "t @ disk_text E [e]"] by (simp add: bind_def map_filter_simps)
  qed
qed

lemma truncate_from_quiet:
  assumes "quiet l" "serde_ok E" "opened l"
  shows "truncate_from E b l = (Ret (), (mem_truncate b l)\<lparr>data_dir := (data_dir l)\<lparr>
    log_jsonl := Some (disk_text E (List.map_filter (entries (mem_truncate b l)) (range_below b))),
    log_tmp := None\<rparr>\<rparr>)"
proof -
  let ?m = "mem_truncate b l"
  let ?t = "disk_text E (List.map_filter (entries ?m) (range_below b))"
  let ?l1 = "?m\<lparr>data_dir := (data_dir l)\<lparr>log_tmp := Some []\<rparr>\<rparr>"
  let ?l2 = "?m\<lparr>data_dir := (data_dir l)\<lparr>log_tmp := Some ?t\<rparr>\<rparr>"
  let ?l3 = "?m\<lparr>data_dir := (data_dir l)\<lparr>log_jsonl := Some ?t, log_tmp := None\<rparr>\<rparr>"
  have d: "data_dir ?m = data_dir l" "log_file ?m = LogFile"
    using assms(3) by (simp_all add: mem_truncate_def opened_def)
  have 0: "modify (\<lambda>l. l\<lparr>entries := (\<lambda>i. if i < b then entries l i else None),
            last_index := saturating_sub b 1\<rparr>) l = (Ret (), ?m)"
    by (simp add: modify_def mem_truncate_def)
  have 1: "on_dir (io_call (\<lambda>d. d\<lparr>log_tmp := Some []\<rparr>)) ?m = (Ret (), ?l1)"
    using assms(1) on_dir_call_quiet [of ?m] d by simp
  have "quiet ?l1" using assms(1) by (simp add: quiet_def)
  then have 2: "for_each (range_below b) (write_temp E) ?l1 = (Ret (), ?l2)"
    using write_temps_quiet [OF assms(2), of ?l1 "[]"] by simp
  have q2: "quiet ?l2" using assms(1) by (simp add: quiet_def)
  have 3: "on_dir (io_call id) ?l2 = (Ret (), ?l2)"
    using on_dir_call_quiet [OF q2] by simp
  have 4: "on_dir (io_call (\<lambda>d. d\<lparr>log_jsonl := log_tmp d, log_tmp := None\<rparr>)) ?l2 = (Ret (), ?l3)"
    using on_dir_call_quiet [OF q2] by simp
  have "quiet (?l3\<lparr>log_file := UnlinkedFile\<rparr>)" using assms(1) by (simp add: quiet_def)
  then have 5: "open_log (?l3\<lparr>log_file := UnlinkedFile\<rparr>) = (Ret (), ?l3)"
    using on_dir_call_quiet [of "?l3\<lparr>log_file := UnlinkedFile\<rparr>"] d
    by (simp add: open_log_def bind_def modify_def append_text_def)
  show ?thesis
    unfolding truncate_from_def
    by (simp only: bind_def 0 1 2 3 4 prod.case res.case) (simp add: modify_def d 5)
qed

section \<open>Effects on memory, whatever the system calls do\<close>

text \<open>
  \<open>dir_only\<close>: the operation returns or fails (it never hangs) and changes the data directory only.
\<close>

definition dir_only :: "(raft_log, 'a) op \<Rightarrow> bool" where
  "dir_only m \<longleftrightarrow> (\<forall>l. fst (m l) \<noteq> Hang \<and> (\<exists>d. snd (m l) = l\<lparr>data_dir := d\<rparr>))"

lemma dir_onlyD:
  assumes "dir_only m" "m l = (r, l')"
  obtains d where "r \<noteq> Hang" "l' = l\<lparr>data_dir := d\<rparr>"
proof -
  from assms have "r \<noteq> Hang \<and> (\<exists>d. l' = l\<lparr>data_dir := d\<rparr>)"
    unfolding dir_only_def by (metis fst_conv snd_conv)
  then show ?thesis using that by blast
qed

lemma same_dir: "\<exists>d. l = (l :: raft_log)\<lparr>data_dir := d\<rparr>"
  by (rule exI [of _ "data_dir l"]) simp

lemma dir_only_ret: "dir_only (ret x)"
  by (simp add: dir_only_def ret_def same_dir)

lemma dir_only_from_json: "dir_only (from_json x)"
  by (simp add: dir_only_def from_json_def ret_def fail_def same_dir split: option.splits)

lemma dir_only_gets: "dir_only (gets f)"
  by (simp add: dir_only_def gets_def same_dir)

lemma dir_only_bind:
  assumes "dir_only m" "\<And>x. dir_only (f x)"
  shows "dir_only (bind m f)"
  unfolding dir_only_def
proof
  fix l
  obtain r l' where m: "m l = (r, l')" by force
  obtain d where d: "r \<noteq> Hang" "l' = l\<lparr>data_dir := d\<rparr>" by (rule dir_onlyD [OF assms(1) m])
  show "fst (bind m f l) \<noteq> Hang \<and> (\<exists>d. snd (bind m f l) = l\<lparr>data_dir := d\<rparr>)"
  proof (cases r)
    case (Ret x)
    obtain r2 l2 where f: "f x l' = (r2, l2)" by force
    obtain d2 where "r2 \<noteq> Hang" "l2 = l'\<lparr>data_dir := d2\<rparr>" by (rule dir_onlyD [OF assms(2) f])
    with m Ret f d show ?thesis by (auto simp: bind_def)
  qed (use m d in \<open>auto simp: bind_def\<close>)
qed

lemma dir_only_if: "dir_only m \<Longrightarrow> dir_only n \<Longrightarrow> dir_only (if b then m else n)"
  by simp

lemma dir_only_for_each: "(\<And>x. dir_only (f x)) \<Longrightarrow> dir_only (for_each xs f)"
  by (induction xs) (auto intro: dir_only_ret dir_only_bind)

lemma io_call_no_hang: "fst (io_call f d) \<noteq> Hang"
  by (auto simp: io_call_def take_fault_def bind_def modify_def fail_def split: list.splits)

lemma io_write_no_hang: "fst (io_write u s d) \<noteq> Hang"
  by (auto simp: io_write_def take_fault_def bind_def modify_def fail_def split: list.splits fault.splits)

lemma dir_only_on_dir: "(\<And>d. fst (m d) \<noteq> Hang) \<Longrightarrow> dir_only (on_dir m)"
  unfolding dir_only_def zoom_def by (auto split: prod.splits) (metis fst_conv)

lemmas dir_only_intros = dir_only_ret dir_only_from_json dir_only_gets dir_only_bind dir_only_if
  dir_only_for_each dir_only_on_dir io_call_no_hang io_write_no_hang

lemma dir_only_save_state: "dir_only (save_state E)"
  unfolding save_state_def by (intro dir_only_intros)

lemma dir_only_write_line: "dir_only (write_line E e)"
  unfolding write_line_def by (intro dir_only_intros)

lemma dir_only_flush_log: "dir_only flush_log"
  unfolding flush_log_def by (intro dir_only_intros)

lemma dir_only_write_temp: "dir_only (write_temp E i)"
  unfolding write_temp_def
  by (intro dir_only_bind dir_only_gets) (auto intro!: dir_only_intros split: option.splits)

text \<open>A saved state is on disk before the operation returns.\<close>

lemma io_write_Ret:
  "io_write (\<lambda>s d. d\<lparr>state_json := Some s\<rparr>) c d = (Ret (), d') \<Longrightarrow> state_json d' = Some c"
  by (auto simp: io_write_def take_fault_def bind_def modify_def fail_def
      split: list.splits fault.splits)

lemma save_state_Ret:
  assumes "save_state E l = (Ret (), l')"
  shows "\<exists>j. state_to_json E (persistent l) = Some j \<and> state_json (data_dir l') = Some j"
proof -
  from assms obtain j where j: "state_to_json E (persistent l) = Some j"
    by (auto simp: save_state_def bind_def gets_def from_json_def fail_def ret_def split: option.splits)
  with assms have "on_dir (io_write (\<lambda>s d. d\<lparr>state_json := Some s\<rparr>) j) l = (Ret (), l')"
    by (simp add: save_state_def bind_def gets_def from_json_def ret_def)
  then have "state_json (data_dir l') = Some j"
    by (auto simp: zoom_def split: prod.splits dest: io_write_Ret)
  with j show ?thesis by simp
qed

lemma set_current_term_mem:
  assumes "set_current_term E t l = (r, l')"
  shows "r \<noteq> Hang \<and> (\<exists>d. l' = l\<lparr>data_dir := d, persistent := \<lparr>current_term = t, voted_for = None\<rparr>\<rparr>)"
proof -
  have "save_state E (l\<lparr>persistent := \<lparr>current_term = t, voted_for = None\<rparr>\<rparr>) = (r, l')"
    using assms by (simp add: set_current_term_def bind_def modify_def)
  then obtain d where "r \<noteq> Hang"
      "l' = l\<lparr>persistent := \<lparr>current_term = t, voted_for = None\<rparr>, data_dir := d\<rparr>"
    by (rule dir_onlyD [OF dir_only_save_state])
  then show ?thesis by (auto intro: exI [of _ d])
qed

lemma set_voted_for_mem:
  assumes "set_voted_for E c l = (r, l')"
  shows "r \<noteq> Hang \<and> (\<exists>d. l' = l\<lparr>data_dir := d,
           persistent := (persistent l)\<lparr>voted_for := map_option (push_str E 64) c\<rparr>\<rparr>)"
proof -
  have "save_state E (l\<lparr>persistent := (persistent l)\<lparr>voted_for := map_option (push_str E 64) c\<rparr>\<rparr>) = (r, l')"
    using assms by (simp add: set_voted_for_def bind_def modify_def)
  then obtain d where "r \<noteq> Hang" "l' = l\<lparr>persistent :=
      (persistent l)\<lparr>voted_for := map_option (push_str E 64) c\<rparr>, data_dir := d\<rparr>"
    by (rule dir_onlyD [OF dir_only_save_state])
  then show ?thesis by (auto intro: exI [of _ d])
qed

lemma set_voted_for_durable:
  assumes "set_voted_for E c l = (Ret (), l')"
  shows "\<exists>j. state_to_json E (persistent l') = Some j \<and> state_json (data_dir l') = Some j"
proof -
  let ?l = "l\<lparr>persistent := (persistent l)\<lparr>voted_for := map_option (push_str E 64) c\<rparr>\<rparr>"
  have s: "save_state E ?l = (Ret (), l')"
    using assms by (simp add: set_voted_for_def bind_def modify_def)
  obtain d where "l' = ?l\<lparr>data_dir := d\<rparr>" by (rule dir_onlyD [OF dir_only_save_state s])
  with save_state_Ret [OF s] show ?thesis by simp
qed

text \<open>Appending and truncating keep the persistent state and never hang.\<close>

definition keeps_persistent :: "(raft_log, 'a) op \<Rightarrow> bool" where
  "keeps_persistent m \<longleftrightarrow> (\<forall>l. fst (m l) \<noteq> Hang \<and> persistent (snd (m l)) = persistent l)"

lemma keeps_persistent_dir_only: "dir_only m \<Longrightarrow> keeps_persistent m"
  unfolding keeps_persistent_def dir_only_def by (metis (no_types, lifting) raft_log.select_convs(3) raft_log.surjective raft_log.update_convs(1))

lemma keeps_persistent_bind:
  "keeps_persistent m \<Longrightarrow> (\<And>x. keeps_persistent (f x)) \<Longrightarrow> keeps_persistent (bind m f)"
  unfolding keeps_persistent_def bind_def
  by (auto split: prod.splits res.splits) (metis fst_conv snd_conv)+

lemma keeps_persistent_modify:
  "(\<And>l. persistent (f l) = persistent l) \<Longrightarrow> keeps_persistent (modify f)"
  by (simp add: keeps_persistent_def modify_def)

lemma keeps_persistent_for_each: "(\<And>x. keeps_persistent (f x)) \<Longrightarrow> keeps_persistent (for_each xs f)"
  by (induction xs) (auto intro: keeps_persistent_bind keeps_persistent_dir_only dir_only_ret)

lemmas keeps_persistent_intros = keeps_persistent_bind keeps_persistent_modify
  keeps_persistent_for_each keeps_persistent_dir_only

lemma keeps_persistent_append_entries: "keeps_persistent (append_entries E es)"
  unfolding append_entries_def append_entry_from_leader_def
  by (intro keeps_persistent_bind keeps_persistent_for_each keeps_persistent_modify)
    (simp_all add: keeps_persistent_dir_only dir_only_write_line dir_only_flush_log)

lemma keeps_persistent_open_log: "keeps_persistent open_log"
  unfolding open_log_def
  by (intro keeps_persistent_bind keeps_persistent_modify keeps_persistent_dir_only dir_only_intros) simp

lemma keeps_persistent_truncate_from: "keeps_persistent (truncate_from E b)"
  unfolding truncate_from_def
  by (intro keeps_persistent_bind keeps_persistent_for_each keeps_persistent_modify keeps_persistent_open_log)
    (auto intro!: keeps_persistent_dir_only dir_only_on_dir io_call_no_hang dir_only_write_temp)

lemma keeps_persistent_log_append: "keeps_persistent (log_append E t c)"
  unfolding log_append_def Let_def
  by (intro keeps_persistent_bind keeps_persistent_modify)
    (auto intro!: keeps_persistent_dir_only dir_only_gets dir_only_ret dir_only_write_line dir_only_flush_log)

lemma keeps_persistentD:
  "keeps_persistent m \<Longrightarrow> m l = (r, l') \<Longrightarrow> r \<noteq> Hang \<and> persistent l' = persistent l"
  unfolding keeps_persistent_def by (metis fst_conv snd_conv)

end
