(* ===== verification/Log_Recovery.thy ===== *)
theory Log_Recovery
  imports Raft_Log_Facts
begin

text \<open>
  Durability of the log: after any sequence of log operations, \<open>RaftLog::new\<close> on the data directory
  rebuilds the memory view.  The interface \<open>durable_store\<close> states what a client of a persistent
  store relies on, and the log of \<open>log.rs\<close> is an interpretation of it.
\<close>

section \<open>Replaying the file\<close>

definition empty_log :: raft_log where
  "empty_log = \<lparr>data_dir = \<lparr>state_json = None, log_jsonl = None, log_tmp = None, faults = []\<rparr>,
     entries = Map.empty, persistent = default_persistent_state, last_index = 0, log_file = NoFile\<rparr>"

definition replay :: "log_entry list \<Rightarrow> raft_log" where
  "replay es = fold mem_insert es empty_log"

lemma fold_mem_insert_cong:
  "entries l = entries l' \<Longrightarrow> last_index l = last_index l' \<Longrightarrow>
   entries (fold mem_insert es l) = entries (fold mem_insert es l') \<and>
   last_index (fold mem_insert es l) = last_index (fold mem_insert es l')"
  by (induction es arbitrary: l l') simp_all

lemma last_index_fold:
  "last_index l \<le> last_index (fold mem_insert es l) \<and>
   (\<forall>e \<in> set es. index e \<le> last_index (fold mem_insert es l)) \<and>
   (last_index (fold mem_insert es l) = last_index l \<or>
    last_index (fold mem_insert es l) \<in> index ` set es)"
proof (induction es arbitrary: l)
  case Nil
  then show ?case by simp
next
  case (Cons e es)
  show ?case
    using Cons.IH [of "mem_insert e l"] by (auto simp: max_def split: if_splits)
qed

lemma entries_fold_map_filter:
  assumes "\<forall>i e. m i = Some e \<longrightarrow> index e = i"
  shows "entries (fold mem_insert (List.map_filter m is) l) =
         (\<lambda>i. if i \<in> set is \<and> m i \<noteq> None then m i else entries l i)"
proof (induction "is" arbitrary: l)
  case Nil
  then show ?case by (simp add: map_filter_simps)
next
  case (Cons i "is")
  then show ?case
    using assms by (fastforce simp: map_filter_simps insert_entry_def split: option.splits)
qed

lemma set_map_filter: "set (List.map_filter f xs) = {y. \<exists>x \<in> set xs. f x = Some y}"
  by (induction xs) (auto simp: map_filter_simps split: option.splits)

lemma set_range_below: "set (range_below b) = {i. 0 < i \<and> i < b}"
proof -
  have "x \<in> set (range_below b) \<longleftrightarrow> 0 < x \<and> x < b" for x
  proof
    assume "x \<in> set (range_below b)"
    then obtain n where n: "x = word_of_nat n" "1 \<le> n" "n < unat b" by (auto simp: range_below_def)
    then have "n < 2 ^ 64" using unsigned_less [of b, where ?'a = nat] by simp
    then have "unat x = n" using n by (simp add: unat_of_nat)
    with n show "0 < x \<and> x < b" by (simp add: word_less_nat_alt)
  next
    assume "0 < x \<and> x < b"
    then have "unat x \<in> set [1..<unat b]" by (auto simp: word_less_nat_alt)
    then have "word_of_nat (unat x) \<in> set (range_below b)"
      unfolding range_below_def by (simp only: set_map) (rule imageI)
    then show "x \<in> set (range_below b)" by simp
  qed
  then show ?thesis by blast
qed

lemma replay_truncated:
  assumes "log_wf l" "log_wf (mem_truncate b l)"
  defines "es \<equiv> List.map_filter (entries (mem_truncate b l)) (range_below b)"
  shows "entries (replay es) = entries (mem_truncate b l)"
    and "last_index (replay es) = last_index (mem_truncate b l)"
proof -
  let ?m = "mem_truncate b l"
  have idx: "\<forall>i e. entries ?m i = Some e \<longrightarrow> index e = i"
    using assms(2) by (simp add: log_wf_def)
  have sub: "entries ?m i \<noteq> None \<Longrightarrow> i \<in> set (range_below b)" for i
    using log_wf_le [OF assms(1), of i]
    by (auto simp: mem_truncate_def set_range_below split: if_splits)
  show ents: "entries (replay es) = entries ?m"
    unfolding replay_def es_def entries_fold_map_filter [OF idx]
    using sub by (force simp: empty_log_def)
  have "index ` set es = dom (entries ?m)"
    unfolding es_def set_map_filter using idx sub by (force simp: image_iff)
  then have ix: "index ` set es = {i. 0 < i \<and> i \<le> last_index ?m}"
    using assms(2) by (simp add: log_wf_def)
  have L: "\<forall>i \<in> index ` set es. i \<le> last_index (replay es)"
      "last_index (replay es) = 0 \<or> last_index (replay es) \<in> index ` set es"
    using last_index_fold [of empty_log es] by (auto simp: replay_def empty_log_def)
  show "last_index (replay es) = last_index ?m"
  proof (cases "last_index ?m = 0")
    case True
    with ix L(2) show ?thesis by auto
  next
    case False
    then have "last_index ?m \<in> index ` set es" using ix by (simp add: word_gt_0)
    with L ix show ?thesis by (metis (mono_tags, lifting) False mem_Collect_eq order_antisym_conv word_le_0_iff)
  qed
qed

section \<open>Loading\<close>

lemma load_line_quiet:
  assumes "quiet l" "serde_ok E" "entry_ok e"
  shows "load_line E (json_of E e) l = (Ret (), mem_insert e l)"
  using assms on_dir_call_quiet [OF assms(1), of id]
  by (simp add: load_line_def bind_def from_json_def ret_def modify_def Let_def json_of [OF assms(2)]
      disk_roundtrip serde_ok_heapless mem_insert_def)

lemma load_lines_quiet:
  assumes "serde_ok E"
  shows "quiet l \<Longrightarrow> list_all entry_ok es \<Longrightarrow>
    for_each (map (json_of E) es) (load_line E) l = (Ret (), fold mem_insert es l)"
proof (induction es arbitrary: l)
  case Nil
  then show ?case by (simp add: ret_def)
next
  case (Cons e es)
  then show ?case by (simp add: bind_def load_line_quiet assms)
qed

definition state_on_disk :: "'e serde_scheme \<Rightarrow> raft_log \<Rightarrow> bool" where
  "state_on_disk E l \<longleftrightarrow> (case state_json (data_dir l) of
      None \<Rightarrow> persistent l = default_persistent_state
    | Some j \<Rightarrow> state_from_json E j = Some (persistent l))"

definition synced :: "'e serde_scheme \<Rightarrow> raft_log \<Rightarrow> bool" where
  "synced E l \<longleftrightarrow> quiet l \<and> log_file l = LogFile \<and> log_wf l \<and> state_ok (persistent l) \<and>
     state_on_disk E l \<and>
     (\<exists>es. log_jsonl (data_dir l) = Some (disk_text E es) \<and> list_all entry_ok es \<and>
           entries (replay es) = entries l \<and> last_index (replay es) = last_index l)"

type_synonym log_view = "(u64 \<rightharpoonup> log_entry) \<times> persistent_state \<times> u64"

definition log_view :: "raft_log \<Rightarrow> log_view" where
  "log_view l = (entries l, persistent l, last_index l)"

definition log_recover ::
    "'e serde_scheme \<Rightarrow> raft_log \<Rightarrow> log_view option" where
  "log_recover E l = (case new_raft_log E (data_dir l) of
      (Ret _, l') \<Rightarrow> Some (log_view l')
    | _ \<Rightarrow> None)"

lemma open_log_quiet:
  assumes "quiet l"
  shows "open_log l = (Ret (), l\<lparr>data_dir := (data_dir l)\<lparr>log_jsonl :=
    append_text (log_jsonl (data_dir l)) []\<rparr>, log_file := LogFile\<rparr>)"
  using on_dir_call_quiet [OF assms] by (simp add: open_log_def bind_def modify_def)

lemma load_state:
  assumes "state_on_disk E l" "quiet l0" "state_json (data_dir l0) = state_json (data_dir l)"
    "persistent l0 = default_persistent_state"
  shows "(case state_json (data_dir l) of None \<Rightarrow> ret ()
      | Some content \<Rightarrow> seq (on_dir (io_call id)) (bind (from_json (state_from_json E content))
          (\<lambda>p. modify (\<lambda>l. l\<lparr>persistent := p\<rparr>)))) l0 = (Ret (), l0\<lparr>persistent := persistent l\<rparr>)"
proof -
  have "on_dir (io_call id) l0 = (Ret (), l0)" using on_dir_call_quiet [OF assms(2), of id] by simp
  moreover have "l0\<lparr>persistent := persistent l\<rparr> = l0" if "persistent l = persistent l0"
    using that by simp
  ultimately show ?thesis using assms(1,4)
    by (auto simp: state_on_disk_def ret_def bind_def from_json_def modify_def split: option.splits)
qed

lemma new_raft_log_synced:
  assumes E: "serde_ok E" and S: "synced E l"
  shows "\<exists>l'. new_raft_log E (data_dir l) = (Ret (), l') \<and> log_view l' = log_view l \<and> synced E l'"
proof -
  let ?d = "data_dir l"
  let ?l0 = "\<lparr>data_dir = ?d, entries = Map.empty, persistent = default_persistent_state,
              last_index = 0, log_file = NoFile\<rparr>"
  let ?l1 = "?l0\<lparr>persistent := persistent l\<rparr>"
  from S obtain es where es: "log_jsonl ?d = Some (disk_text E es)" "list_all entry_ok es"
      "entries (replay es) = entries l" "last_index (replay es) = last_index l"
    by (auto simp: synced_def)
  have q: "quiet ?l0" "quiet ?l1" using S by (simp_all add: synced_def quiet_def)
  have io: "on_dir (io_call id) ?l0 = (Ret (), ?l0)" "on_dir (io_call id) ?l1 = (Ret (), ?l1)"
    using on_dir_call_quiet [OF q(1), of id] on_dir_call_quiet [OF q(2), of id] by simp_all
  have "state_on_disk E l" using S by (simp add: synced_def)
  note st = load_state [OF this q(1)]
  let ?l2 = "fold mem_insert es ?l1"
  have ld: "for_each (lines_of (disk_text E es)) (load_line E) ?l1 = (Ret (), ?l2)"
    using load_lines_quiet [OF E q(2) es(2)] by (simp add: lines_of_disk_text [OF E])
  have q2: "quiet ?l2" using q(2) by (simp add: quiet_def)
  have "?d\<lparr>log_jsonl := append_text (log_jsonl ?d) []\<rparr> = ?d"
    using es(1) by (cases ?d) (simp add: append_text_def)
  then have op: "open_log ?l2 = (Ret (), ?l2\<lparr>log_file := LogFile\<rparr>)"
    using open_log_quiet [OF q2] by simp
  have n: "new_raft_log E ?d = (Ret (), ?l2\<lparr>log_file := LogFile\<rparr>)"
    using st io ld op by (simp add: new_raft_log_def load_from_disk_def bind_def gets_def es(1))
  have v: "entries ?l2 = entries l" "last_index ?l2 = last_index l" "persistent ?l2 = persistent l"
    using es(3,4) fold_mem_insert_cong [of ?l1 empty_log es]
    by (simp_all add: replay_def empty_log_def)
  then have "synced E (?l2\<lparr>log_file := LogFile\<rparr>)"
    using S es by (auto simp: synced_def quiet_def log_wf_def state_on_disk_def split: option.splits)
  with n v show ?thesis by (simp add: log_view_def)
qed

lemma log_recover_synced: "serde_ok E \<Longrightarrow> synced E l \<Longrightarrow> log_recover E l = Some (log_view l)"
  using new_raft_log_synced [of E l] by (auto simp: log_recover_def)

section \<open>Operations keep the files in step with memory\<close>

datatype log_op =
    SetTerm u64
  | SetVote "string option"
  | AppendCmd u64 command
  | AppendAll "log_entry list"
  | TruncateFrom u64

fun run_log_op :: "'e serde_scheme \<Rightarrow> log_op \<Rightarrow> raft_log \<Rightarrow> raft_log" where
  "run_log_op E (SetTerm t) l = snd (set_current_term E t l)"
| "run_log_op E (SetVote c) l = snd (set_voted_for E c l)"
| "run_log_op E (AppendCmd t c) l = snd (log_append E t c l)"
| "run_log_op E (AppendAll es) l = snd (append_entries E es l)"
| "run_log_op E (TruncateFrom b) l = snd (truncate_from E b l)"

fun log_op_ok :: "raft_log \<Rightarrow> log_op \<Rightarrow> bool" where
  "log_op_ok l (SetTerm t) \<longleftrightarrow> True"
| "log_op_ok l (SetVote c) \<longleftrightarrow> True"
| "log_op_ok l (AppendCmd t c) \<longleftrightarrow> last_index l \<noteq> - 1 \<and> command_ok c"
| "log_op_ok l (AppendAll es) \<longleftrightarrow> fits (last_index l) es \<and> list_all entry_ok es"
| "log_op_ok l (TruncateFrom b) \<longleftrightarrow>
     0 < b \<and> (b \<le> last_index l \<or> (last_index l \<noteq> - 1 \<and> b = last_index l + 1))"

lemma synced_save_state:
  assumes E: "serde_ok E" and S: "synced E l" and p: "state_ok p"
  shows "\<exists>l'. save_state E (l\<lparr>persistent := p\<rparr>) = (Ret (), l') \<and> synced E l' \<and>
              log_view l' = (entries l, p, last_index l)"
proof -
  let ?l = "l\<lparr>persistent := p\<rparr>"
  have q: "quiet ?l" "state_ok (persistent ?l)" using S p by (simp_all add: synced_def)
  obtain j where j: "state_from_json E j = Some (persistent ?l)"
      "save_state E ?l = (Ret (), ?l\<lparr>data_dir := (data_dir ?l)\<lparr>state_json := Some j\<rparr>\<rparr>)"
    by (rule save_state_quiet [OF q(1) E q(2)]) blast
  moreover have "synced E (?l\<lparr>data_dir := (data_dir ?l)\<lparr>state_json := Some j\<rparr>\<rparr>)"
    using S p j(1) by (simp add: synced_def quiet_def log_wf_def state_on_disk_def)
  ultimately show ?thesis by (simp add: log_view_def)
qed

lemma synced_set_current_term:
  assumes "serde_ok E" "synced E l"
  shows "\<exists>l'. set_current_term E t l = (Ret (), l') \<and> synced E l' \<and>
    log_view l' = (entries l, \<lparr>current_term = t, voted_for = None\<rparr>, last_index l)"
  using synced_save_state [OF assms, of "\<lparr>current_term = t, voted_for = None\<rparr>"]
  by (simp add: set_current_term_def bind_def modify_def state_ok_def)

lemma synced_set_voted_for:
  assumes "serde_ok E" "synced E l"
  shows "\<exists>l'. set_voted_for E c l = (Ret (), l') \<and> synced E l' \<and>
    log_view l' = (entries l, (persistent l)\<lparr>voted_for := map_option (push_str E 64) c\<rparr>, last_index l)"
proof -
  let ?p = "(persistent l)\<lparr>voted_for := map_option (push_str E 64) c\<rparr>"
  have "state_ok ?p"
    by (auto simp: state_ok_def push_str_cap serde_ok_heapless assms(1))
  from synced_save_state [OF assms this] show ?thesis
    by (simp add: set_voted_for_def bind_def modify_def)
qed

lemma synced_opened: "synced E l \<Longrightarrow> opened l"
  by (auto simp: synced_def opened_def)

lemma synced_extend:
  assumes "synced E l" "fits (last_index l) es" "list_all entry_ok es"
  shows "synced E (fold mem_insert es (put_lines E es l))"
proof -
  let ?l' = "fold mem_insert es (put_lines E es l)"
  from assms(1) obtain es0 where es0: "log_jsonl (data_dir l) = Some (disk_text E es0)"
      "list_all entry_ok es0" "entries (replay es0) = entries l" "last_index (replay es0) = last_index l"
    by (auto simp: synced_def)
  have "log_jsonl (data_dir ?l') = Some (disk_text E (es0 @ es))"
    by (simp add: es0(1) append_text_def)
  moreover have "list_all entry_ok (es0 @ es)" using es0(2) assms(3) by simp
  moreover have "entries (replay (es0 @ es)) = entries ?l' \<and> last_index (replay (es0 @ es)) = last_index ?l'"
    using fold_mem_insert_cong [of "replay es0" "put_lines E es l" es] es0(3,4) by (simp add: replay_def)
  ultimately have ex: "\<exists>es. log_jsonl (data_dir ?l') = Some (disk_text E es) \<and> list_all entry_ok es \<and>
      entries (replay es) = entries ?l' \<and> last_index (replay es) = last_index ?l'"
    by blast
  have "log_wf (put_lines E es l)"
    using assms(1) by (simp add: synced_def log_wf_def)
  then have "log_wf ?l'"
    using log_wf_fold_mem_insert [of "put_lines E es l" es] assms(2) by simp
  moreover have "state_on_disk E ?l'" "quiet ?l'" "log_file ?l' = LogFile" "state_ok (persistent ?l')"
    using assms(1) by (simp_all add: synced_def state_on_disk_def split: option.splits)
  ultimately show ?thesis
    unfolding synced_def using ex by blast
qed

lemma synced_append_entries:
  assumes "serde_ok E" "synced E l" "fits (last_index l) es" "list_all entry_ok es"
  shows "append_entries E es l = (Ret (), fold mem_insert es (put_lines E es l))"
    and "synced E (fold mem_insert es (put_lines E es l))"
proof -
  have "quiet l" using assms(2) by (simp add: synced_def)
  then show "append_entries E es l = (Ret (), fold mem_insert es (put_lines E es l))"
    using append_entries_quiet assms(1) synced_opened [OF assms(2)] by blast
  show "synced E (fold mem_insert es (put_lines E es l))"
    using synced_extend assms(2-4) by blast
qed

lemma synced_log_append:
  fixes t :: u64
  assumes "serde_ok E" "synced E l" "last_index l \<noteq> - 1" "command_ok c"
  defines "e \<equiv> \<lparr>index = last_index l + 1, entry_term = t, command = c\<rparr>"
  shows "log_append E t c l = (Ret (last_index l + 1), mem_insert e (put_lines E [e] l))"
    and "synced E (mem_insert e (put_lines E [e] l))"
proof -
  have q: "quiet l" "opened l" using assms(2) synced_opened by (auto simp: synced_def)
  then show "log_append E t c l = (Ret (last_index l + 1), mem_insert e (put_lines E [e] l))"
    using log_append_quiet [OF q(1) assms(1) q(2) assms(3)] by (simp add: e_def Let_def)
  have "0 < last_index l + 1"
    using less_plus_one_iff [OF assms(3), of 0] by simp
  then have "fits (last_index l) [e]" "list_all entry_ok [e]"
    using assms(3,4) by (simp_all add: e_def entry_ok_def)
  then show "synced E (mem_insert e (put_lines E [e] l))"
    using synced_extend [OF assms(2), of "[e]"] by simp
qed

lemma synced_truncate_from:
  assumes "serde_ok E" "synced E l" "log_op_ok l (TruncateFrom b)"
  shows "\<exists>l'. truncate_from E b l = (Ret (), l') \<and> synced E l' \<and> log_view l' = log_view (mem_truncate b l)"
proof -
  let ?m = "mem_truncate b l"
  let ?es = "List.map_filter (entries ?m) (range_below b)"
  let ?l' = "?m\<lparr>data_dir := (data_dir l)\<lparr>log_jsonl := Some (disk_text E ?es), log_tmp := None\<rparr>\<rparr>"
  from assms(2) have q: "quiet l" "log_wf l" by (simp_all add: synced_def)
  from assms(2) obtain es0 where es0: "list_all entry_ok es0" "entries (replay es0) = entries l"
    by (auto simp: synced_def)
  have wf: "log_wf ?m" using q(2) assms(3) by (intro log_wf_mem_truncate) auto
  have ok: "entry_ok e" if "entries l i = Some e" for i e
  proof -
    have "i \<in> index ` set es0"
      using that es0(2) fold_mem_insert_other [of i es0 empty_log]
      by (auto simp: replay_def empty_log_def)
    from fold_mem_insert_in [OF this, of empty_log]
    obtain e' where "e' \<in> set es0" "entries (replay es0) i = Some e'" by (auto simp: replay_def)
    with that es0 show ?thesis by (simp add: list_all_iff)
  qed
  have "list_all entry_ok ?es"
    using ok by (auto simp: list_all_iff set_map_filter mem_truncate_def split: if_splits)
  with replay_truncated [OF q(2) wf]
  have "\<exists>es. log_jsonl (data_dir ?l') = Some (disk_text E es) \<and> list_all entry_ok es \<and>
      entries (replay es) = entries ?l' \<and> last_index (replay es) = last_index ?l'"
    by (intro exI [of _ ?es]) simp
  moreover have "log_wf ?l'" using wf by (simp add: log_wf_def)
  moreover have "state_on_disk E ?l'" "quiet ?l'" "log_file ?l' = LogFile" "state_ok (persistent ?l')"
    using assms(2) by (simp_all add: synced_def state_on_disk_def quiet_def mem_truncate_def split: option.splits)
  ultimately have "synced E ?l'" unfolding synced_def by blast
  then show ?thesis
    using truncate_from_quiet [OF q(1) assms(1) synced_opened [OF assms(2)], of b]
    by (simp add: log_view_def)
qed

lemma synced_run_log_op:
  assumes "serde_ok E" "synced E l" "log_op_ok l x"
  shows "synced E (run_log_op E x l)"
proof (cases x)
  case (SetTerm t)
  then show ?thesis using synced_set_current_term [OF assms(1,2), of t] by auto
next
  case (SetVote c)
  then show ?thesis using synced_set_voted_for [OF assms(1,2), of c] by auto
next
  case (AppendCmd t c)
  then show ?thesis using synced_log_append [OF assms(1,2), of c t] assms(3) by simp
next
  case (AppendAll es)
  then show ?thesis using synced_append_entries [OF assms(1,2), of es] assms(3) by simp
next
  case (TruncateFrom b)
  then show ?thesis using synced_truncate_from [OF assms(1,2), of b] assms(3) by auto
qed

section \<open>The abstract log\<close>

text \<open>
  What the operations do to the view, without files: the specification that \<open>log.rs\<close> refines.
\<close>

fun view_op :: "'e serde_scheme \<Rightarrow> log_op \<Rightarrow> log_view \<Rightarrow> log_view" where
  "view_op E (SetTerm t) (m, p, n) = (m, \<lparr>current_term = t, voted_for = None\<rparr>, n)"
| "view_op E (SetVote c) (m, p, n) = (m, p\<lparr>voted_for := map_option (push_str E 64) c\<rparr>, n)"
| "view_op E (AppendCmd t c) (m, p, n) =
     (m(n + 1 \<mapsto> \<lparr>index = n + 1, entry_term = t, command = c\<rparr>), p, n + 1)"
| "view_op E (AppendAll es) (m, p, n) =
     (fold insert_entry es m, p, fold (\<lambda>e n. max n (index e)) es n)"
| "view_op E (TruncateFrom b) (m, p, n) = ((\<lambda>i. if i < b then m i else None), p, saturating_sub b 1)"

lemma fold_mem_insert_view:
  "entries (fold mem_insert es l) = fold insert_entry es (entries l)"
  "last_index (fold mem_insert es l) = fold (\<lambda>e n. max n (index e)) es (last_index l)"
  by (induction es arbitrary: l) simp_all

lemma run_log_op_view:
  assumes "serde_ok E" "synced E l" "log_op_ok l x"
  shows "log_view (run_log_op E x l) = view_op E x (log_view l)"
proof (cases x)
  case (SetTerm t)
  then show ?thesis using synced_set_current_term [OF assms(1,2), of t] by (auto simp: log_view_def)
next
  case (SetVote c)
  then show ?thesis using synced_set_voted_for [OF assms(1,2), of c] by (auto simp: log_view_def)
next
  case (AppendCmd t c)
  with assms(3) have m: "last_index l \<noteq> - 1" "command_ok c" by simp_all
  then have "last_index l \<le> last_index l + 1"
    using less_plus_one_iff [of "last_index l" "last_index l"] by simp
  with AppendCmd synced_log_append(1) [OF assms(1,2) m, of t] show ?thesis
    by (simp add: log_view_def insert_entry_def max_absorb2)
next
  case (AppendAll es)
  then show ?thesis using synced_append_entries(1) [OF assms(1,2), of es] assms(3)
    by (simp add: log_view_def fold_mem_insert_view)
next
  case (TruncateFrom b)
  then show ?thesis using synced_truncate_from [OF assms(1,2), of b] assms(3)
    by (auto simp: log_view_def mem_truncate_def)
qed

section \<open>The interface of a durable store\<close>

primrec all_ok :: "('o \<Rightarrow> 's \<Rightarrow> 's) \<Rightarrow> ('s \<Rightarrow> 'o \<Rightarrow> bool) \<Rightarrow> 's \<Rightarrow> 'o list \<Rightarrow> bool" where
  "all_ok run ok s [] \<longleftrightarrow> True"
| "all_ok run ok s (x # xs) \<longleftrightarrow> ok s x \<and> all_ok run ok (run x s) xs"

locale durable_store =
  fixes run :: "'o \<Rightarrow> 's \<Rightarrow> 's"
    and ok :: "'s \<Rightarrow> 'o \<Rightarrow> bool"
    and view :: "'s \<Rightarrow> 'v"
    and recover :: "'s \<Rightarrow> 'v option"
    and inv :: "'s \<Rightarrow> bool"
  assumes inv_run: "inv s \<Longrightarrow> ok s x \<Longrightarrow> inv (run x s)"
    and recover_inv: "inv s \<Longrightarrow> recover s = Some (view s)"
begin

lemma inv_runs: "inv s \<Longrightarrow> all_ok run ok s xs \<Longrightarrow> inv (fold run xs s)"
  by (induction xs arbitrary: s) (auto intro: inv_run)

lemma recover_runs: "inv s \<Longrightarrow> all_ok run ok s xs \<Longrightarrow> recover (fold run xs s) = Some (view (fold run xs s))"
  using inv_runs recover_inv by blast

end

interpretation store: durable_store "run_log_op E" log_op_ok log_view "log_recover E"
    "\<lambda>l. serde_ok E \<and> synced E l" for E :: "'e serde_scheme"
  by unfold_locales (auto intro: synced_run_log_op log_recover_synced)

end
