(* ===== verification/Node_Facts.thy ===== *)
theory Node_Facts
  imports Node Log_Recovery
begin

text \<open>
  The node's operations as equations: what each sends and what it changes, on every branch.  The
  lock discipline comes first: which operations hang when the log mutex is already held.
\<close>

section \<open>Primitive operations\<close>

lemma scope_eq: "scope m s = (case m s of (Hang, s') \<Rightarrow> (Hang, s') | (r, s') \<Rightarrow> (r, s'\<lparr>log_locked := log_locked s\<rparr>))"
  by (simp add: scope_def)

lemma post_scope [wp]:
  "post (scope m) Q s \<longleftrightarrow>
     post m (\<lambda>r s'. Q r (case r of Hang \<Rightarrow> s' | _ \<Rightarrow> s'\<lparr>log_locked := log_locked s\<rparr>)) s"
  by (simp add: post_def scope_def split: prod.splits res.splits)

lemma post_lock_log [wp]:
  "post lock_log Q s \<longleftrightarrow> (if log_locked s then Q Hang s else Q (Ret ()) (s\<lparr>log_locked := True\<rparr>))"
  by (simp add: post_def lock_log_def)

lemma post_drop_log [wp]: "post drop_log Q s \<longleftrightarrow> Q (Ret ()) (s\<lparr>log_locked := False\<rparr>)"
  by (simp add: drop_log_def wp)

lemma post_send_envelope [wp]:
  "post (send_envelope env) Q s \<longleftrightarrow> Q (Ret ()) (s\<lparr>outgoing := outgoing s @ [env]\<rparr>)"
  by (simp add: send_envelope_def wp)

lemma lock_log_free: "\<not> log_locked s \<Longrightarrow> lock_log s = (Ret (), s\<lparr>log_locked := True\<rparr>)"
  by (simp add: lock_log_def)

lemma lock_log_held: "log_locked s \<Longrightarrow> lock_log s = (Hang, s)"
  by (simp add: lock_log_def)

lemma node_relock [simp]: "\<not> log_locked s \<Longrightarrow> s\<lparr>log_locked := False\<rparr> = s"
  by (cases s) simp

lemma node_locked [simp]: "log_locked s \<Longrightarrow> s\<lparr>log_locked := True\<rparr> = s"
  by (cases s) simp

text \<open>Sending one message to each peer.\<close>

lemma send_each:
  assumes "\<And>p s x. f p (s\<lparr>outgoing := x\<rparr>) = f p s"
  shows "for_each ps (\<lambda>p. bind (gets (f p)) send_envelope) s =
         (Ret (), s\<lparr>outgoing := outgoing s @ map (\<lambda>p. f p s) ps\<rparr>)"
proof (induction ps arbitrary: s)
  case Nil
  then show ?case by (simp add: ret_def)
next
  case (Cons p ps)
  then show ?case
    by (simp add: bind_def gets_def send_envelope_def modify_def assms)
qed

section \<open>Responses and heartbeats\<close>

definition append_entries_reply :: "'e serde_scheme \<Rightarrow> node \<Rightarrow> string \<Rightarrow> u64 \<Rightarrow> bool \<Rightarrow> message_envelope" where
  "append_entries_reply E s to t ok = new_envelope E (node_id s) to (AppendEntriesResponse
     \<lparr>aer_term = t, success = ok, aer_last_log_index = last_index (log s),
      aer_node_id = push_str E 64 (node_id s)\<rparr>)"

definition request_vote_reply :: "'e serde_scheme \<Rightarrow> node \<Rightarrow> string \<Rightarrow> u64 \<Rightarrow> bool \<Rightarrow> message_envelope" where
  "request_vote_reply E s to t granted = new_envelope E (node_id s) to (RequestVoteResponse
     \<lparr>rvr_term = t, vote_granted = granted, rvr_node_id = push_str E 64 (node_id s)\<rparr>)"

definition heartbeat :: "'e serde_scheme \<Rightarrow> node \<Rightarrow> string \<Rightarrow> message_envelope" where
  "heartbeat E s p = new_envelope E (node_id s) p (AppendEntries (append_entries_for E s p))"

lemma send_append_entries_response_free:
  "\<not> log_locked s \<Longrightarrow> send_append_entries_response E to t ok s =
     (Ret (), s\<lparr>outgoing := outgoing s @ [append_entries_reply E s to t ok]\<rparr>)"
  by (simp add: send_append_entries_response_def scope_def bind_def lock_log_free gets_def
      send_envelope_def modify_def append_entries_reply_def)

lemma send_append_entries_response_held:
  "log_locked s \<Longrightarrow> send_append_entries_response E to t ok s = (Hang, s)"
  by (simp add: send_append_entries_response_def scope_def bind_def lock_log_held)

lemma send_request_vote_response_eq:
  "send_request_vote_response E to t g s =
     (Ret (), s\<lparr>outgoing := outgoing s @ [request_vote_reply E s to t g]\<rparr>)"
  by (simp add: send_request_vote_response_def bind_def gets_def send_envelope_def modify_def
      request_vote_reply_def)

lemma append_entries_for_frame:
  "append_entries_for E (s\<lparr>outgoing := x\<rparr>) p = append_entries_for E s p"
  "append_entries_for E (s\<lparr>log_locked := b\<rparr>) p = append_entries_for E s p"
  by (simp_all add: append_entries_for_def)

lemma heartbeat_frame:
  "heartbeat E (s\<lparr>outgoing := x\<rparr>) p = heartbeat E s p"
  "heartbeat E (s\<lparr>log_locked := b\<rparr>) p = heartbeat E s p"
  by (simp_all add: heartbeat_def append_entries_for_frame)

lemma send_heartbeats_idle: "role s \<noteq> Leader \<Longrightarrow> send_heartbeats E s = (Ret (), s)"
  by (simp add: send_heartbeats_def scope_def bind_def gets_def ret_def)

lemma send_heartbeats_held: "role s = Leader \<Longrightarrow> log_locked s \<Longrightarrow> send_heartbeats E s = (Hang, s)"
  by (simp add: send_heartbeats_def scope_def bind_def gets_def lock_log_held)

lemma send_heartbeats_leader:
  assumes "role s = Leader" "\<not> log_locked s"
  shows "send_heartbeats E s =
    (Ret (), s\<lparr>outgoing := outgoing s @ map (heartbeat E s) (hm_keys (peers s))\<rparr>)"
proof -
  have "for_each ps (\<lambda>p. bind (gets (\<lambda>s. heartbeat E s p)) send_envelope) t =
      (Ret (), t\<lparr>outgoing := outgoing t @ map (heartbeat E t) ps\<rparr>)" for ps t
    using send_each [of "\<lambda>p s. heartbeat E s p" ps t] by (simp add: heartbeat_frame)
  then show ?thesis
    using assms
    by (simp add: send_heartbeats_def scope_def bind_def gets_def lock_log_free heartbeat_def
        append_entries_for_frame)
qed

section \<open>Applying and committing\<close>

lemma apply_committed_held: "log_locked s \<Longrightarrow> apply_committed_entries s = (Hang, s)"
  by (simp add: apply_committed_entries_def scope_def bind_def gets_def lock_log_held)

definition apply_result_of :: "node \<Rightarrow> node" where
  "apply_result_of s =
     (case apply_loop (entries (log s)) (commit_index s) (last_applied s) (machine s) of
       (la, sm) \<Rightarrow> s\<lparr>last_applied := la, machine := sm\<rparr>)"

lemma apply_committed_free:
  "\<not> log_locked s \<Longrightarrow> apply_committed_entries s = (Ret (), apply_result_of s)"
proof -
  assume u: "\<not> log_locked s"
  have "get_entry (log s) = entries (log s)" by (simp add: get_entry_def fun_eq_iff)
  with u show ?thesis
    by (simp add: apply_committed_entries_def scope_def bind_def gets_def lock_log_free modify_def
        apply_result_of_def split: prod.splits)
qed

text \<open>The loop applies the entries present in \<open>(last_applied, commit]\<close>, in order.\<close>

definition entries_between :: "(u64 \<rightharpoonup> log_entry) \<Rightarrow> u64 \<Rightarrow> u64 \<Rightarrow> log_entry list" where
  "entries_between m a b = List.map_filter m (map word_of_nat [Suc (unat a)..<Suc (unat b)])"

lemma entries_between_step:
  assumes "a < b"
  shows "entries_between m a b =
    (case m (a + 1) of None \<Rightarrow> [] | Some e \<Rightarrow> [e]) @ entries_between m (a + 1) b"
proof -
  have u: "unat (a + 1) = Suc (unat a)" by (rule unat_plus_one_less [OF assms])
  have w: "word_of_nat (Suc (unat a)) = a + 1" by (simp flip: u)
  have "[Suc (unat a)..<Suc (unat b)] = Suc (unat a) # [Suc (Suc (unat a))..<Suc (unat b)]"
    using assms by (simp add: upt_conv_Cons word_less_nat_alt)
  then have "map word_of_nat [Suc (unat a)..<Suc (unat b)] =
      (a + 1) # map word_of_nat [Suc (unat (a + 1))..<Suc (unat b)]"
    by (simp add: u w del: upt_Suc of_nat_Suc)
  then show ?thesis
    unfolding entries_between_def by (simp add: map_filter_simps split: option.splits del: upt_Suc)
qed

lemma entries_between_empty: "b \<le> a \<Longrightarrow> entries_between m a b = []"
  by (simp add: entries_between_def word_le_nat_alt map_filter_simps)

lemma apply_loop_eq:
  "apply_loop m commit la sm = (max la commit, fold sm_step (entries_between m la commit) sm)"
proof (induction m commit la sm rule: apply_loop.induct)
  case (1 m commit la sm)
  show ?case
  proof (cases "la < commit")
    case True
    have "max (la + 1) commit = max la commit"
      using plus_one_le [OF True] True by (simp add: max_absorb2 order_less_imp_le)
    then show ?thesis
      using "1.IH" [OF True refl] True
      by (simp add: apply_loop.simps [of m commit la sm] entries_between_step split: option.splits)
  next
    case False
    then show ?thesis
      by (simp add: apply_loop.simps [of m commit la sm] entries_between_empty max_absorb1)
  qed
qed

lemma apply_result_of_eq:
  "apply_result_of s = s\<lparr>last_applied := max (last_applied s) (commit_index s),
     machine := fold sm_step (entries_between (entries (log s)) (last_applied s) (commit_index s)) (machine s)\<rparr>"
  by (simp add: apply_result_of_def apply_loop_eq)

section \<open>Pending requests\<close>

definition acknowledge :: "u64 \<Rightarrow> node \<Rightarrow> node" where
  "acknowledge i s = (case hm_get (pending_requests s) i of
         None \<Rightarrow> s
       | Some tx \<Rightarrow> s\<lparr>pending_requests := hm_remove i (pending_requests s),
                      replies := replies s @ [(tx, Success i)]\<rparr>)"

definition success_of :: "(u64, nat) hmap \<Rightarrow> u64 \<Rightarrow> nat \<times> propose_result" where
  "success_of m i = (the (hm_get m i), Success i)"

lemma success_of_remove: "hm_wf m \<Longrightarrow> j \<noteq> i \<Longrightarrow> success_of (hm_remove i m) j = success_of m j"
  by (simp add: success_of_def hm_simps)

lemma acknowledge_each:
  "hm_wf (pending_requests s) \<Longrightarrow> distinct is \<Longrightarrow> \<forall>i \<in> set is. hm_get (pending_requests s) i \<noteq> None \<Longrightarrow>
   for_each is (\<lambda>i. modify (acknowledge i)) s =
     (Ret (), s\<lparr>pending_requests := fold hm_remove is (pending_requests s),
        replies := replies s @ map (success_of (pending_requests s)) is\<rparr>)"
proof (induction "is" arbitrary: s)
  case Nil
  then show ?case by (simp add: ret_def)
next
  case (Cons i "is")
  then obtain tx where tx: "hm_get (pending_requests s) i = Some tx" by auto
  let ?s = "s\<lparr>pending_requests := hm_remove i (pending_requests s),
             replies := replies s @ [(tx, Success i)]\<rparr>"
  have a: "acknowledge i s = ?s" using tx by (simp add: acknowledge_def)
  have "hm_wf (pending_requests ?s)" "distinct is"
      "\<forall>j \<in> set is. hm_get (pending_requests ?s) j \<noteq> None"
    using Cons.prems by (auto simp: hm.wf_rem hm_simps)
  moreover have "map (success_of (hm_remove i (pending_requests s))) is =
      map (success_of (pending_requests s)) is"
    using Cons.prems by (auto intro!: success_of_remove)
  moreover have "success_of (pending_requests s) i = (tx, Success i)"
    by (simp add: success_of_def tx)
  ultimately show ?case
    using Cons.IH [of ?s] by (simp add: bind_def modify_def a)
qed

definition pending_up_to :: "node \<Rightarrow> u64 \<Rightarrow> u64 list" where
  "pending_up_to s n = filter (\<lambda>i. i \<le> n) (hm_keys (pending_requests s))"

definition notified :: "u64 \<Rightarrow> node \<Rightarrow> node" where
  "notified n s = s\<lparr>pending_requests := fold hm_remove (pending_up_to s n) (pending_requests s),
     replies := replies s @ map (success_of (pending_requests s)) (pending_up_to s n)\<rparr>"

lemma notify_pending_eq:
  assumes "hm_wf (pending_requests s)"
  shows "notify_pending_requests n s = (Ret (), notified n s)"
proof -
  have "distinct (pending_up_to s n)" using hm.distinct_keys [OF assms] by (simp add: pending_up_to_def)
  moreover have "\<forall>i \<in> set (pending_up_to s n). hm_get (pending_requests s) i \<noteq> None"
    by (auto simp: pending_up_to_def hm.set_keys)
  ultimately show ?thesis
    using acknowledge_each [OF assms]
    by (simp add: notify_pending_requests_def bind_def gets_def notified_def pending_up_to_def
        acknowledge_def [abs_def])
qed

lemma pending_notified:
  assumes "hm_wf (pending_requests s)"
  shows "hm_get (pending_requests (notified n s)) i =
         (if i \<le> n then None else hm_get (pending_requests s) i)"
  using assms by (auto simp: notified_def hm_get_removes pending_up_to_def hm.set_keys)

section \<open>Advancing the commit index\<close>

lemma find_rev_sorted:
  assumes "sorted_wrt (<) (xs :: 'a :: linorder list)" "find P (rev xs) = Some x"
  shows "x \<in> set xs \<and> P x \<and> (\<forall>y \<in> set xs. x < y \<longrightarrow> \<not> P y)"
  using assms
proof (induction xs rule: rev_induct)
  case Nil
  then show ?case by simp
next
  case (snoc a xs)
  then show ?case by (cases "P a") (auto simp: sorted_wrt_append)
qed

lemma sorted_range_incl: "sorted_wrt (<) (range_incl a b)"
  unfolding range_incl_def sorted_wrt_map
proof (rule sorted_wrt_mono_rel [where P = "(<)"])
  fix x y :: nat
  assume "y \<in> set [unat a..<Suc (unat b)]" "x < y"
  then show "(word_of_nat x :: u64) < word_of_nat y"
    using unsigned_less [of b, where ?'a = nat] by (auto simp: word_less_nat_alt unat_of_nat)
next
  show "sorted_wrt (<) [unat a..<Suc (unat b)]" by (rule sorted_wrt_upt)
qed

lemma commit_candidate_Some:
  assumes "commit_candidate s = Some n"
  shows "commit_index s + 1 \<le> n" "n \<le> last_index (log s)"
    and "term_at (log s) n = Some (node_term s)" "majority s \<le> ack_count s n"
    and "n < m \<Longrightarrow> m \<le> last_index (log s) \<Longrightarrow> term_at (log s) m = Some (node_term s) \<Longrightarrow>
         ack_count s m < majority s"
proof -
  note f = find_rev_sorted [OF sorted_range_incl assms [unfolded commit_candidate_def]]
  show "commit_index s + 1 \<le> n" "n \<le> last_index (log s)"
    and "term_at (log s) n = Some (node_term s)" "majority s \<le> ack_count s n"
    using f by (auto simp: set_range_incl)
  show "ack_count s m < majority s" if "n < m" "m \<le> last_index (log s)"
      "term_at (log s) m = Some (node_term s)"
    using f that by (force simp: set_range_incl not_le)
qed

lemma commit_candidate_None:
  assumes "commit_candidate s = None" "commit_index s + 1 \<le> m" "m \<le> last_index (log s)"
    "term_at (log s) m = Some (node_term s)"
  shows "ack_count s m < majority s"
  using assms by (force simp: commit_candidate_def find_None_iff set_range_incl not_le)

definition committed_at :: "u64 \<Rightarrow> node \<Rightarrow> node" where
  "committed_at n s = notified n (apply_result_of (s\<lparr>commit_index := n\<rparr>))"

lemma apply_result_pending [simp]: "pending_requests (apply_result_of s) = pending_requests s"
  by (simp add: apply_result_of_eq)

lemma try_advance_idle: "role s \<noteq> Leader \<Longrightarrow> try_advance_commit_index s = (Ret (), s)"
  by (simp add: try_advance_commit_index_def scope_def bind_def gets_def ret_def)

lemma commit_candidate_frame: "commit_candidate (s\<lparr>log_locked := b\<rparr>) = commit_candidate s"
  by (simp add: commit_candidate_def majority_def ack_count_def)

lemma try_advance_leader:
  assumes "role s = Leader" "\<not> log_locked s" "hm_wf (pending_requests s)"
  shows "try_advance_commit_index s =
    (Ret (), case commit_candidate s of None \<Rightarrow> s | Some n \<Rightarrow> committed_at n s)"
proof (cases "commit_candidate s")
  case None
  with assms show ?thesis
    by (simp add: try_advance_commit_index_def scope_def bind_def gets_def lock_log_free
        commit_candidate_frame ret_def)
next
  case (Some n)
  let ?s = "s\<lparr>commit_index := n\<rparr>"
  have u: "\<not> log_locked ?s" using assms by simp
  have w: "hm_wf (pending_requests (apply_result_of ?s))" using assms by simp
  have l: "log_locked (committed_at n s) = log_locked s"
    by (simp add: committed_at_def notified_def apply_result_of_eq)
  show ?thesis
    using assms Some apply_committed_free [OF u] notify_pending_eq [OF w] l
    by (simp add: try_advance_commit_index_def scope_def bind_def gets_def lock_log_free
        commit_candidate_frame drop_log_def modify_def committed_at_def [symmetric])
qed

section \<open>Becoming leader and starting an election\<close>

definition leader_state :: "node \<Rightarrow> node" where
  "leader_state s = s\<lparr>role := Leader, leader_id := Some (node_id s),
     next_index := fold (\<lambda>p. hm_insert p (last_index (log s) + 1)) (hm_keys (peers s)) (next_index s),
     match_index := fold (\<lambda>p. hm_insert p 0) (hm_keys (peers s)) (match_index s)\<rparr>"

definition broadcast :: "'e serde_scheme \<Rightarrow> node \<Rightarrow> node" where
  "broadcast E s = s\<lparr>outgoing := outgoing s @ map (heartbeat E s) (hm_keys (peers s))\<rparr>"

lemma leader_state_simps [simp]:
  "role (leader_state s) = Leader" "log (leader_state s) = log s" "peers (leader_state s) = peers s"
  "node_id (leader_state s) = node_id s" "commit_index (leader_state s) = commit_index s"
  "last_applied (leader_state s) = last_applied s" "machine (leader_state s) = machine s"
  "log_locked (leader_state s) = log_locked s" "outgoing (leader_state s) = outgoing s"
  "pending_requests (leader_state s) = pending_requests s"
  "votes_received (leader_state s) = votes_received s"
  by (simp_all add: leader_state_def)

lemma broadcast_simps [simp]:
  "role (broadcast E s) = role s" "log (broadcast E s) = log s" "peers (broadcast E s) = peers s"
  "node_id (broadcast E s) = node_id s" "commit_index (broadcast E s) = commit_index s"
  "last_applied (broadcast E s) = last_applied s" "machine (broadcast E s) = machine s"
  "log_locked (broadcast E s) = log_locked s" "next_index (broadcast E s) = next_index s"
  "match_index (broadcast E s) = match_index s" "pending_requests (broadcast E s) = pending_requests s"
  "votes_received (broadcast E s) = votes_received s"
  by (simp_all add: broadcast_def)

lemma post_send_heartbeats [wp]:
  "post (send_heartbeats E) Q s \<longleftrightarrow>
     (if role s \<noteq> Leader then Q (Ret ()) s
      else if log_locked s then Q Hang s else Q (Ret ()) (broadcast E s))"
  by (simp add: post_def send_heartbeats_idle send_heartbeats_held send_heartbeats_leader broadcast_def)

lemma post_send_append_entries_response [wp]:
  "post (send_append_entries_response E to t ok) Q s \<longleftrightarrow>
     (if log_locked s then Q Hang s
      else Q (Ret ()) (s\<lparr>outgoing := outgoing s @ [append_entries_reply E s to t ok]\<rparr>))"
  by (simp add: post_def send_append_entries_response_held send_append_entries_response_free)

lemma post_send_request_vote_response [wp]:
  "post (send_request_vote_response E to t g) Q s \<longleftrightarrow>
     Q (Ret ()) (s\<lparr>outgoing := outgoing s @ [request_vote_reply E s to t g]\<rparr>)"
  by (simp add: post_def send_request_vote_response_eq)

lemma post_apply_committed [wp]:
  "post apply_committed_entries Q s \<longleftrightarrow>
     (if log_locked s then Q Hang s else Q (Ret ()) (apply_result_of s))"
  by (simp add: post_def apply_committed_held apply_committed_free)

lemma become_leader_free:
  assumes "\<not> log_locked s"
  shows "become_leader E s = (Ret (), broadcast E (leader_state s))"
proof -
  have "\<not> log_locked (leader_state s)" using assms by simp
  from send_heartbeats_leader [OF _ this, of E] have "send_heartbeats E (leader_state s) = (Ret (), broadcast E (leader_state s))"
    by (simp add: broadcast_def)
  then show ?thesis
    using assms
    by (simp add: become_leader_def scope_def bind_def modify_def lock_log_def gets_def drop_log_def
        leader_state_def)
qed

lemma become_leader_held:
  "log_locked s \<Longrightarrow> become_leader E s = (Hang, s\<lparr>role := Leader, leader_id := Some (node_id s)\<rparr>)"
  by (simp add: become_leader_def scope_def bind_def modify_def lock_log_def)

lemma post_become_leader [wp]:
  "post (become_leader E) Q s \<longleftrightarrow>
     (if log_locked s then Q Hang (s\<lparr>role := Leader, leader_id := Some (node_id s)\<rparr>)
      else Q (Ret ()) (broadcast E (leader_state s)))"
  by (simp add: post_def become_leader_held become_leader_free)

lemma post_send_each:
  assumes "\<And>p s x. f p (s\<lparr>outgoing := x\<rparr>) = f p s"
  shows "post (for_each ps (\<lambda>p. bind (gets (f p)) send_envelope)) Q s \<longleftrightarrow>
         Q (Ret ()) (s\<lparr>outgoing := outgoing s @ map (\<lambda>p. f p s) ps\<rparr>)"
  by (simp add: post_def send_each [OF assms])

section \<open>Rules for the fallible parts\<close>

text \<open>The log's operations may fail in any system call; these rules keep what is certain.\<close>

lemma post_set_current_term:
  assumes "\<And>r d. r \<noteq> Hang \<Longrightarrow>
    Q r (l\<lparr>data_dir := d, persistent := \<lparr>current_term = t, voted_for = None\<rparr>\<rparr>)"
  shows "post (set_current_term E t) Q l"
  unfolding post_def using set_current_term_mem [of E t l] assms
  by (cases "set_current_term E t l") auto

lemma post_set_voted_for:
  assumes "\<And>r d. r \<noteq> Hang \<Longrightarrow>
    Q r (l\<lparr>data_dir := d, persistent := (persistent l)\<lparr>voted_for := map_option (push_str E 64) c\<rparr>\<rparr>)"
  shows "post (set_voted_for E c) Q l"
  unfolding post_def using set_voted_for_mem [of E c l] assms
  by (cases "set_voted_for E c l") auto

lemma post_keeps_persistent:
  assumes "keeps_persistent m" "\<And>r l'. r \<noteq> Hang \<Longrightarrow> persistent l' = persistent l \<Longrightarrow> Q r l'"
  shows "post m Q l"
  unfolding post_def using keeps_persistentD [OF assms(1), of l] assms(2)
  by (cases "m l") auto

lemma keeps_persistent_delete_conflicting: "keeps_persistent (delete_conflicting E es)"
  unfolding delete_conflicting_def
  by (intro keeps_persistent_bind)
    (auto intro: keeps_persistent_dir_only dir_only_gets dir_only_ret keeps_persistent_truncate_from
      split: option.splits)

lemmas post_append_entries = post_keeps_persistent [OF keeps_persistent_append_entries]
lemmas post_delete_conflicting = post_keeps_persistent [OF keeps_persistent_delete_conflicting]
lemmas post_log_append = post_keeps_persistent [OF keeps_persistent_log_append]

lemma post_notify:
  assumes "\<And>q rs. Q (Ret ()) (s\<lparr>pending_requests := q, replies := rs\<rparr>)"
  shows "post (notify_pending_requests n) Q s"
proof -
  have "\<exists>q rs. for_each is (\<lambda>i. modify (acknowledge i)) s =
      (Ret (), s\<lparr>pending_requests := q, replies := rs\<rparr>)" for "is"
  proof (induction "is" arbitrary: s)
    case Nil
    show ?case
      by (rule exI [of _ "pending_requests s"], rule exI [of _ "replies s"]) (simp add: ret_def)
  next
    case (Cons i "is")
    obtain q rs where a: "acknowledge i s = s\<lparr>pending_requests := q, replies := rs\<rparr>"
      by (cases "hm_get (pending_requests s) i")
        (auto simp: acknowledge_def intro: that [where q = "pending_requests s" and rs = "replies s"])
    from Cons.IH [of "acknowledge i s"] show ?case
      by (auto simp: bind_def modify_def a)
  qed
  then obtain q rs where "notify_pending_requests n s = (Ret (), s\<lparr>pending_requests := q, replies := rs\<rparr>)"
    by (fastforce simp: notify_pending_requests_def bind_def gets_def acknowledge_def [abs_def])
  then show ?thesis using assms by (simp add: post_def)
qed

lemma post_try_advance:
  assumes "Q (Ret ()) s" "log_locked s \<Longrightarrow> Q Hang s"
    and "\<And>n q rs. role s = Leader \<Longrightarrow> \<not> log_locked s \<Longrightarrow> commit_candidate s = Some n \<Longrightarrow>
      Q (Ret ()) ((apply_result_of (s\<lparr>commit_index := n\<rparr>))\<lparr>pending_requests := q, replies := rs\<rparr>)"
  shows "post try_advance_commit_index Q s"
  using assms
  by (auto simp: try_advance_commit_index_def wp commit_candidate_frame apply_result_of_eq
      intro!: post_notify split: option.splits res.splits)

end
