(* ===== verification/Node_Events.thy ===== *)
theory Node_Events
  imports Node_Facts
begin

text \<open>
  The events that drive a node (a message, a timer, a client, a membership change) as one step
  function, and what every step keeps, whatever its system calls do and even if it hangs: a node
  votes for at most one candidate per term, its term never goes back, and what it has applied
  stays applied.  The interface \<open>evolution\<close> lifts a relation that each step respects to runs.
\<close>

section \<open>Events\<close>

datatype node_event =
    Deliver message_envelope
  | ElectionTimer nat
  | HeartbeatTimer
  | ClientPropose command nat
  | Join string string
  | Leave string
  | Status

definition run_event :: "'e serde_scheme \<Rightarrow> node_event \<Rightarrow> unit node_op" where
  "run_event E ev = (case ev of
      Deliver env \<Rightarrow> handle_message E env
    | ElectionTimer timeout \<Rightarrow> election_tick E timeout
    | HeartbeatTimer \<Rightarrow> heartbeat_tick E
    | ClientPropose c tx \<Rightarrow> propose E c tx
    | Join i addr \<Rightarrow> add_peer E i addr
    | Leave i \<Rightarrow> remove_peer i
    | Status \<Rightarrow> seq get_status (ret ()))"

definition step_event :: "'e serde_scheme \<Rightarrow> node_event \<Rightarrow> node \<Rightarrow> node" where
  "step_event E ev s = snd (run_event E ev s)"

lemma step_event_post: "post (run_event E ev) (\<lambda>r s'. R s s') s \<Longrightarrow> R s (step_event E ev s)"
  by (simp add: post_def step_event_def)

text \<open>
  What the types and the absence of overflow say about an event: a candidate's name fits its
  container, and an election does not wrap the term.
\<close>

definition event_ok :: "node \<Rightarrow> node_event \<Rightarrow> bool" where
  "event_ok s ev = (case ev of
      Deliver env \<Rightarrow> (case message env of RequestVote req \<Rightarrow> length (candidate_id req) \<le> 64 | _ \<Rightarrow> True)
    | ElectionTimer timeout \<Rightarrow> node_term s \<noteq> - 1
    | _ \<Rightarrow> True)"

locale evolution =
  fixes step :: "'e \<Rightarrow> 's \<Rightarrow> 's"
    and ok :: "'s \<Rightarrow> 'e \<Rightarrow> bool"
    and R :: "'s \<Rightarrow> 's \<Rightarrow> bool"
  assumes R_refl: "R s s"
    and R_trans: "R s t \<Longrightarrow> R t u \<Longrightarrow> R s u"
    and R_step: "ok s e \<Longrightarrow> R s (step e s)"
begin

lemma R_run: "all_ok step ok s es \<Longrightarrow> R s (fold step es s)"
proof (induction es arbitrary: s)
  case Nil
  then show ?case by (simp add: R_refl)
next
  case (Cons e es)
  then have "R s (step e s)" "R (step e s) (fold step es (step e s))" by (auto intro: R_step)
  then show ?case by (auto intro: R_trans)
qed

end

section \<open>One vote per term\<close>

definition vote_step :: "persistent_state \<Rightarrow> persistent_state \<Rightarrow> bool" where
  "vote_step p q \<longleftrightarrow> current_term p < current_term q \<or>
     (current_term p = current_term q \<and> (voted_for p = None \<or> voted_for q = voted_for p))"

lemma vote_step_refl [simp]: "vote_step p p"
  by (simp add: vote_step_def)

lemma vote_step_trans: "vote_step p q \<Longrightarrow> vote_step q r \<Longrightarrow> vote_step p r"
  unfolding vote_step_def by (elim disjE conjE) (auto intro: less_trans)

definition node_votes :: "node \<Rightarrow> node \<Rightarrow> bool" where
  "node_votes s t \<longleftrightarrow> vote_step (persistent (log s)) (persistent (log t))"

lemma node_votes_log [simp]: "log t = log s \<Longrightarrow> node_votes s t"
  by (simp add: node_votes_def)

lemma apply_result_log [simp]: "log (apply_result_of s) = log s"
  by (simp add: apply_result_of_eq)

lemma votes_handle_request_vote:
  assumes "heapless_ok E" "length (candidate_id req) \<le> 64"
  shows "post (handle_request_vote E from req) (\<lambda>r s'. node_votes s s') s"
  using assms
  by (auto simp: handle_request_vote_def wp Let_def node_votes_def vote_step_def log_current_term_def
      log_voted_for_def push_str_fits intro!: post_set_current_term post_set_voted_for split: res.splits)

lemma votes_handle_append_entries:
  "post (handle_append_entries E from req) (\<lambda>r s'. node_votes s s') s"
  by (auto simp: handle_append_entries_def wp node_votes_def vote_step_def log_current_term_def
      update_commit_def not_less
      intro!: post_set_current_term post_append_entries post_delete_conflicting split: res.splits)

lemma votes_handle_append_entries_response:
  "post (handle_append_entries_response E from resp) (\<lambda>r s'. node_votes s s') s"
  by (auto simp: handle_append_entries_response_def wp log_current_term_def node_votes_def vote_step_def
      intro!: post_set_current_term post_try_advance split: res.splits option.splits)

lemma votes_handle_request_vote_response:
  "post (handle_request_vote_response E from resp) (\<lambda>r s'. node_votes s s') s"
  by (auto simp: handle_request_vote_response_def wp log_current_term_def node_votes_def vote_step_def
      intro!: post_set_current_term split: res.splits)

lemma votes_start_election:
  assumes "node_term s \<noteq> - 1"
  shows "post (start_election E) (\<lambda>r s'. node_votes s s') s"
proof -
  have "node_term s < node_term s + 1"
    using assms less_plus_one_iff by blast
  then show ?thesis
    by (auto simp: start_election_def wp log_current_term_def node_votes_def vote_step_def
        post_send_each intro!: post_set_current_term post_set_voted_for split: res.splits)
qed

lemma votes_propose: "post (propose E c tx) (\<lambda>r s'. node_votes s s') s"
  by (auto simp: propose_def reply_to_def wp node_votes_def vote_step_def
      intro!: post_log_append split: res.splits)

lemma votes_run_event:
  assumes "heapless_ok E" "event_ok s ev"
  shows "post (run_event E ev) (\<lambda>r s'. node_votes s s') s"
proof (cases ev)
  case (Deliver env)
  then show ?thesis
    using assms votes_handle_append_entries votes_handle_append_entries_response
      votes_handle_request_vote votes_handle_request_vote_response
    by (auto simp: run_event_def handle_message_def event_ok_def wp split: raft_message.splits)
next
  case (ElectionTimer timeout)
  then show ?thesis
    using assms votes_start_election by (auto simp: run_event_def election_tick_def event_ok_def wp)
next
  case (ClientPropose c tx)
  then show ?thesis by (simp add: run_event_def votes_propose)
qed (auto simp: run_event_def heartbeat_tick_def add_peer_def remove_peer_def get_status_def wp
      split: res.splits)

interpretation votes: evolution "step_event E" "\<lambda>s ev. heapless_ok E \<and> event_ok s ev" node_votes
  for E :: "'e serde_scheme"
proof
  show "node_votes s t \<Longrightarrow> node_votes t u \<Longrightarrow> node_votes s u" for s t u
    unfolding node_votes_def by (rule vote_step_trans)
  show "heapless_ok E \<and> event_ok s ev \<Longrightarrow> node_votes s (step_event E ev s)" for s ev
    by (blast intro: step_event_post votes_run_event)
qed simp

section \<open>What is applied stays applied\<close>

definition applied_step :: "node \<Rightarrow> node \<Rightarrow> bool" where
  "applied_step s t \<longleftrightarrow> last_applied s \<le> last_applied t \<and>
     sm_last_applied (machine s) \<le> sm_last_applied (machine t)"

lemma applied_step_refl [simp]:
  "last_applied t = last_applied s \<Longrightarrow> machine t = machine s \<Longrightarrow> applied_step s t"
  by (simp add: applied_step_def)

lemma applied_apply:
  "last_applied t = last_applied s \<Longrightarrow> machine t = machine s \<Longrightarrow> applied_step s (apply_result_of t)"
  by (simp add: apply_result_of_eq applied_step_def le_max_iff_disj) (metis sm.applied_mono)

lemma applied_step_update [simp]:
  "applied_step s (t\<lparr>outgoing := x\<rparr>) = applied_step s t"
  "applied_step s (t\<lparr>log_locked := b\<rparr>) = applied_step s t"
  "applied_step s (t\<lparr>pending_requests := q\<rparr>) = applied_step s t"
  "applied_step s (t\<lparr>replies := rs\<rparr>) = applied_step s t"
  by (simp_all add: applied_step_def)

lemma applied_handle_append_entries:
  "post (handle_append_entries E from req) (\<lambda>r s'. applied_step s s') s"
  by (auto simp: handle_append_entries_def wp update_commit_def
      intro!: post_set_current_term post_append_entries post_delete_conflicting applied_apply
      split: res.splits)

lemma applied_handle_append_entries_response:
  "post (handle_append_entries_response E from resp) (\<lambda>r s'. applied_step s s') s"
  by (auto simp: handle_append_entries_response_def wp
      intro!: post_set_current_term post_try_advance applied_apply split: res.splits option.splits)

lemma applied_handle_request_vote:
  "post (handle_request_vote E from req) (\<lambda>r s'. applied_step s s') s"
  by (auto simp: handle_request_vote_def wp Let_def
      intro!: post_set_current_term post_set_voted_for split: res.splits)

lemma applied_handle_request_vote_response:
  "post (handle_request_vote_response E from resp) (\<lambda>r s'. applied_step s s') s"
  by (auto simp: handle_request_vote_response_def wp intro!: post_set_current_term split: res.splits)

lemma applied_start_election: "post (start_election E) (\<lambda>r s'. applied_step s s') s"
  by (auto simp: start_election_def wp post_send_each
      intro!: post_set_current_term post_set_voted_for split: res.splits)

lemma applied_propose: "post (propose E c tx) (\<lambda>r s'. applied_step s s') s"
  by (auto simp: propose_def reply_to_def wp intro!: post_log_append split: res.splits)

lemma applied_run_event: "post (run_event E ev) (\<lambda>r s'. applied_step s s') s"
proof (cases ev)
  case (Deliver env)
  then show ?thesis
    using applied_handle_append_entries applied_handle_append_entries_response
      applied_handle_request_vote applied_handle_request_vote_response
    by (auto simp: run_event_def handle_message_def wp split: raft_message.splits)
next
  case (ElectionTimer timeout)
  then show ?thesis
    using applied_start_election by (auto simp: run_event_def election_tick_def wp)
next
  case (ClientPropose c tx)
  then show ?thesis by (simp add: run_event_def applied_propose)
qed (auto simp: run_event_def heartbeat_tick_def add_peer_def remove_peer_def get_status_def wp
      split: res.splits)

interpretation applied: evolution "step_event E" "\<lambda>s ev. True" applied_step
  for E :: "'e serde_scheme"
proof
  show "applied_step s t \<Longrightarrow> applied_step t u \<Longrightarrow> applied_step s u" for s t u
    by (auto simp: applied_step_def)
  show "applied_step s (step_event E ev s)" for s ev
    by (blast intro: step_event_post applied_run_event)
qed simp

end
