(* ===== verification/Node_Handlers.thy ===== *)
theory Node_Handlers
  imports Node_Events
begin

text \<open>
  The RPC handlers on a node whose files are in step with its memory and whose system calls work:
  which branch is taken, what is stored and what is answered.
\<close>

section \<open>The paths that lock the log twice\<close>

lemma append_entries_stale:
  assumes "\<not> log_locked s" "ae_term req < node_term s"
  shows "handle_append_entries E from req s = (Hang, s\<lparr>log_locked := True\<rparr>)"
  using assms
  by (simp add: handle_append_entries_def scope_def bind_def lock_log_free gets_def
      send_append_entries_response_held)

text \<open>\<open>wedged\<close>: the mutex is held by a task that never releases it, and nothing of the protocol moves.\<close>

definition wedged :: "node \<Rightarrow> node \<Rightarrow> bool" where
  "wedged s t \<longleftrightarrow> (log_locked s \<longrightarrow>
     log_locked t \<and> log t = log s \<and> outgoing t = outgoing s \<and> commit_index t = commit_index s \<and>
     last_applied t = last_applied s \<and> machine t = machine s \<and> role t = role s)"

lemma wedged_run_event: "post (run_event E ev) (\<lambda>r s'. wedged s s') s"
proof (cases "log_locked s")
  case True
  show ?thesis
  proof (cases ev)
    case (Deliver env)
    then show ?thesis using True
      by (auto simp: run_event_def handle_message_def handle_append_entries_def
          handle_append_entries_response_def handle_request_vote_def handle_request_vote_response_def
          wp wedged_def split: raft_message.splits)
  next
    case (ElectionTimer timeout)
    then show ?thesis using True
      by (auto simp: run_event_def election_tick_def start_election_def wp wedged_def)
  next
    case (ClientPropose c tx)
    then show ?thesis using True
      by (auto simp: run_event_def propose_def reply_to_def wp wedged_def)
  qed (use True in \<open>auto simp: run_event_def heartbeat_tick_def add_peer_def remove_peer_def
        get_status_def wp wedged_def split: res.splits\<close>)
qed (simp add: wedged_def post_def)

interpretation wedge: evolution "step_event E" "\<lambda>s ev. True" wedged
  for E :: "'e serde_scheme"
proof
  show "wedged s t \<Longrightarrow> wedged t u \<Longrightarrow> wedged s u" for s t u
    by (auto simp: wedged_def)
  show "wedged s (step_event E ev s)" for s ev
    by (blast intro: step_event_post wedged_run_event)
qed (simp add: wedged_def)

section \<open>Nodes in step with their disk\<close>

definition node_ok :: "'e serde_scheme \<Rightarrow> node \<Rightarrow> bool" where
  "node_ok E s \<longleftrightarrow> serde_ok E \<and> synced E (log s) \<and> \<not> log_locked s"

text \<open>\<open>adopt\<close>: the log after \<open>set_current_term\<close>, when the term is new.\<close>

lemma on_log_run: "m (log s) = (r, l) \<Longrightarrow> on_log m s = (r, s\<lparr>log := l\<rparr>)"
  by (simp add: zoom_def)

lemma adopt_term:
  assumes "serde_ok E" "synced E (log s)" "node_term s \<le> t"
  defines "p \<equiv> if node_term s < t then \<lparr>current_term = t, voted_for = None\<rparr> else persistent (log s)"
  shows "\<exists>l. when_op (node_term s < t)
      (seq (on_log (set_current_term E t)) (modify (\<lambda>s. s\<lparr>role := Follower\<rparr>))) s =
      (Ret (), s\<lparr>log := l, role := (if node_term s < t then Follower else role s)\<rparr>) \<and>
    synced E l \<and> log_view l = (entries (log s), p, last_index (log s)) \<and> log_current_term l = t"
proof (cases "node_term s < t")
  case True
  from synced_set_current_term [OF assms(1,2), of t] obtain l where l:
    "set_current_term E t (log s) = (Ret (), l)" "synced E l"
    "log_view l = (entries (log s), \<lparr>current_term = t, voted_for = None\<rparr>, last_index (log s))" by blast
  with True show ?thesis
    by (auto simp: when_op_def bind_def on_log_run modify_def p_def log_view_def log_current_term_def)
next
  case False
  with assms(3) have "node_term s = t" by simp
  with False assms(2) show ?thesis
    by (auto simp: when_op_def ret_def p_def log_view_def intro!: exI [of _ "log s"])
qed

lemma append_entries_gap:
  assumes "node_ok E s" "node_term s \<le> ae_term req" "0 < prev_log_index req"
    and gap: "\<not> has_entry (log s) (prev_log_index req) (prev_log_term req)"
  shows "\<exists>s'. handle_append_entries E from req s = (Hang, s') \<and> log_locked s' \<and>
    outgoing s' = outgoing s \<and> entries (log s') = entries (log s) \<and> node_term s' = ae_term req"
proof -
  let ?s = "s\<lparr>log_locked := True\<rparr>"
  have ok: "serde_ok E" "synced E (log ?s)" "node_term ?s \<le> ae_term req" "\<not> log_locked s"
    using assms by (simp_all add: node_ok_def)
  from adopt_term [OF ok(1-3)] obtain l where l:
    "when_op (node_term ?s < ae_term req) (seq (on_log (set_current_term E (ae_term req)))
        (modify (\<lambda>s. s\<lparr>role := Follower\<rparr>))) ?s =
      (Ret (), ?s\<lparr>log := l, role := (if node_term ?s < ae_term req then Follower else role ?s)\<rparr>)"
    "entries l = entries (log s)" "log_current_term l = ae_term req"
    by (auto simp: log_view_def)
  have h: "has_entry l i t = has_entry (log s) i t" for i t
    using l(2) by (simp add: has_entry_def)
  from l ok(3,4) gap assms(3) show ?thesis
    by (auto simp: handle_append_entries_def scope_def bind_def lock_log_free gets_def modify_def h
        send_append_entries_response_held)
qed

section \<open>Votes\<close>

definition own_position :: "node \<Rightarrow> log_pos" where
  "own_position s = LogPos (last_term (log s)) (last_index (log s))"

definition candidate_position :: "request_vote_request \<Rightarrow> log_pos" where
  "candidate_position req = LogPos (rv_last_log_term req) (rv_last_log_index req)"

text \<open>When a node grants its vote, said without reference to the handler.\<close>

definition grants :: "node \<Rightarrow> request_vote_request \<Rightarrow> bool" where
  "grants s req \<longleftrightarrow> node_term s \<le> rv_term req \<and>
     (node_term s < rv_term req \<or> log_voted_for (log s) \<in> {None, Some (candidate_id req)}) \<and>
     own_position s \<le> candidate_position req"

lemma request_vote_stale:
  assumes "\<not> log_locked s" "rv_term req < node_term s"
  shows "handle_request_vote E from req s =
    (Ret (), s\<lparr>outgoing := outgoing s @ [request_vote_reply E s from (node_term s) False]\<rparr>)"
  using assms
  by (simp add: handle_request_vote_def scope_def bind_def lock_log_free gets_def
      send_request_vote_response_eq request_vote_reply_def)

lemma request_vote_outcome:
  assumes ok: "node_ok E s" and t: "node_term s \<le> rv_term req" and len: "length (candidate_id req) \<le> 64"
  shows "\<exists>l. handle_request_vote E from req s =
      (Ret (), s\<lparr>log := l, role := (if node_term s < rv_term req then Follower else role s),
        last_heartbeat := (if grants s req then clock s else last_heartbeat s),
        outgoing := outgoing s @ [request_vote_reply E s from (rv_term req) (grants s req)]\<rparr>) \<and>
    synced E l \<and> entries l = entries (log s) \<and> last_index l = last_index (log s) \<and>
    log_current_term l = rv_term req \<and>
    log_voted_for l = (if grants s req then Some (candidate_id req)
                       else if node_term s < rv_term req then None else log_voted_for (log s))"
proof -
  let ?s = "s\<lparr>log_locked := True\<rparr>"
  have E: "serde_ok E" "synced E (log ?s)" "node_term ?s \<le> rv_term req" "\<not> log_locked s"
    using ok t by (simp_all add: node_ok_def)
  from adopt_term [OF E(1-3)] obtain l where l:
    "when_op (node_term ?s < rv_term req) (seq (on_log (set_current_term E (rv_term req)))
        (modify (\<lambda>s. s\<lparr>role := Follower\<rparr>))) ?s =
      (Ret (), ?s\<lparr>log := l, role := (if node_term ?s < rv_term req then Follower else role ?s)\<rparr>)"
    "synced E l" "entries l = entries (log s)" "last_index l = last_index (log s)"
    "log_current_term l = rv_term req"
    "log_voted_for l = (if node_term s < rv_term req then None else log_voted_for (log s))"
    by (auto simp: log_view_def log_voted_for_def)
  have lt: "last_term l = last_term (log s)" using l(3,4) by (simp add: last_term_def)
  have g: "((log_voted_for l = None \<or> log_voted_for l = Some (candidate_id req)) \<and>
      (last_term l < rv_last_log_term req \<or>
       (rv_last_log_term req = last_term l \<and> last_index l \<le> rv_last_log_index req))) = grants s req"
    using t l(4,6) lt
    by (auto simp: grants_def own_position_def candidate_position_def less_eq_log_pos_def)
  show ?thesis
  proof (cases "grants s req")
    case False
    with l E g show ?thesis
      by (auto simp: handle_request_vote_def scope_def bind_def lock_log_free gets_def Let_def
          send_request_vote_response_eq request_vote_reply_def intro!: exI [of _ l])
  next
    case True
    obtain l' where l': "set_voted_for E (Some (candidate_id req)) l = (Ret (), l')" "synced E l'"
      "log_view l' = (entries l, (persistent l)\<lparr>voted_for := Some (candidate_id req)\<rparr>, last_index l)"
      using synced_set_voted_for [OF E(1) l(2), of "Some (candidate_id req)"]
      by (auto simp: push_str_fits [OF serde_ok_heapless [OF E(1)] len])
    then have v: "log_voted_for l' = Some (candidate_id req)" "log_current_term l' = rv_term req"
      "entries l' = entries (log s)" "last_index l' = last_index (log s)"
      using l by (auto simp: log_view_def log_voted_for_def log_current_term_def)
    from l E g True l' v show ?thesis
      by (auto simp: handle_request_vote_def scope_def bind_def lock_log_free gets_def Let_def
          modify_def on_log_run send_request_vote_response_eq request_vote_reply_def intro!: exI [of _ l'])
  qed
qed

section \<open>Appending\<close>

text \<open>Entries with the indices \<open>i + 1, i + 2, \<dots>\<close>: what a leader sends after \<open>prev_log_index = i\<close>.\<close>

fun consecutive :: "u64 \<Rightarrow> log_entry list \<Rightarrow> bool" where
  "consecutive i [] \<longleftrightarrow> True"
| "consecutive i (e # es) \<longleftrightarrow> i \<noteq> - 1 \<and> index e = i + 1 \<and> consecutive (index e) es"

lemma consecutive_fits: "consecutive i es \<Longrightarrow> i \<le> b \<Longrightarrow> fits b es"
proof (induction es arbitrary: i b)
  case Nil
  then show ?case by simp
next
  case (Cons e es)
  then have e: "i \<noteq> - 1" "index e = i + 1" "consecutive (i + 1) es" by auto
  then have "0 < index e" using less_plus_one_iff [of i 0] by simp
  moreover have "index e \<le> b \<or> (b \<noteq> - 1 \<and> index e = b + 1)"
    using e(1,2) Cons.prems(2) plus_one_le [of i b] by (cases "i = b") auto
  moreover have "fits (max b (index e)) es" using e(2,3) by (intro Cons.IH [of "index e"]) simp_all
  ultimately show ?case by simp
qed

lemma consecutive_less: "consecutive i es \<Longrightarrow> e \<in> set es \<Longrightarrow> i < index e"
proof (induction es arbitrary: i)
  case Nil
  then show ?case by simp
next
  case (Cons x es)
  then have "i < index x" using less_plus_one_iff [of i i] by simp
  with Cons show ?case by (auto intro: less_trans)
qed

lemma consecutive_distinct: "consecutive i es \<Longrightarrow> distinct (map index es)"
  by (induction es arbitrary: i) (auto dest: consecutive_less)

text \<open>The log a follower ends up with, as a function of memory alone.\<close>

definition cut_log :: "log_entry list \<Rightarrow> raft_log \<Rightarrow> raft_log" where
  "cut_log es l = (case first_conflict l es of None \<Rightarrow> l | Some e \<Rightarrow> mem_truncate (index e) l)"

definition merge_log :: "log_entry list \<Rightarrow> raft_log \<Rightarrow> raft_log" where
  "merge_log es l = fold mem_insert es (cut_log es l)"

lemma merge_log_Nil [simp]: "merge_log [] l = l"
  by (simp add: merge_log_def cut_log_def first_conflict_def)

lemma find_in: "find P xs = Some x \<Longrightarrow> x \<in> set xs \<and> P x"
  by (induction xs) (auto split: if_splits)

lemma first_conflict_Some:
  assumes "first_conflict l es = Some e"
  shows "e \<in> set es" "\<exists>x. entries l (index e) = Some x \<and> entry_term x \<noteq> entry_term e"
  using find_in [OF assms [unfolded first_conflict_def]]
  by (auto simp: term_at_def split: option.splits)

lemma delete_conflicting_synced:
  assumes "serde_ok E" "synced E l" "consecutive i es" "i \<le> last_index l"
  shows "\<exists>l'. delete_conflicting E es l = (Ret (), l') \<and> synced E l' \<and>
    log_view l' = log_view (cut_log es l) \<and> i \<le> last_index l'"
proof (cases "first_conflict l es")
  case None
  then show ?thesis using assms
    by (auto simp: delete_conflicting_def bind_def gets_def ret_def cut_log_def)
next
  case (Some e)
  have e: "e \<in> set es" "\<exists>x. entries l (index e) = Some x"
    using first_conflict_Some [OF Some] by auto
  have wf: "log_wf l" using assms(2) by (simp add: synced_def)
  have ok: "log_op_ok l (TruncateFrom (index e))"
    using e(2) log_wf_le [OF wf] by auto
  have lt: "i < index e" using consecutive_less [OF assms(3) e(1)] .
  then have "i \<le> saturating_sub (index e) 1"
    by (simp add: word_le_nat_alt word_less_nat_alt unat_saturating_sub)
  with Some synced_truncate_from [OF assms(1,2) ok] show ?thesis
    by (auto simp: delete_conflicting_def bind_def gets_def cut_log_def log_view_def mem_truncate_def)
qed

lemma append_synced:
  assumes "serde_ok E" "synced E l" "consecutive i es" "i \<le> last_index l" "list_all entry_ok es"
  shows "\<exists>l1 l2. delete_conflicting E es l = (Ret (), l1) \<and> append_entries E es l1 = (Ret (), l2) \<and>
    synced E l2 \<and> log_view l2 = log_view (merge_log es l)"
proof -
  from delete_conflicting_synced [OF assms(1-4)] obtain l1 where l1:
    "delete_conflicting E es l = (Ret (), l1)" "synced E l1" "log_view l1 = log_view (cut_log es l)"
    "i \<le> last_index l1" by blast
  from synced_append_entries [OF assms(1) l1(2) consecutive_fits [OF assms(3) l1(4)] assms(5)]
  have a: "append_entries E es l1 = (Ret (), fold mem_insert es (put_lines E es l1))"
    "synced E (fold mem_insert es (put_lines E es l1))" by auto
  have "log_view (fold mem_insert es (put_lines E es l1)) = log_view (merge_log es l)"
    using l1(3) fold_mem_insert_cong [of "put_lines E es l1" "cut_log es l" es]
    by (simp add: log_view_def merge_log_def)
  with l1 a show ?thesis by blast
qed

lemma merge_when:
  assumes "serde_ok E" "synced E (log s)" "consecutive i es" "i \<le> last_index (log s)" "list_all entry_ok es"
  shows "\<exists>l. when_op (es \<noteq> []) (seq (on_log (delete_conflicting E es)) (on_log (append_entries E es))) s =
      (Ret (), s\<lparr>log := l\<rparr>) \<and> synced E l \<and> log_view l = log_view (merge_log es (log s))"
proof (cases "es = []")
  case True
  with assms(2) show ?thesis by (auto simp: when_op_def ret_def intro!: exI [of _ "log s"])
next
  case False
  from append_synced [OF assms] obtain l1 l2 where
    "delete_conflicting E es (log s) = (Ret (), l1)" "append_entries E es l1 = (Ret (), l2)"
    "synced E l2" "log_view l2 = log_view (merge_log es (log s))" by blast
  with False show ?thesis by (auto simp: when_op_def bind_def zoom_def)
qed

definition follower_state :: "raft_log \<Rightarrow> append_entries_request \<Rightarrow> node \<Rightarrow> node" where
  "follower_state l req s = s\<lparr>log := l,
     role := (if node_term s < ae_term req then Follower else role s),
     last_heartbeat := clock s, leader_id := Some (ae_leader_id req),
     commit_index := (if commit_index s < leader_commit req
                      then min (leader_commit req) (last_index l) else commit_index s)\<rparr>"

lemma append_entries_accept:
  assumes ok: "node_ok E s" and t: "node_term s \<le> ae_term req"
    and prev: "prev_log_index req = 0 \<or> has_entry (log s) (prev_log_index req) (prev_log_term req)"
    and es: "consecutive (prev_log_index req) (ae_entries req)" "list_all entry_ok (ae_entries req)"
  shows "\<exists>l. handle_append_entries E from req s =
      (Ret (), (apply_result_of (follower_state l req s))
        \<lparr>outgoing := outgoing s @ [append_entries_reply E (follower_state l req s) from (node_term s) True]\<rparr>) \<and>
    synced E l \<and> entries l = entries (merge_log (ae_entries req) (log s)) \<and>
    last_index l = last_index (merge_log (ae_entries req) (log s)) \<and> log_current_term l = ae_term req"
proof -
  let ?s = "s\<lparr>log_locked := True\<rparr>" and ?es = "ae_entries req"
  have E: "serde_ok E" "synced E (log ?s)" "node_term ?s \<le> ae_term req" "\<not> log_locked s"
    using ok t by (simp_all add: node_ok_def)
  from adopt_term [OF E(1-3)] obtain l where l:
    "when_op (node_term ?s < ae_term req) (seq (on_log (set_current_term E (ae_term req)))
        (modify (\<lambda>s. s\<lparr>role := Follower\<rparr>))) ?s =
      (Ret (), ?s\<lparr>log := l, role := (if node_term ?s < ae_term req then Follower else role ?s)\<rparr>)"
    "synced E l" "entries l = entries (log s)" "last_index l = last_index (log s)"
    "log_current_term l = ae_term req"
    by (auto simp: log_view_def)
  have h: "has_entry l i t = has_entry (log s) i t" for i t
    using l(3) by (simp add: has_entry_def)
  have "log_wf (log s)" using E(2) by (simp add: synced_def)
  then have pl: "prev_log_index req \<le> last_index l"
    using prev l(4) by (auto simp: has_entry_def split: option.splits dest: log_wf_le)
  let ?s1 = "?s\<lparr>log := l, role := (if node_term ?s < ae_term req then Follower else role ?s),
      last_heartbeat := clock s, leader_id := Some (ae_leader_id req)\<rparr>"
  have "synced E (log ?s1)" "prev_log_index req \<le> last_index (log ?s1)" using l(2) pl by simp_all
  from merge_when [OF E(1) this(1) es(1) this(2) es(2)] obtain l2 where l2:
    "when_op (?es \<noteq> []) (seq (on_log (delete_conflicting E ?es)) (on_log (append_entries E ?es))) ?s1 =
      (Ret (), ?s1\<lparr>log := l2\<rparr>)" "synced E l2" "log_view l2 = log_view (merge_log ?es l)"
    by auto
  have "persistent (merge_log ?es l) = persistent l"
    by (simp add: merge_log_def cut_log_def mem_truncate_def split: option.splits)
  moreover have "entries (merge_log ?es l) = entries (merge_log ?es (log s)) \<and>
      last_index (merge_log ?es l) = last_index (merge_log ?es (log s))"
  proof -
    have "first_conflict l ?es = first_conflict (log s) ?es"
      using l(3) by (simp add: first_conflict_def term_at_def)
    then have "entries (cut_log ?es l) = entries (cut_log ?es (log s)) \<and>
        last_index (cut_log ?es l) = last_index (cut_log ?es (log s))"
      using l(3,4) by (cases "first_conflict (log s) ?es") (simp_all add: cut_log_def mem_truncate_def fun_eq_iff)
    then show ?thesis unfolding merge_log_def using fold_mem_insert_cong [of "cut_log ?es l" "cut_log ?es (log s)" ?es] by simp
  qed
  ultimately have v: "entries l2 = entries (merge_log ?es (log s))"
      "last_index l2 = last_index (merge_log ?es (log s))" "log_current_term l2 = ae_term req"
    using l2(3) l(5) by (auto simp: log_view_def log_current_term_def)
  have "handle_append_entries E from req s = (Ret (), (apply_result_of (follower_state l2 req s))
        \<lparr>outgoing := outgoing s @ [append_entries_reply E (follower_state l2 req s) from (node_term s) True]\<rparr>)"
    using l(1) l2(1) prev E(3,4)
    by (auto simp: handle_append_entries_def scope_def bind_def lock_log_free gets_def modify_def h
        drop_log_def update_commit_def apply_committed_free send_append_entries_response_free
        follower_state_def append_entries_reply_def apply_result_of_eq)
  with l2(2) v show ?thesis by blast
qed

end
