(* ===== verification/Node_Leader.thy ===== *)
theory Node_Leader
  imports Node_Handlers
begin

text \<open>
  The other half of the protocol: elections seen from the candidate, and replication seen from the
  leader, as equations on every branch, with the parts of the state they change.
\<close>

section \<open>Counting votes\<close>

definition with_vote :: "string \<Rightarrow> node \<Rightarrow> node" where
  "with_vote from s = (if from \<in> set (votes_received s) then s
                       else s\<lparr>votes_received := votes_received s @ [from]\<rparr>)"

text \<open>The test the handler makes: the votes received, the node's own among them, and one more.\<close>

definition wins :: "node \<Rightarrow> bool" where
  "wins s \<longleftrightarrow> majority s \<le> length (votes_received s) + 1"

lemma with_vote_simps [simp]:
  "log_locked (with_vote from s) = log_locked s" "log (with_vote from s) = log s"
  "role (with_vote from s) = role s" "peers (with_vote from s) = peers s"
  "majority (with_vote from s) = majority s"
  by (simp_all add: with_vote_def majority_def)

lemma majority_locked [simp]: "majority (s\<lparr>log_locked := b\<rparr>) = majority s"
  by (simp add: majority_def)

lemma vote_response_ignored:
  assumes "\<not> log_locked s" "role s \<noteq> Candidate \<or> (rvr_term resp \<le> node_term s \<and> \<not> vote_granted resp)"
  shows "handle_request_vote_response E from resp s = (Ret (), s)"
  using assms
  by (auto simp: handle_request_vote_response_def scope_def bind_def lock_log_free gets_def ret_def)

lemma vote_response_granted:
  assumes "\<not> log_locked s" "role s = Candidate" "rvr_term resp \<le> node_term s" "vote_granted resp"
  shows "handle_request_vote_response E from resp s =
    (Ret (), if wins (with_vote from s) then broadcast E (leader_state (with_vote from s))
             else with_vote from s)"
proof -
  define t where "t = with_vote from s"
  have u: "\<not> log_locked t" using assms(1) by (simp add: t_def)
  have r: "(broadcast E (leader_state t))\<lparr>log_locked := False\<rparr> = broadcast E (leader_state t)"
    using u by simp
  have m: "modify (\<lambda>s. if from \<in> set (votes_received s) then s
        else s\<lparr>votes_received := votes_received s @ [from]\<rparr>) (s\<lparr>log_locked := True\<rparr>) =
      (Ret (), t\<lparr>log_locked := True\<rparr>)"
    by (simp add: modify_def t_def with_vote_def)
  have "handle_request_vote_response E from resp s =
      (Ret (), if wins t then broadcast E (leader_state t) else t)"
    using assms u m r become_leader_free [OF u, of E]
    by (simp add: handle_request_vote_response_def scope_def bind_def lock_log_free gets_def ret_def
        drop_log_def wins_def modify_def [of "\<lambda>s. s\<lparr>log_locked := False\<rparr>"] not_less [symmetric])
  then show ?thesis by (simp add: t_def)
qed

lemma vote_response_newer:
  assumes "node_ok E s" "role s = Candidate" "node_term s < rvr_term resp"
  shows "\<exists>l. handle_request_vote_response E from resp s = (Ret (), s\<lparr>log := l, role := Follower\<rparr>) \<and>
    synced E l \<and> log_view l = (entries (log s), \<lparr>current_term = rvr_term resp, voted_for = None\<rparr>, last_index (log s))"
proof -
  have E: "serde_ok E" "synced E (log s)" "\<not> log_locked s" using assms(1) by (simp_all add: node_ok_def)
  from synced_set_current_term [OF E(1,2), of "rvr_term resp"] obtain l where
    "set_current_term E (rvr_term resp) (log s) = (Ret (), l)" "synced E l"
    "log_view l = (entries (log s), \<lparr>current_term = rvr_term resp, voted_for = None\<rparr>, last_index (log s))"
    by blast
  with assms(2,3) E(3) show ?thesis
    by (auto simp: handle_request_vote_response_def scope_def bind_def lock_log_free gets_def
        drop_log_def modify_def lock_log_def on_log_run)
qed

section \<open>Standing for election\<close>

definition campaign :: "'e serde_scheme \<Rightarrow> node \<Rightarrow> u64 \<Rightarrow> string \<Rightarrow> message_envelope" where
  "campaign E s t p = new_envelope E (node_id s) p (RequestVote (vote_request E s t))"

definition candidate_state :: "'e serde_scheme \<Rightarrow> raft_log \<Rightarrow> node \<Rightarrow> node" where
  "candidate_state E l s = s\<lparr>log := l, role := Candidate, votes_received := [node_id s],
     last_heartbeat := clock s,
     outgoing := outgoing s @ map (campaign E s (node_term s + 1)) (hm_keys (peers s))\<rparr>"

lemma vote_request_frame:
  assumes "node_id s' = node_id s" "entries (log s') = entries (log s)" "last_index (log s') = last_index (log s)"
  shows "vote_request E s' t = vote_request E s t"
  using assms by (simp add: vote_request_def last_term_def)

lemma start_election_ok:
  assumes "node_ok E s"
  shows "\<exists>l. start_election E s =
      (Ret (), if hm_keys (peers s) = [] then broadcast E (leader_state (candidate_state E l s))
               else candidate_state E l s) \<and>
    synced E l \<and> log_view l = (entries (log s),
      \<lparr>current_term = node_term s + 1, voted_for = Some (push_str E 64 (node_id s))\<rparr>, last_index (log s))"
proof -
  have E: "serde_ok E" "synced E (log s)" "\<not> log_locked s" using assms by (simp_all add: node_ok_def)
  let ?t = "node_term s + 1"
  from synced_set_current_term [OF E(1,2), of ?t] obtain l1 where l1:
    "set_current_term E ?t (log s) = (Ret (), l1)" "synced E l1"
    "log_view l1 = (entries (log s), \<lparr>current_term = ?t, voted_for = None\<rparr>, last_index (log s))" by blast
  from synced_set_voted_for [OF E(1) l1(2), of "Some (node_id s)"] obtain l where l:
    "set_voted_for E (Some (node_id s)) l1 = (Ret (), l)" "synced E l"
    "log_view l = (entries (log s), \<lparr>current_term = ?t, voted_for = Some (push_str E 64 (node_id s))\<rparr>, last_index (log s))"
    using l1(3) by (auto simp: log_view_def)
  let ?s = "s\<lparr>log_locked := True, log := l, role := Candidate, votes_received := [node_id s],
    last_heartbeat := clock s\<rparr>"
  have q: "vote_request E ?s ?t = vote_request E s ?t"
    using l(3) by (intro vote_request_frame) (simp_all add: log_view_def)
  have se: "for_each ps (\<lambda>p. bind (gets (\<lambda>s. new_envelope E (node_id s) p (RequestVote r))) send_envelope) t =
      (Ret (), t\<lparr>outgoing := outgoing t @ map (\<lambda>p. new_envelope E (node_id t) p (RequestVote r)) ps\<rparr>)" for ps t r
    using send_each [of "\<lambda>p s. new_envelope E (node_id s) p (RequestVote r)" ps t] by simp
  have c: "?s\<lparr>outgoing := outgoing s @ map (campaign E s ?t) (hm_keys (peers s)), log_locked := False\<rparr> =
      candidate_state E l s"
    using E(3) by (simp add: candidate_state_def)
  have u: "\<not> log_locked (candidate_state E l s)" using E(3) by (simp add: candidate_state_def)
  note b = become_leader_free [OF u, of E]
  have r: "(broadcast E (leader_state (candidate_state E l s)))\<lparr>log_locked := False\<rparr> =
      broadcast E (leader_state (candidate_state E l s))"
    using u by simp
  have n: "s\<lparr>log := l, role := Candidate, votes_received := [node_id s], last_heartbeat := clock s\<rparr> =
      candidate_state E l s" if "hm_keys (peers s) = []"
    using that by (simp add: candidate_state_def)
  have "start_election E s =
      (Ret (), if hm_keys (peers s) = [] then broadcast E (leader_state (candidate_state E l s))
               else candidate_state E l s)"
    using E(3) l1(1) l(1) q b r c n u
    by (cases "hm_keys (peers s) = []") (simp_all add: start_election_def scope_def bind_def lock_log_free gets_def modify_def on_log_run se
        drop_log_def ret_def campaign_def [abs_def])
  with l(2,3) show ?thesis by blast
qed

section \<open>Replication at the leader\<close>

definition record_match :: "string \<Rightarrow> u64 \<Rightarrow> node \<Rightarrow> node" where
  "record_match from i s = s\<lparr>match_index := hm_insert from i (match_index s),
                             next_index := hm_insert from (i + 1) (next_index s)\<rparr>"

definition back_off :: "string \<Rightarrow> node \<Rightarrow> node" where
  "back_off from s = (case hm_get (next_index s) from of
       None \<Rightarrow> s
     | Some i \<Rightarrow> s\<lparr>next_index := hm_insert from (max (saturating_sub i 1) 1) (next_index s)\<rparr>)"

definition advanced :: "node \<Rightarrow> node" where
  "advanced s = (case commit_candidate s of None \<Rightarrow> s | Some n \<Rightarrow> committed_at n s)"

lemma record_match_simps [simp]:
  "log_locked (record_match from i s) = log_locked s" "role (record_match from i s) = role s"
  "log (record_match from i s) = log s" "pending_requests (record_match from i s) = pending_requests s"
  "peers (record_match from i s) = peers s" "commit_index (record_match from i s) = commit_index s"
  by (simp_all add: record_match_def)

lemma advanced_locked [simp]: "log_locked (advanced s) = log_locked s"
  by (simp add: advanced_def committed_at_def notified_def apply_result_of_eq split: option.split)

lemma append_response_ignored:
  assumes "\<not> log_locked s" "role s \<noteq> Leader"
  shows "handle_append_entries_response E from resp s = (Ret (), s)"
  using assms
  by (simp add: handle_append_entries_response_def scope_def bind_def lock_log_free gets_def ret_def)

lemma append_response_success:
  assumes "\<not> log_locked s" "role s = Leader" "aer_term resp \<le> node_term s" "success resp"
    "hm_wf (pending_requests s)"
  shows "handle_append_entries_response E from resp s =
    (Ret (), advanced (record_match from (aer_last_log_index resp) s))"
proof -
  let ?s = "record_match from (aer_last_log_index resp) s"
  have m: "(s\<lparr>log_locked := True, match_index := hm_insert from (aer_last_log_index resp) (match_index s),
      next_index := hm_insert from (aer_last_log_index resp + 1) (next_index s), log_locked := False\<rparr>) = ?s"
    using assms(1) by (cases s) (simp add: record_match_def)
  have t: "try_advance_commit_index ?s = (Ret (), advanced ?s)"
    using assms unfolding advanced_def by (intro try_advance_leader) simp_all
  have r: "(advanced ?s)\<lparr>log_locked := False\<rparr> = advanced ?s"
    using assms(1) by simp
  show ?thesis
    using assms
    by (simp add: handle_append_entries_response_def scope_def bind_def lock_log_free gets_def
        modify_def drop_log_def m t r not_less [symmetric])
qed

lemma append_response_failure:
  assumes "\<not> log_locked s" "role s = Leader" "aer_term resp \<le> node_term s" "\<not> success resp"
  shows "handle_append_entries_response E from resp s = (Ret (), back_off from s)"
  using assms
  by (cases "hm_get (next_index s) from")
    (simp_all add: handle_append_entries_response_def scope_def bind_def lock_log_free gets_def
      modify_def back_off_def not_less [symmetric])

lemma append_response_newer:
  assumes "node_ok E s" "role s = Leader" "node_term s < aer_term resp"
  shows "\<exists>l. handle_append_entries_response E from resp s = (Ret (), s\<lparr>log := l, role := Follower\<rparr>) \<and>
    synced E l \<and> log_view l = (entries (log s), \<lparr>current_term = aer_term resp, voted_for = None\<rparr>, last_index (log s))"
proof -
  have E: "serde_ok E" "synced E (log s)" "\<not> log_locked s" using assms(1) by (simp_all add: node_ok_def)
  from synced_set_current_term [OF E(1,2), of "aer_term resp"] obtain l where
    "set_current_term E (aer_term resp) (log s) = (Ret (), l)" "synced E l"
    "log_view l = (entries (log s), \<lparr>current_term = aer_term resp, voted_for = None\<rparr>, last_index (log s))"
    by blast
  with assms(2,3) E(3) show ?thesis
    by (auto simp: handle_append_entries_response_def scope_def bind_def lock_log_free gets_def
        drop_log_def modify_def lock_log_def on_log_run)
qed

section \<open>Proposals\<close>

lemma propose_redirect:
  assumes "role s \<noteq> Leader"
  shows "propose E c tx s = (Ret (), s\<lparr>replies := replies s @ [(tx, NotLeader (leader_id s))]\<rparr>)"
  using assms by (simp add: propose_def scope_def bind_def gets_def reply_to_def modify_def)

definition proposed :: "'e serde_scheme \<Rightarrow> command \<Rightarrow> nat \<Rightarrow> node \<Rightarrow> node" where
  "proposed E c tx s =
     (let i = last_index (log s) + 1; e = \<lparr>index = i, entry_term = node_term s, command = c\<rparr>
      in s\<lparr>log := mem_insert e (put_lines E [e] (log s)),
           pending_requests := hm_insert i tx (pending_requests s)\<rparr>)"

lemma propose_leader:
  assumes "node_ok E s" "role s = Leader" "last_index (log s) \<noteq> - 1" "command_ok c"
  shows "propose E c tx s = (Ret (), broadcast E (proposed E c tx s)) \<and> synced E (log (proposed E c tx s))"
proof -
  have E: "serde_ok E" "synced E (log s)" "\<not> log_locked s" using assms(1) by (simp_all add: node_ok_def)
  note a = synced_log_append [OF E(1,2) assms(3,4), of "node_term s"]
  have u: "role (proposed E c tx s) = Leader" "\<not> log_locked (proposed E c tx s)"
    using assms(2) E(3) by (simp_all add: proposed_def Let_def)
  note h = send_heartbeats_leader [OF u, of E]
  have r: "(broadcast E (proposed E c tx s))\<lparr>log_locked := False\<rparr> = broadcast E (proposed E c tx s)"
    using u by simp
  have p: "s\<lparr>log_locked := True,
      log := mem_insert \<lparr>index = last_index (log s) + 1, entry_term = node_term s, command = c\<rparr>
        (put_lines E [\<lparr>index = last_index (log s) + 1, entry_term = node_term s, command = c\<rparr>] (log s)),
      log_locked := False, pending_requests := hm_insert (last_index (log s) + 1) tx (pending_requests s)\<rparr> =
      proposed E c tx s"
    using E(3) by (cases s) (simp add: proposed_def Let_def)
  show ?thesis
    using assms(2) E(3) a h r p
    by (simp add: propose_def scope_def bind_def gets_def lock_log_free on_log_run drop_log_def
        modify_def broadcast_def proposed_def Let_def)
qed

end
