(* ===== verification/Reference_Codec.thy ===== *)
theory Reference_Codec
  imports Log_Recovery
begin

text \<open>
  A concrete instance of the third-party parameters \<open>heapless\<close> and \<open>serde\<close> that satisfies the laws
  assumed of them.  The text format is a list of numbers in unary, each closed by a comma; only the
  laws matter.  Concrete runs use it.
\<close>

definition nats_text :: "nat list \<Rightarrow> string" where
  "nats_text ns = concat (map (\<lambda>n. replicate n (CHR ''1'') @ '','') ns)"

fun text_nats :: "nat \<Rightarrow> string \<Rightarrow> nat list" where
  "text_nats k [] = []"
| "text_nats k (c # cs) = (if c = CHR ''1'' then text_nats (Suc k) cs else k # text_nats 0 cs)"

lemma text_nats_unary: "text_nats k (replicate n (CHR ''1'') @ CHR '','' # cs) = (k + n) # text_nats 0 cs"
  by (induction n arbitrary: k) simp_all

lemma text_nats_text: "text_nats 0 (nats_text ns) = ns"
  by (induction ns) (simp_all add: nats_text_def text_nats_unary)

lemma set_nats_text: "set (nats_text ns) \<subseteq> {CHR ''1'', CHR '',''}"
  by (auto simp: nats_text_def)

lemma nats_text_nonempty: "ns \<noteq> [] \<Longrightarrow> nats_text ns \<noteq> []"
  by (cases ns) (simp_all add: nats_text_def)

definition opt_nats :: "nat list option \<Rightarrow> nat list" where
  "opt_nats x = (case x of None \<Rightarrow> [0] | Some xs \<Rightarrow> 1 # length xs # xs)"

fun nats_opt :: "nat list \<Rightarrow> nat list option \<times> nat list" where
  "nats_opt (Suc _ # n # rest) = (Some (take n rest), drop n rest)"
| "nats_opt ns = (None, drop 1 ns)"

lemma nats_opt_nats: "nats_opt (opt_nats x @ rest) = (x, rest)"
  by (cases x) (auto simp: opt_nats_def split: list.splits)

definition string_nats :: "string \<Rightarrow> nat list" where "string_nats s = map of_char s"
definition nats_string :: "nat list \<Rightarrow> string" where "nats_string ns = map char_of ns"

lemma nats_string_nats [simp]: "nats_string (string_nats s) = s"
  by (simp add: nats_string_def string_nats_def comp_def)

lemma bytes_nats [simp]: "map word_of_nat (map unat v) = (v :: u8 list)"
  by (simp add: comp_def)

definition entry_nats :: "disk_log_entry \<Rightarrow> nat list" where
  "entry_nats d = [unat (d_index d), unat (d_term d)] @
     opt_nats (Some (string_nats (command_type d))) @
     opt_nats (map_option string_nats (d_key d)) @ opt_nats (map_option (map unat) (d_value d))"

fun nats_entry :: "nat list \<Rightarrow> disk_log_entry option" where
  "nats_entry (i # t # rest) =
     (let (ct, r1) = nats_opt rest; (k, r2) = nats_opt r1; (v, r3) = nats_opt r2
      in Some \<lparr>d_index = word_of_nat i, d_term = word_of_nat t,
               command_type = nats_string (case ct of None \<Rightarrow> [] | Some c \<Rightarrow> c),
               d_key = map_option nats_string k, d_value = map_option (map word_of_nat) v\<rparr>)"
| "nats_entry _ = None"

lemma nats_entry_nats: "nats_entry (entry_nats d) = Some d"
proof -
  have "nats_opt (opt_nats (map_option (map unat) v)) = (map_option (map unat) v, [])" for v :: "u8 list option"
    using nats_opt_nats [of _ "[]"] by simp
  then show ?thesis
    by (simp add: entry_nats_def nats_opt_nats option.map_comp comp_def option.map_ident)
qed

definition state_nats :: "persistent_state \<Rightarrow> nat list" where
  "state_nats p = unat (current_term p) # opt_nats (map_option string_nats (voted_for p))"

fun nats_state :: "nat list \<Rightarrow> persistent_state option" where
  "nats_state (t # rest) =
     Some \<lparr>current_term = word_of_nat t, voted_for = map_option nats_string (fst (nats_opt rest))\<rparr>"
| "nats_state [] = None"

lemma nats_state_nats: "nats_state (state_nats p) = Some p"
  using nats_opt_nats [of "map_option string_nats (voted_for p)" "[]"]
  by (simp add: state_nats_def option.map_comp comp_def option.map_ident)

definition serde_ref :: serde where
  "serde_ref = \<lparr>push_str = (\<lambda>n s. if length s \<le> n then s else []),
     vec_push = (\<lambda>n v b. if length v < n then v @ [b] else v),
     state_to_json = (\<lambda>p. Some (nats_text (state_nats p))),
     state_from_json = (\<lambda>j. nats_state (text_nats 0 j)),
     entry_to_json = (\<lambda>d. Some (nats_text (entry_nats d))),
     entry_from_json = (\<lambda>j. nats_entry (text_nats 0 j))\<rparr>"

lemma heapless_serde_ref: "heapless_ok serde_ref"
  by (simp add: heapless_ok_def serde_ref_def)

lemma serde_ref_ok: "serde_ok serde_ref"
proof -
  have "LF \<notin> set (nats_text ns)" "CR \<notin> set (nats_text ns)" for ns
    using set_nats_text [of ns] by (auto simp: LF_def CR_def)
  moreover have "nats_text (entry_nats d) \<noteq> []" for d
    by (rule nats_text_nonempty) (simp add: entry_nats_def)
  ultimately show ?thesis
    using heapless_serde_ref
    by (simp add: serde_ok_def serde_ref_def text_nats_text nats_entry_nats nats_state_nats)
qed

lemma push_str_ref [simp]: "push_str serde_ref n s = (if length s \<le> n then s else [])"
  by (simp add: serde_ref_def)

text \<open>A freshly opened log, and logs grown from it by operations, are in step with their files.\<close>

definition fresh_log :: raft_log where
  "fresh_log = \<lparr>data_dir = \<lparr>state_json = None, log_jsonl = Some [], log_tmp = None, faults = []\<rparr>,
     entries = Map.empty, persistent = default_persistent_state, last_index = 0, log_file = LogFile\<rparr>"

lemma fresh_log_synced: "synced E fresh_log"
proof -
  have "log_jsonl (data_dir fresh_log) = Some (disk_text E []) \<and> list_all entry_ok [] \<and>
      entries (replay []) = entries fresh_log \<and> last_index (replay []) = last_index fresh_log"
    by (simp add: fresh_log_def replay_def empty_log_def)
  moreover have "log_wf fresh_log"
    by (auto simp: log_wf_def fresh_log_def)
  ultimately show ?thesis
    unfolding synced_def
    by (auto simp: quiet_def state_ok_def default_persistent_state_def state_on_disk_def
        fresh_log_def intro!: exI [of _ "[]"])
qed

lemma new_raft_log_fresh:
  "new_raft_log E \<lparr>state_json = None, log_jsonl = None, log_tmp = None, faults = []\<rparr> = (Ret (), fresh_log)"
  by (simp add: new_raft_log_def load_from_disk_def open_log_def run_simps io_call_def take_fault_def
      append_text_def fresh_log_def)

definition grown_log :: "log_op list \<Rightarrow> raft_log" where
  "grown_log ops = fold (run_log_op serde_ref) ops fresh_log"

fun view_ok :: "log_view \<Rightarrow> log_op \<Rightarrow> bool" where
  "view_ok (m, p, n) (AppendCmd t c) \<longleftrightarrow> n \<noteq> - 1 \<and> command_ok c"
| "view_ok (m, p, n) (AppendAll es) \<longleftrightarrow> fits n es \<and> list_all entry_ok es"
| "view_ok (m, p, n) (TruncateFrom b) \<longleftrightarrow> 0 < b \<and> (b \<le> n \<or> (n \<noteq> - 1 \<and> b = n + 1))"
| "view_ok v x \<longleftrightarrow> True"

lemma view_ok_log_view: "view_ok (log_view l) x = log_op_ok l x"
  by (cases x) (simp_all add: log_view_def)

lemma run_ops_view:
  "serde_ok E \<Longrightarrow> synced E l \<Longrightarrow> all_ok (view_op E) view_ok (log_view l) ops \<Longrightarrow>
   synced E (fold (run_log_op E) ops l) \<and>
   log_view (fold (run_log_op E) ops l) = fold (view_op E) ops (log_view l)"
proof (induction ops arbitrary: l)
  case Nil
  then show ?case by simp
next
  case (Cons x ops)
  then have x: "log_op_ok l x" by (simp add: view_ok_log_view)
  with Cons.prems Cons.IH [of "run_log_op E x l"] show ?case
    by (simp add: synced_run_log_op run_log_op_view)
qed

definition fresh_view :: log_view where
  "fresh_view = (Map.empty, default_persistent_state, 0)"

lemma grown_log:
  assumes "all_ok (view_op serde_ref) view_ok fresh_view ops"
  shows "synced serde_ref (grown_log ops)"
    and "log_view (grown_log ops) = fold (view_op serde_ref) ops fresh_view"
proof -
  have "log_view fresh_log = fresh_view" by (simp add: log_view_def fresh_view_def fresh_log_def)
  then show "synced serde_ref (grown_log ops)"
    and "log_view (grown_log ops) = fold (view_op serde_ref) ops fresh_view"
    using run_ops_view [OF serde_ref_ok fresh_log_synced] assms by (simp_all add: grown_log_def)
qed

end
