(* ===== verification/Log_Properties.thy ===== *)
theory Log_Properties
  imports Reference_Codec
begin

text \<open>
  What the log promises the node and the operator: a restart finds what memory held, the operations
  refine those of an abstract log, and what becomes of a log whose system calls fail.
\<close>

section \<open>Concrete logs\<close>

definition sample_ops :: "log_op list" where
  "sample_ops = [SetTerm 1, SetVote (Some ''n1''), AppendCmd 1 (Put ''k'' [1]), AppendCmd 1 Noop,
     TruncateFrom 2,
     AppendAll [\<lparr>index = 2, entry_term = 2, command = Delete ''k''\<rparr>,
                \<lparr>index = 3, entry_term = 2, command = Noop\<rparr>]]"

lemma sat_sub_eval: "saturating_sub 1 1 = 0" "saturating_sub 2 1 = 1" "saturating_sub 3 1 = 2"
  by code_simp+

lemma max_eval: "max 1 2 = (2 :: u64)" "max 2 3 = (3 :: u64)" "max 0 1 = (1 :: u64)"
  by code_simp+

lemma sample_ops_ok: "all_ok (view_op serde_ref) view_ok fresh_view sample_ops"
  by (simp add: sample_ops_def fresh_view_def entry_ok_def MAX_KEY_SIZE_def MAX_VALUE_SIZE_def
      sat_sub_eval max_eval)

lemma sample_view:
  "log_view (grown_log sample_ops) =
     ([1 \<mapsto> \<lparr>index = 1, entry_term = 1, command = Put ''k'' [1]\<rparr>,
       2 \<mapsto> \<lparr>index = 2, entry_term = 2, command = Delete ''k''\<rparr>,
       3 \<mapsto> \<lparr>index = 3, entry_term = 2, command = Noop\<rparr>],
      \<lparr>current_term = 1, voted_for = Some ''n1''\<rparr>, 3)"
  by (simp add: grown_log(2) [OF sample_ops_ok])
    (auto simp: sample_ops_def fresh_view_def default_persistent_state_def insert_entry_def
      sat_sub_eval max_eval fun_eq_iff)

lemma all_ok_log_view:
  "serde_ok E \<Longrightarrow> synced E l \<Longrightarrow>
   all_ok (run_log_op E) log_op_ok l ops = all_ok (view_op E) view_ok (log_view l) ops"
  by (induction ops arbitrary: l)
    (auto simp: view_ok_log_view synced_run_log_op run_log_op_view)

lemma fresh_log_view: "log_view fresh_log = fresh_view"
  by (simp add: log_view_def fresh_view_def fresh_log_def)

section \<open>Properties\<close>



text \<open>
  C17: the log refines an abstract log.  Every operation, with its file writes, acts on the memory
  view as the corresponding operation of a map from indices to entries with a last index, a term
  and a vote.
\<close>

lemma log_refines_view:
  assumes "serde_ok E" "synced E l" "log_op_ok l x"
  shows "synced E (run_log_op E x l) \<and> log_view (run_log_op E x l) = view_op E x (log_view l)"
  using assms run_log_op_view synced_run_log_op by blast

lemma log_refines_view_witness:
  "log_view (run_log_op serde_ref (TruncateFrom 3) (grown_log sample_ops)) =
     ([1 \<mapsto> \<lparr>index = 1, entry_term = 1, command = Put ''k'' [1]\<rparr>,
       2 \<mapsto> \<lparr>index = 2, entry_term = 2, command = Delete ''k''\<rparr>],
      \<lparr>current_term = 1, voted_for = Some ''n1''\<rparr>, 2)"
proof -
  have "log_op_ok (grown_log sample_ops) (TruncateFrom 3)"
    using sample_view by (simp add: log_view_def)
  from log_refines_view [OF serde_ref_ok grown_log(1) [OF sample_ops_ok] this]
  show ?thesis by (auto simp: sample_view sat_sub_eval fun_eq_iff)
qed

text \<open>
  C24: a line of \<open>log.jsonl\<close> reads back as the entry it was written from, whatever its command, and
  the lines of a file written entry by entry are exactly those lines.
\<close>

lemma log_file_roundtrip:
  assumes "serde_ok E" "list_all entry_ok es"
  shows "map (\<lambda>line. map_option (disk_entry_to_log_entry E) (entry_from_json E line))
           (lines_of (concat (map (\<lambda>e. the (entry_to_json E (entry_to_disk e)) @ [LF]) es))) = map Some es"
proof -
  have "map (\<lambda>line. map_option (disk_entry_to_log_entry E) (entry_from_json E line)) (map (json_of E) es)
      = map Some es"
    using assms by (auto simp: json_of list_all_iff disk_roundtrip serde_ok_heapless)
  then show ?thesis
    using lines_of_disk_text [OF assms(1), of es] by (simp add: disk_text_def json_of_def)
qed

lemma log_file_roundtrip_witness:
  "map (\<lambda>line. map_option (disk_entry_to_log_entry serde_ref) (entry_from_json serde_ref line))
     (lines_of (concat (map (\<lambda>e. the (entry_to_json serde_ref (entry_to_disk e)) @ [LF])
       [\<lparr>index = 1, entry_term = 1, command = Put ''k'' [7]\<rparr>, \<lparr>index = 2, entry_term = 1, command = Noop\<rparr>])))
   = [Some \<lparr>index = 1, entry_term = 1, command = Put ''k'' [7]\<rparr>,
      Some \<lparr>index = 2, entry_term = 1, command = Noop\<rparr>]"
  using log_file_roundtrip [OF serde_ref_ok, of "[\<lparr>index = 1, entry_term = 1, command = Put ''k'' [7]\<rparr>,
      \<lparr>index = 2, entry_term = 1, command = Noop\<rparr>]"]
  by (simp add: entry_ok_def MAX_KEY_SIZE_def MAX_VALUE_SIZE_def)

section \<open>Failing system calls\<close>

definition with_faults :: "fault list \<Rightarrow> raft_log \<Rightarrow> raft_log" where
  "with_faults fs l = l\<lparr>data_dir := (data_dir l)\<lparr>faults := fs\<rparr>\<rparr>"

lemma lines_of_torn:
  assumes "serde_ok E" "LF \<notin> set t" "t \<noteq> []"
  shows "lines_of (disk_text E es @ t) = map (json_of E) es @ [t]"
proof (induction es)
  case Nil
  have "lines_from acc t = [acc @ t]" if "LF \<notin> set t" "t \<noteq> []" for acc t
    using that
  proof (induction t arbitrary: acc)
    case Nil
    then show ?case by simp
  next
    case (Cons c t)
    then show ?case by (cases t) auto
  qed
  from this [OF assms(2,3), of "[]"] show ?case by (simp add: lines_of_def)
next
  case (Cons e es)
  then show ?case
    using json_of [OF assms(1), of e] by (simp add: lines_of_def lines_from_line strip_cr_id)
qed

lemma for_each_append:
  "for_each (xs @ ys) f s = (case for_each xs f s of (Ret _, s') \<Rightarrow> for_each ys f s' | r \<Rightarrow> r)"
  by (induction xs arbitrary: s) (auto simp: run_simps split: prod.splits res.splits)

text \<open>
  C25: a crash in the middle of an append leaves a data directory that the node cannot start from.
  If only the first \<open>n\<close> bytes of the line reach the file, the append reports the error and memory
  keeps the old entries, but \<open>RaftLog::new\<close> on that directory fails on the torn last line instead of
  dropping it.
\<close>

lemma torn_append_blocks_restart:
  fixes t :: u64
  assumes E: "serde_ok E" and S: "synced E l"
    and line: "entry_to_json E (entry_to_disk \<lparr>index = last_index l + 1, entry_term = t, command = c\<rparr>) = Some line"
    and n: "0 < n" "n < length line" and torn: "entry_from_json E (take n line) = None"
  defines "l' \<equiv> snd (log_append E t c (with_faults [Torn n] l))"
  shows "fst (log_append E t c (with_faults [Torn n] l)) = Fail IoError \<and> entries l' = entries l \<and>
    fst (new_raft_log E (data_dir l')) = Fail JsonError"
proof -
  let ?e = "\<lparr>index = last_index l + 1, entry_term = t, command = c\<rparr>" and ?faulty = "with_faults [Torn n] l"
  let ?l' = "l\<lparr>data_dir := (data_dir l)\<lparr>log_jsonl := append_text (log_jsonl (data_dir l)) (take n line)\<rparr>\<rparr>"
  have q: "faults (data_dir l) = []" "log_file l = LogFile"
    using S by (simp_all add: synced_def quiet_def)
  have a: "log_append E t c ?faulty = (Fail IoError, ?l')"
    using q line n
    by (simp add: log_append_def write_line_def run_simps with_faults_def io_write_def take_fault_def Let_def)
  from S obtain es where es: "log_jsonl (data_dir l) = Some (disk_text E es)" "list_all entry_ok es"
    by (auto simp: synced_def)
  have lf: "LF \<notin> set (take n line)" "take n line \<noteq> []"
    using json_of [OF E, of ?e] line n by (auto dest: in_set_takeD)
  let ?l0 = "\<lparr>data_dir = data_dir ?l', entries = Map.empty, persistent = default_persistent_state,
              last_index = 0, log_file = NoFile\<rparr>"
  let ?l1 = "?l0\<lparr>persistent := persistent l\<rparr>"
  have q0: "quiet ?l0" "quiet ?l1" using q by (simp_all add: quiet_def)
  have io: "on_dir (io_call id) ?l0 = (Ret (), ?l0)" "on_dir (io_call id) ?l1 = (Ret (), ?l1)"
    using on_dir_call_quiet [OF q0(1), of id] on_dir_call_quiet [OF q0(2), of id] by simp_all
  have "state_on_disk E l" using S by (simp add: synced_def)
  note st = load_state [OF this q0(1)]
  let ?l2 = "fold mem_insert es ?l1"
  have q2: "quiet ?l2" using q0(2) by simp
  have io2: "on_dir (io_call id) ?l2 = (Ret (), ?l2)" using on_dir_call_quiet [OF q2, of id] by simp
  have "for_each (lines_of (disk_text E es @ take n line)) (load_line E) ?l1 = (Fail JsonError, ?l2)"
    unfolding lines_of_torn [OF E lf] for_each_append load_lines_quiet [OF E q0(2) es(2)]
    using lf(2) torn io2 by (simp add: load_line_def bind_def from_json_def fail_def)
  moreover have "log_jsonl (data_dir ?l') = Some (disk_text E es @ take n line)"
    by (simp add: es(1) append_text_def)
  ultimately have "fst (new_raft_log E (data_dir ?l')) = Fail JsonError"
    using st io unfolding new_raft_log_def load_from_disk_def
    by (simp add: bind_def gets_def)
  then show ?thesis
    unfolding l'_def a by simp
qed

lemma torn_append_blocks_restart_witness:
  "fst (new_raft_log serde_ref
     (data_dir (snd (log_append serde_ref 1 Noop (with_faults [Torn 1] fresh_log))))) = Fail JsonError"
proof -
  let ?e = "\<lparr>index = last_index fresh_log + 1, entry_term = 1, command = Noop\<rparr> :: log_entry"
  have n: "entry_nats (entry_to_disk ?e) = 1 # 1 # opt_nats (Some (string_nats ''Noop'')) @ [0, 0]"
    by (simp add: entry_nats_def entry_to_disk_def fresh_log_def opt_nats_def)
  obtain rest where r: "nats_text (entry_nats (entry_to_disk ?e)) = CHR ''1'' # CHR '','' # rest"
    unfolding n by (simp add: nats_text_def)
  have line: "entry_to_json serde_ref (entry_to_disk ?e) = Some (CHR ''1'' # CHR '','' # rest)"
    by (simp add: serde_ref_def r)
  have torn: "entry_from_json serde_ref (take 1 (CHR ''1'' # CHR '','' # rest)) = None"
    by (simp add: serde_ref_def)
  show ?thesis
    using torn_append_blocks_restart [OF serde_ref_ok fresh_log_synced line _ _ torn] by simp
qed

text \<open>
  A truncation whose temporary file cannot be created is not undone.  The operation reports the
  error, memory has already dropped the entries and the last index, and the files still hold them,
  so a restart brings them back.
\<close>

lemma refused_truncation_diverges:
  fixes b :: u64
  assumes "serde_ok E" "synced E l"
  defines "l' \<equiv> snd (truncate_from E b (with_faults [Refused] l))"
  shows "fst (truncate_from E b (with_faults [Refused] l)) = Fail IoError \<and>
    entries l' = (\<lambda>i. if i < b then entries l i else None) \<and> log_recover E l' = Some (log_view l)"
proof -
  have q: "faults (data_dir l) = []" using assms(2) by (simp add: synced_def quiet_def)
  then have d: "(data_dir l)\<lparr>faults := []\<rparr> = data_dir l" by (cases "data_dir l") simp
  have "truncate_from E b (with_faults [Refused] l) =
      (Fail IoError, (mem_truncate b l)\<lparr>data_dir := (data_dir l)\<lparr>faults := []\<rparr>\<rparr>)"
    by (simp add: truncate_from_def run_simps io_call_def take_fault_def mem_truncate_def with_faults_def
        cong: if_cong)
  moreover have "(mem_truncate b l)\<lparr>data_dir := data_dir l\<rparr> = mem_truncate b l"
    by (simp add: mem_truncate_def)
  ultimately have a: "truncate_from E b (with_faults [Refused] l) = (Fail IoError, mem_truncate b l)"
    using d by simp
  have "data_dir (mem_truncate b l) = data_dir l" by (simp add: mem_truncate_def)
  then show ?thesis
    using log_recover_synced [OF assms(1,2)]
    by (simp add: a l'_def log_recover_def mem_truncate_def)
qed

lemma refused_truncation_diverges_witness:
  "let l' = snd (truncate_from serde_ref 2 (with_faults [Refused] (grown_log sample_ops))) in
     entries l' 3 = None \<and>
     map_option (\<lambda>(m, p, n). m 3) (log_recover serde_ref l') =
       Some (Some \<lparr>index = 3, entry_term = 2, command = Noop\<rparr>)"
  using refused_truncation_diverges [OF serde_ref_ok grown_log(1) [OF sample_ops_ok], of 2]
  by (simp add: sample_view Let_def)

end
