(* ===== verification/Sample_Nodes.thy ===== *)
theory Sample_Nodes
  imports Node_Leader Reference_Codec Log_Properties
begin

text \<open>
  Concrete nodes on the reference codec, for the concrete runs: a node as \<open>RaftNode::new\<close> makes it,
  and the same node with a log grown by log operations.
\<close>

definition sample_config :: "string \<Rightarrow> string list \<Rightarrow> config" where
  "sample_config n ps = (default_for_testing n 5555)
     \<lparr>cfg_peers := map (\<lambda>p. \<lparr>pc_id = p, pc_address = ''127.0.0.1:5555''\<rparr>) ps\<rparr>"

definition idle_node :: "string \<Rightarrow> string list \<Rightarrow> raft_log \<Rightarrow> node" where
  "idle_node n ps l = \<lparr>node_id = n, config = sample_config n ps, role = Follower, log = l,
     machine = new_state_machine, commit_index = 0, last_applied = 0, leader_id = None,
     peers = initial_peers serde_ref (sample_config n ps), next_index = [], match_index = [],
     votes_received = [], last_heartbeat = 0, outgoing = [], pending_requests = [],
     log_locked = False, clock = 0, replies = []\<rparr>"

lemma new_node_idle: "new_node serde_ref (sample_config n ps) no_files 0 = Inr (idle_node n ps fresh_log)"
  by (simp add: new_node_def new_raft_log_fresh no_files_def idle_node_def sample_config_def
      default_for_testing_def)

lemma idle_node_simps [simp]:
  "node_id (idle_node n ps l) = n" "role (idle_node n ps l) = Follower" "log (idle_node n ps l) = l"
  "commit_index (idle_node n ps l) = 0" "last_applied (idle_node n ps l) = 0"
  "outgoing (idle_node n ps l) = []" "pending_requests (idle_node n ps l) = []"
  "log_locked (idle_node n ps l) = False" "replies (idle_node n ps l) = []"
  "votes_received (idle_node n ps l) = []" "next_index (idle_node n ps l) = []"
  "match_index (idle_node n ps l) = []" "machine (idle_node n ps l) = new_state_machine"
  "clock (idle_node n ps l) = 0" "last_heartbeat (idle_node n ps l) = 0" "leader_id (idle_node n ps l) = None"
  by (simp_all add: idle_node_def)

definition sample_peers :: "string list \<Rightarrow> (string, peer_info) hmap" where
  "sample_peers ps = fold (\<lambda>p. hm_insert p (new_peer_info serde_ref p ''127.0.0.1:5555'')) ps []"

lemma idle_node_peers [simp]: "peers (idle_node n ps l) = sample_peers ps"
  by (simp add: idle_node_def initial_peers_def sample_config_def sample_peers_def fold_map comp_def)

lemma sample_peers_keys: "distinct ps \<Longrightarrow> hm_keys (sample_peers ps) = ps"
proof (induction ps rule: rev_induct)
  case Nil
  then show ?case by (simp add: sample_peers_def)
next
  case (snoc p ps)
  then have ps: "map fst (sample_peers ps) = ps" by (simp add: hm_keys_def)
  have "sample_peers (ps @ [p]) = hm_insert p (new_peer_info serde_ref p ''127.0.0.1:5555'') (sample_peers ps)"
    by (simp add: sample_peers_def)
  moreover have "p \<notin> set (map fst (sample_peers ps))" using snoc.prems ps by simp
  ultimately show ?case using ps by (simp add: hm_insert_def hm_keys_def update_keys)
qed

lemma idle_node_ok: "synced serde_ref l \<Longrightarrow> node_ok serde_ref (idle_node n ps l)"
  by (simp add: node_ok_def serde_ref_ok)

lemma fresh_log_simps [simp]:
  "log_current_term fresh_log = 0" "entries fresh_log = Map.empty" "last_index fresh_log = 0"
  "log_voted_for fresh_log = None" "last_term fresh_log = 0" "persistent fresh_log = \<lparr>current_term = 0, voted_for = None\<rparr>"
  by (simp_all add: log_current_term_def log_voted_for_def last_term_def fresh_log_def default_persistent_state_def)

lemma idle_fresh_ok [simp]: "node_ok serde_ref (idle_node n ps fresh_log)"
  by (rule idle_node_ok) (rule fresh_log_synced)

lemma log_of_view:
  assumes "log_view l = (m, p, n)"
  shows "entries l = m" "last_index l = n" "persistent l = p" "log_current_term l = current_term p"
    "log_voted_for l = voted_for p"
  using assms by (simp_all add: log_view_def log_current_term_def log_voted_for_def)

end
