(* ===== verification/Election_Properties.thy ===== *)
theory Election_Properties
  imports Sample_Nodes
begin

text \<open>
  Elections: who gets a vote, how long it lasts, what is on disk when it is promised, and how many
  votes make a leader.
\<close>

section \<open>Voting\<close>

lemma all_ok_conj: "all_ok run (\<lambda>s x. b \<and> ok s x) s xs \<longleftrightarrow> (xs = [] \<or> b) \<and> all_ok run ok s xs"
  by (induction xs arbitrary: s) auto

definition voter_log :: raft_log where
  "voter_log = grown_log [SetTerm 1, SetVote (Some ''a'')]"

lemma voter_log: "synced serde_ref voter_log"
    "log_view voter_log = (Map.empty, \<lparr>current_term = 1, voted_for = Some ''a''\<rparr>, 0)"
proof -
  have "all_ok (view_op serde_ref) view_ok fresh_view [SetTerm 1, SetVote (Some ''a'')]" by simp
  from grown_log [OF this] show "synced serde_ref voter_log"
    "log_view voter_log = (Map.empty, \<lparr>current_term = 1, voted_for = Some ''a''\<rparr>, 0)"
    by (simp_all add: voter_log_def fresh_view_def default_persistent_state_def)
qed

definition vote_call :: "string \<Rightarrow> string \<Rightarrow> u64 \<Rightarrow> message_envelope" where
  "vote_call from to t = \<lparr>env_from = from, env_to = to, message = RequestVote
     \<lparr>rv_term = t, candidate_id = from, rv_last_log_index = 0, rv_last_log_term = 0\<rparr>\<rparr>"

text \<open>
  C10: a vote is never moved.  Whatever events a node handles, and whichever of its system calls
  fail, its term never goes back, and while the term stays the same the vote it has given stays.
\<close>

lemma vote_once_per_term:
  assumes "heapless_ok E" "all_ok (step_event E) event_ok s es"
  defines "t \<equiv> fold (step_event E) es s"
  shows "node_term s \<le> node_term t \<and>
    (node_term t = node_term s \<and> log_voted_for (log s) \<noteq> None \<longrightarrow>
       log_voted_for (log t) = log_voted_for (log s))"
proof -
  have "node_votes s t"
    unfolding t_def using assms(1,2) by (intro votes.R_run) (simp add: all_ok_conj)
  then show ?thesis
    by (auto simp: node_votes_def vote_step_def log_current_term_def log_voted_for_def)
qed

lemma vote_once_per_term_witness:
  "let s = idle_node ''b'' [''a'', ''c''] voter_log;
       t = fold (step_event serde_ref) [Deliver (vote_call ''c'' ''b'' 1), HeartbeatTimer] s
   in 1 \<le> node_term t \<and> (node_term t = 1 \<longrightarrow> log_voted_for (log t) = Some ''a'')"
  using vote_once_per_term [OF heapless_serde_ref, of
      "idle_node ''b'' [''a'', ''c''] voter_log" "[Deliver (vote_call ''c'' ''b'' 1), HeartbeatTimer]"]
  by (simp add: Let_def event_ok_def vote_call_def log_of_view [OF voter_log(2)])

text \<open>
  C15: the decision on a vote request, on every branch.  The vote is granted exactly when the
  request's term is not older, the node has not voted for another candidate in that term, and the
  candidate's last entry is at least as late as the node's own in the lexicographic order of
  (term, index); the reply carries the node's term after the request, a newer term makes the node a
  follower, and the log's entries stay.
\<close>

lemma request_vote_decision:
  assumes "node_ok E s" "length (candidate_id req) \<le> 64"
  shows "\<exists>s'. handle_request_vote E from req s = (Ret (), s') \<and>
    outgoing s' = outgoing s @
      [request_vote_reply E s from (max (node_term s) (rv_term req)) (grants s req)] \<and>
    node_term s' = max (node_term s) (rv_term req) \<and>
    log_voted_for (log s') = (if grants s req then Some (candidate_id req)
       else if node_term s < rv_term req then None else log_voted_for (log s)) \<and>
    role s' = (if node_term s < rv_term req then Follower else role s) \<and>
    entries (log s') = entries (log s) \<and> commit_index s' = commit_index s"
proof (cases "rv_term req < node_term s")
  case True
  moreover from this have "\<not> grants s req" "\<not> node_term s < rv_term req" by (auto simp: grants_def)
  ultimately show ?thesis
    using assms request_vote_stale [of s req E "from"] by (simp add: node_ok_def max_def)
next
  case False
  then have t: "node_term s \<le> rv_term req" by simp
  from request_vote_outcome [OF assms(1) t assms(2), of "from"] obtain l where
    "handle_request_vote E from req s =
      (Ret (), s\<lparr>log := l, role := (if node_term s < rv_term req then Follower else role s),
        last_heartbeat := (if grants s req then clock s else last_heartbeat s),
        outgoing := outgoing s @ [request_vote_reply E s from (rv_term req) (grants s req)]\<rparr>)"
    "entries l = entries (log s)" "log_current_term l = rv_term req"
    "log_voted_for l = (if grants s req then Some (candidate_id req)
                       else if node_term s < rv_term req then None else log_voted_for (log s))" by blast
  with t show ?thesis by (simp add: max_absorb2)
qed

lemma request_vote_decision_witness:
  "\<exists>s'. handle_request_vote serde_ref ''c''
      \<lparr>rv_term = 1, candidate_id = ''c'', rv_last_log_index = 0, rv_last_log_term = 0\<rparr>
      (idle_node ''b'' [''a'', ''c''] voter_log) = (Ret (), s') \<and>
    map message (outgoing s') = [RequestVoteResponse \<lparr>rvr_term = 1, vote_granted = False, rvr_node_id = ''b''\<rparr>]"
proof -
  let ?s = "idle_node ''b'' [''a'', ''c''] voter_log"
  have "\<not> grants ?s \<lparr>rv_term = 1, candidate_id = ''c'', rv_last_log_index = 0, rv_last_log_term = 0\<rparr>"
    by (simp add: grants_def log_of_view [OF voter_log(2)])
  with request_vote_decision [OF idle_node_ok [OF voter_log(1), of "''b''" "[''a'', ''c'']"], of
      "\<lparr>rv_term = 1, candidate_id = ''c'', rv_last_log_index = 0, rv_last_log_term = 0\<rparr>" "''c''"]
  show ?thesis
    by (auto simp: request_vote_reply_def new_envelope_def log_of_view [OF voter_log(2)])
qed

section \<open>Durability of a promised vote\<close>

lemma post_set_voted_for_saved:
  assumes "\<And>d e. e \<noteq> Ret () \<Longrightarrow> e \<noteq> Hang \<Longrightarrow>
      Q e (l\<lparr>data_dir := d, persistent := (persistent l)\<lparr>voted_for := map_option (push_str E 64) c\<rparr>\<rparr>)"
    and "\<And>d j. state_json d = Some j \<Longrightarrow>
      state_to_json E ((persistent l)\<lparr>voted_for := map_option (push_str E 64) c\<rparr>) = Some j \<Longrightarrow>
      Q (Ret ()) (l\<lparr>data_dir := d, persistent := (persistent l)\<lparr>voted_for := map_option (push_str E 64) c\<rparr>\<rparr>)"
  shows "post (set_voted_for E c) Q l"
proof -
  obtain r l' where m: "set_voted_for E c l = (r, l')" by (cases "set_voted_for E c l")
  from set_voted_for_mem [OF m] obtain d where d: "r \<noteq> Hang"
    "l' = l\<lparr>data_dir := d, persistent := (persistent l)\<lparr>voted_for := map_option (push_str E 64) c\<rparr>\<rparr>" by blast
  show ?thesis
  proof (cases "r = Ret ()")
    case True
    with set_voted_for_durable [of E c l l'] m d assms(2) show ?thesis by (auto simp: post_def)
  next
    case False
    with assms(1) m d show ?thesis by (simp add: post_def)
  qed
qed

definition vote_saved :: "'e serde_scheme \<Rightarrow> request_vote_request \<Rightarrow> node \<Rightarrow> bool" where
  "vote_saved E req s \<longleftrightarrow> (\<exists>j. state_json (data_dir (log s)) = Some j \<and>
     state_from_json E j = Some \<lparr>current_term = rv_term req, voted_for = Some (candidate_id req)\<rparr>)"

lemma vote_saved_post:
  assumes "serde_ok E" "length (candidate_id req) \<le> 64"
  shows "post (handle_request_vote E from req)
    (\<lambda>r s'. \<forall>new env resp. outgoing s' = outgoing s @ new \<and> env \<in> set new \<and>
       message env = RequestVoteResponse resp \<and> vote_granted resp \<longrightarrow> vote_saved E req s') s"
proof -
  have h: "heapless_ok E" using assms(1) by (rule serde_ok_heapless)
  have j: "state_from_json E j = Some \<lparr>current_term = t, voted_for = Some (candidate_id req)\<rparr>"
    if "state_to_json E \<lparr>current_term = t, voted_for = Some (candidate_id req)\<rparr> = Some j" for t j
  proof -
    have "state_ok \<lparr>current_term = t, voted_for = Some (candidate_id req)\<rparr>"
      using assms(2) by (simp add: state_ok_def)
    with that assms(1) show ?thesis unfolding serde_ok_def by fastforce
  qed
  have p: "(persistent l)\<lparr>voted_for := x\<rparr> = \<lparr>current_term = current_term (persistent l), voted_for = x\<rparr>" for l x
    by (cases "persistent l") simp
  show ?thesis
    by (auto simp: handle_request_vote_def wp Let_def push_str_fits [OF h assms(2)] p
        request_vote_reply_def new_envelope_def vote_saved_def log_current_term_def
        intro!: post_set_current_term post_set_voted_for_saved j split: res.splits)
qed

text \<open>
  C16: a vote is on disk before it is promised.  Even when system calls fail or are cut short, if
  handling a vote request sends a granted reply, then \<open>state.json\<close> holds the request's term and the
  vote for that candidate.
\<close>

lemma vote_durable_before_reply:
  assumes "serde_ok E" "length (candidate_id req) \<le> 64"
    and "handle_request_vote E from req s = (r, s')" "outgoing s' = outgoing s @ new"
    and "env \<in> set new" "message env = RequestVoteResponse resp" "vote_granted resp"
  shows "\<exists>j. state_json (data_dir (log s')) = Some j \<and>
    state_from_json E j = Some \<lparr>current_term = rv_term req, voted_for = Some (candidate_id req)\<rparr>"
  using vote_saved_post [OF assms(1,2), of "from" s] assms(3-)
  unfolding post_def vote_saved_def by force

lemma vote_durable_before_reply_witness:
  "\<exists>s' j. handle_request_vote serde_ref ''c''
      \<lparr>rv_term = 2, candidate_id = ''c'', rv_last_log_index = 0, rv_last_log_term = 0\<rparr>
      (idle_node ''b'' [''a'', ''c''] voter_log) = (Ret (), s') \<and>
    state_json (data_dir (log s')) = Some j \<and>
    state_from_json serde_ref j = Some \<lparr>current_term = 2, voted_for = Some ''c''\<rparr>"
proof -
  let ?s = "idle_node ''b'' [''a'', ''c''] voter_log"
  let ?r = "\<lparr>rv_term = 2, candidate_id = ''c'', rv_last_log_index = 0, rv_last_log_term = 0\<rparr>"
  have g: "grants ?s ?r"
    by (simp add: grants_def own_position_def candidate_position_def less_eq_log_pos_def last_term_def
        log_of_view [OF voter_log(2)])
  have t: "node_term ?s \<le> rv_term ?r" by (simp add: log_of_view [OF voter_log(2)])
  from request_vote_outcome [OF idle_node_ok [OF voter_log(1)] t, of "''c''"] g
  obtain s' where s': "handle_request_vote serde_ref ''c'' ?r ?s = (Ret (), s')"
    "outgoing s' = outgoing ?s @ [request_vote_reply serde_ref ?s ''c'' 2 True]" by auto
  from vote_durable_before_reply [OF serde_ref_ok _ s', of _
      "\<lparr>rvr_term = 2, vote_granted = True, rvr_node_id = ''b''\<rparr>"] s'(1)
  show ?thesis by (auto simp: request_vote_reply_def new_envelope_def)
qed

section \<open>Standing and winning\<close>

text \<open>
  What standing for election does.  The term goes up by one, the node votes for itself on disk,
  every peer gets one request with the node's log position, and nothing else is sent; a node without
  peers becomes leader at once.
\<close>

lemma election_start:
  assumes "node_ok E s"
  shows "\<exists>s'. start_election E s = (Ret (), s') \<and> node_ok E s' \<and>
    node_term s' = node_term s + 1 \<and> log_voted_for (log s') = Some (push_str E 64 (node_id s)) \<and>
    role s' = (if hm_keys (peers s) = [] then Leader else Candidate) \<and>
    votes_received s' = [node_id s] \<and> entries (log s') = entries (log s) \<and>
    outgoing s' = outgoing s @ map (\<lambda>p. new_envelope E (node_id s) p (RequestVote
      \<lparr>rv_term = node_term s + 1, candidate_id = push_str E 64 (node_id s),
       rv_last_log_index = last_index (log s), rv_last_log_term = last_term (log s)\<rparr>)) (hm_keys (peers s))"
proof -
  from start_election_ok [OF assms] obtain l where l:
    "start_election E s =
      (Ret (), if hm_keys (peers s) = [] then broadcast E (leader_state (candidate_state E l s))
               else candidate_state E l s)" "synced E l"
    "log_view l = (entries (log s),
      \<lparr>current_term = node_term s + 1, voted_for = Some (push_str E 64 (node_id s))\<rparr>, last_index (log s))"
    by blast
  note v = log_of_view [OF l(3)]
  show ?thesis
  proof (cases "hm_keys (peers s) = []")
    case True
    with l(1,2) v assms show ?thesis
      by (simp add: candidate_state_def leader_state_def broadcast_def node_ok_def)
  next
    case False
    with l(1,2) v assms show ?thesis
      by (simp add: candidate_state_def node_ok_def campaign_def [abs_def] vote_request_def)
  qed
qed

lemma election_start_witness:
  "\<exists>s'. start_election serde_ref (idle_node ''b'' [''a'', ''c''] voter_log) = (Ret (), s') \<and>
    node_term s' = 2 \<and> log_voted_for (log s') = Some ''b'' \<and> role s' = Candidate \<and>
    map env_to (outgoing s') = [''a'', ''c'']"
  using election_start [OF idle_node_ok [OF voter_log(1), of "''b''" "[''a'', ''c'']"]]
  by (auto simp: log_of_view [OF voter_log(2)] sample_peers_keys new_envelope_def)

text \<open>
  C18: how many votes make a leader.  In a cluster of \<open>N\<close> nodes a candidate that receives a granted
  vote becomes leader exactly when the distinct voters, itself among them, number at least
  \<open>N div 2\<close>: one vote fewer than a majority, because the node's own vote is in the list and is added
  once more.  The term of the vote is not compared with the candidate's, only bounded by it.
\<close>

lemma election_threshold:
  assumes "\<not> log_locked s" "role s = Candidate" "rvr_term resp \<le> node_term s" "vote_granted resp"
    and "distinct (votes_received s)"
  shows "\<exists>s'. handle_request_vote_response E from resp s = (Ret (), s') \<and>
    (role s' = Leader \<longleftrightarrow>
       (length (hm_keys (peers s)) + 1) div 2 \<le> card (insert from (set (votes_received s)))) \<and>
    set (votes_received s') = insert from (set (votes_received s)) \<and> node_term s' = node_term s"
proof -
  have c: "card (insert from (set (votes_received s))) = length (votes_received (with_vote from s))"
    using distinct_card [OF assms(5)] by (simp add: with_vote_def insert_absorb)
  have "set (votes_received (with_vote from s)) = insert from (set (votes_received s))"
    by (auto simp: with_vote_def)
  moreover have "wins (with_vote from s) \<longleftrightarrow>
      (length (hm_keys (peers s)) + 1) div 2 \<le> card (insert from (set (votes_received s)))"
    by (simp add: wins_def majority_def c)
  ultimately show ?thesis
    using vote_response_granted [OF assms(1-4), of E "from"] assms(2) by simp
qed

definition five_candidate :: node where
  "five_candidate = (idle_node ''a'' [''b'', ''c'', ''d'', ''e''] voter_log)
     \<lparr>role := Candidate, votes_received := [''a'']\<rparr>"

lemma election_threshold_witness:
  "\<exists>s'. handle_request_vote_response serde_ref ''b''
      \<lparr>rvr_term = 1, vote_granted = True, rvr_node_id = ''b''\<rparr> five_candidate = (Ret (), s') \<and>
    role s' = Leader \<and> set (votes_received s') = {''a'', ''b''}"
  using election_threshold [of five_candidate "\<lparr>rvr_term = 1, vote_granted = True, rvr_node_id = ''b''\<rparr>"
      serde_ref "''b''"]
  by (auto simp: five_candidate_def log_of_view [OF voter_log(2)] sample_peers_keys)

section \<open>Rejected AppendEntries\<close>

lemma all_ok_True [simp]: "all_ok run (\<lambda>s x. True) s xs"
  by (induction xs arbitrary: s) simp_all

lemma wedged_run: "log_locked s \<Longrightarrow> wedged s (fold (step_event E) es s)"
  by (rule wedge.R_run) simp

text \<open>
  C19: the reject paths of \<open>handle_append_entries\<close> stop the node.  An AppendEntries request that is
  stale, or whose previous entry the log does not have, makes the task take the log lock a second
  time: no answer is ever sent, and whatever happens afterwards the log, the commit index, the
  applied state and the role never change again and no message leaves the node.
\<close>

lemma rejected_append_wedges:
  assumes "node_ok E s"
    and "ae_term req < node_term s \<or>
      (0 < prev_log_index req \<and> \<not> has_entry (log s) (prev_log_index req) (prev_log_term req))"
  shows "\<exists>s'. handle_append_entries E from req s = (Hang, s') \<and>
    entries (log s') = entries (log s) \<and>
    (\<forall>es. let t = fold (step_event E) es s' in
       outgoing t = outgoing s \<and> log t = log s' \<and> commit_index t = commit_index s' \<and>
       last_applied t = last_applied s' \<and> machine t = machine s' \<and> role t = role s')"
proof -
  obtain s' where s': "handle_append_entries E from req s = (Hang, s')" "log_locked s'"
    "outgoing s' = outgoing s" "entries (log s') = entries (log s)"
  proof (cases "ae_term req < node_term s")
    case True
    with assms(1) append_entries_stale [of s req E "from"] that show ?thesis by (simp add: node_ok_def)
  next
    case False
    then have "node_term s \<le> ae_term req" "0 < prev_log_index req"
      "\<not> has_entry (log s) (prev_log_index req) (prev_log_term req)" using assms(2) by auto
    from append_entries_gap [OF assms(1) this, of "from"] that show ?thesis by blast
  qed
  moreover have "wedged s' (fold (step_event E) es s')" for es using wedged_run [OF s'(2)] .
  ultimately show ?thesis by (auto simp: wedged_def Let_def)
qed

lemma rejected_append_wedges_witness:
  "\<exists>s'. handle_append_entries serde_ref ''a''
      \<lparr>ae_term = 1, ae_leader_id = ''a'', prev_log_index = 1, prev_log_term = 1, ae_entries = [], leader_commit = 0\<rparr>
      (idle_node ''b'' [''a'', ''c''] voter_log) = (Hang, s') \<and>
    role (fold (step_event serde_ref) [ElectionTimer 0, ClientPropose Noop 1] s') = role s'"
proof -
  let ?r = "\<lparr>ae_term = 1, ae_leader_id = ''a'', prev_log_index = 1, prev_log_term = 1,
    ae_entries = [], leader_commit = 0\<rparr>"
  have "\<not> has_entry voter_log 1 1" by (simp add: has_entry_def log_of_view [OF voter_log(2)])
  then have "ae_term ?r < node_term (idle_node ''b'' [''a'', ''c''] voter_log) \<or> (0 < prev_log_index ?r \<and>
      \<not> has_entry (log (idle_node ''b'' [''a'', ''c''] voter_log)) (prev_log_index ?r) (prev_log_term ?r))"
    by simp
  from rejected_append_wedges [OF idle_node_ok [OF voter_log(1)] this, of "''a''"]
  show ?thesis unfolding Let_def by blast
qed

end
