(* ===== verification/Replication_Properties.thy ===== *)
theory Replication_Properties
  imports Sample_Nodes
begin

text \<open>
  Replication: what an accepted AppendEntries does to the follower's log, what the leader puts in
  one, when the leader commits, and what is applied.
\<close>

section \<open>The merged log\<close>

text \<open>The merged log, position by position.\<close>

definition conflict_at :: "raft_log \<Rightarrow> log_entry list \<Rightarrow> u64 \<Rightarrow> bool" where
  "conflict_at l es i \<longleftrightarrow> (case first_conflict l es of None \<Rightarrow> False | Some e \<Rightarrow> index e \<le> i)"

lemma entries_cut_log:
  "entries (cut_log es l) i = (if conflict_at l es i then None else entries l i)"
  by (auto simp: cut_log_def conflict_at_def mem_truncate_def not_le split: option.split)

lemma find_index_unique:
  "distinct (map index es) \<Longrightarrow> e \<in> set es \<Longrightarrow> find (\<lambda>x. index x = index e) es = Some e"
  by (induction es) (auto simp: image_iff)

lemma entries_merge_log:
  assumes "distinct (map index es)"
  shows "entries (merge_log es l) i = (case find (\<lambda>e. index e = i) es of
      Some e \<Rightarrow> Some e
    | None \<Rightarrow> if conflict_at l es i then None else entries l i)"
proof (cases "i \<in> index ` set es")
  case True
  then obtain e where e: "e \<in> set es" "index e = i" by auto
  from fold_mem_insert_in [OF True, of "cut_log es l"] obtain e' where e':
    "e' \<in> set es" "index e' = i" "entries (merge_log es l) i = Some e'"
    by (auto simp: merge_log_def)
  have "e' = e" using assms e e' by (metis distinct_map inj_onD)
  with e' find_index_unique [OF assms e(1)] e(2) show ?thesis by simp
next
  case False
  then have "find (\<lambda>e. index e = i) es = None" by (auto simp: find_None_iff)
  with fold_mem_insert_other [OF False, of "cut_log es l"] show ?thesis
    by (simp add: merge_log_def entries_cut_log)
qed

lemma conflict_after:
  assumes "consecutive p es" "i \<le> p"
  shows "\<not> conflict_at l es i"
proof
  assume "conflict_at l es i"
  then obtain e where e: "first_conflict l es = Some e" "index e \<le> i"
    by (auto simp: conflict_at_def split: option.splits)
  from first_conflict_Some(1) [OF e(1)] have "p < index e" by (rule consecutive_less [OF assms(1)])
  with e(2) assms(2) show False by simp
qed

section \<open>What the leader sends\<close>

lemma get_entries_step:
  "a \<le> b \<Longrightarrow> get_entries l a b = (case entries l a of None \<Rightarrow> [] | Some e \<Rightarrow> [e]) @
     (if a = b then [] else get_entries l (a + 1) b)"
proof -
  assume ab: "a \<le> b"
  show ?thesis
  proof (cases "a = b")
    case True
    then show ?thesis by (simp add: get_entries_def range_incl_def map_filter_simps split: option.split)
  next
    case False
    with ab have "a < b" by simp
    then have u: "unat (a + 1) = Suc (unat a)" by (rule unat_plus_one_less)
    have "range_incl a b = a # range_incl (a + 1) b"
      using \<open>a < b\<close> by (simp add: range_incl_def u upt_conv_Cons word_less_nat_alt del: upt_Suc)
    with False show ?thesis by (simp add: get_entries_def map_filter_simps split: option.split)
  qed
qed

lemma get_entries_empty: "b < a \<Longrightarrow> get_entries l a b = []"
  by (simp add: get_entries_def range_incl_def map_filter_simps word_less_nat_alt)

lemma saturating_sub_one: "saturating_sub (i + 1) 1 = (if i = - 1 then 0 else i)"
  by (auto simp: saturating_sub_def word_le_nat_alt unat_plus_one unsigned_eq_0_iff)

lemma get_entries_consecutive:
  assumes "log_wf l"
  shows "i \<noteq> - 1 \<Longrightarrow> consecutive i (get_entries l (i + 1) (last_index l)) \<and>
    (\<forall>e \<in> set (get_entries l (i + 1) (last_index l)). entries l (index e) = Some e)"
proof (induction "unat (last_index l) - unat i" arbitrary: i)
  case 0
  then have "last_index l < i + 1" by (simp add: word_le_nat_alt less_plus_one_iff)
  then show ?case by (simp add: get_entries_empty)
next
  case (Suc n)
  then have i: "i < last_index l" by (simp add: word_less_nat_alt)
  then have le: "i + 1 \<le> last_index l" by (rule plus_one_le)
  have "0 < i + 1" using less_plus_one_iff [OF Suc.prems, of 0] by simp
  with log_wf_entry [OF assms _ le] obtain e where e: "entries l (i + 1) = Some e" by blast
  then have ix: "index e = i + 1" by (rule log_wf_index [OF assms])
  show ?case
  proof (cases "i + 1 = last_index l")
    case True
    with get_entries_step [OF le] e ix Suc.prems show ?thesis by simp
  next
    case False
    have u: "unat (i + 1) = Suc (unat i)" using Suc.prems by (rule unat_plus_one)
    have "i + 1 < last_index l" using False le by simp
    then have "i + 1 < - 1" using word_order.extremum [of "last_index l"] by (rule less_le_trans)
    then have m: "i + 1 \<noteq> - 1" by (rule less_imp_neq)
    have "n = unat (last_index l) - unat (i + 1)" using Suc.hyps(2) u by simp
    from Suc.hyps(1) [OF this m] get_entries_step [OF le] e ix False Suc.prems show ?thesis by simp
  qed
qed

lemma consecutive_take: "consecutive i es \<Longrightarrow> consecutive i (take n es)"
  by (induction es arbitrary: i n) (auto simp: take_Cons')

lemma append_entries_for_wf:
  fixes E :: "'e serde_scheme" and p :: string
  assumes "log_wf (log s)"
  defines "req \<equiv> append_entries_for E s p"
  shows "consecutive (prev_log_index req) (ae_entries req)"
    and "e \<in> set (ae_entries req) \<Longrightarrow> entries (log s) (index e) = Some e"
    and "length (ae_entries req) \<le> 64"
    and "ae_entries req \<noteq> [] \<Longrightarrow> prev_log_index req \<le> last_index (log s)"
proof -
  define a where "a = default_or 1 (hm_get (next_index s) p)"
  have r: "prev_log_index req = saturating_sub a 1"
      "ae_entries req = take 64 (get_entries (log s) a (last_index (log s)))"
    by (simp_all add: req_def append_entries_for_def a_def Let_def)
  obtain i where i: "i \<noteq> - 1" "saturating_sub a 1 = i"
      "get_entries (log s) a (last_index (log s)) = get_entries (log s) (i + 1) (last_index (log s))"
  proof (cases "a = 0")
    case True
    have "get_entries (log s) 0 (last_index (log s)) = get_entries (log s) 1 (last_index (log s))"
      using get_entries_step [of 0 "last_index (log s)" "log s"] log_wf_None [OF assms(1), of 0]
        get_entries_empty [of 0 1 "log s"] by auto
    with True that [of 0] show ?thesis by (simp add: saturating_sub_def)
  next
    case False
    have "a - 1 \<noteq> - 1" using False by simp
    with that [of "a - 1"] saturating_sub_one [of "a - 1"] show ?thesis by simp
  qed
  note g = get_entries_consecutive [OF assms(1) i(1)]
  show "consecutive (prev_log_index req) (ae_entries req)"
    using g by (simp add: r i consecutive_take)
  show "entries (log s) (index e) = Some e" if "e \<in> set (ae_entries req)"
    using that g in_set_takeD by (fastforce simp: r i)
  show "length (ae_entries req) \<le> 64" by (simp add: r)
  show "prev_log_index req \<le> last_index (log s)" if "ae_entries req \<noteq> []"
  proof (rule ccontr)
    assume "\<not> ?thesis"
    then have "last_index (log s) < i + 1" using i(1,2) r(1) by (simp add: less_plus_one_iff)
    with that show False by (simp add: r i get_entries_empty)
  qed
qed

section \<open>Log matching\<close>

text \<open>
  Raft's Log Matching property between two logs: entries of the same index and term sit on top of
  identical prefixes.
\<close>

definition log_matching :: "(u64 \<rightharpoonup> log_entry) \<Rightarrow> (u64 \<rightharpoonup> log_entry) \<Rightarrow> bool" where
  "log_matching m m' \<longleftrightarrow> (\<forall>i e e'. m i = Some e \<and> m' i = Some e' \<and> entry_term e = entry_term e' \<longrightarrow>
     (\<forall>j \<le> i. m j = m' j))"

lemma log_matchingD:
  "log_matching m m' \<Longrightarrow> m i = Some e \<Longrightarrow> m' i = Some e' \<Longrightarrow> entry_term e = entry_term e' \<Longrightarrow> j \<le> i \<Longrightarrow>
   m j = m' j"
  unfolding log_matching_def by blast

lemma consecutive_covers:
  "consecutive p es \<Longrightarrow> e \<in> set es \<Longrightarrow> p < j \<Longrightarrow> j \<le> index e \<Longrightarrow> j \<in> index ` set es"
proof (induction es arbitrary: p)
  case Nil
  then show ?case by simp
next
  case (Cons x es)
  then have x: "p \<noteq> - 1" "index x = p + 1" "consecutive (index x) es" by auto
  show ?case
  proof (cases "j = index x")
    case True
    then show ?thesis by simp
  next
    case False
    then have xj: "index x < j" using Cons.prems(3) x(2) plus_one_le [of p j] by simp
    then have "e \<noteq> x" using Cons.prems(4) by auto
    then have "e \<in> set es" using Cons.prems(2) by simp
    from Cons.IH [OF x(3) this xj Cons.prems(4)] show ?thesis by simp
  qed
qed

lemma merge_log_matching:
  fixes es :: "log_entry list" and p :: u64
  assumes l: "log_matching (entries l) m" and es: "consecutive p es"
    and sent: "\<forall>e \<in> set es. m (index e) = Some e"
    and pre: "\<forall>j \<le> p. entries l j = m j"
  shows "log_matching (entries (merge_log es l)) m"
proof -
  let ?m = "entries (merge_log es l)"
  note d = consecutive_distinct [OF es]
  note mm = entries_merge_log [OF d, of l]
  have in_es: "?m j = m j" if "j \<in> index ` set es" for j
  proof -
    from that obtain e where e: "e \<in> set es" "index e = j" by auto
    from sent e have "m j = Some e" by blast
    with mm [of j] find_index_unique [OF d e(1)] e(2) show ?thesis by simp
  qed
  have out_es: "?m j = (if conflict_at l es j then None else entries l j)" if "j \<notin> index ` set es" for j
  proof -
    have "find (\<lambda>e. index e = j) es = None" using that by (auto simp: find_None_iff)
    then show ?thesis using mm [of j] by simp
  qed
  have low: "?m j = m j" if "j \<le> p" for j
  proof (cases "j \<in> index ` set es")
    case False
    with out_es [of j] conflict_after [OF es that, of l] pre that show ?thesis by simp
  qed (rule in_es)
  have upto: "?m j = m j" if "e \<in> set es" "j \<le> index e" for e j
    using that low in_es consecutive_covers [OF es that(1) _ that(2)] by (meson linorder_not_le)
  show ?thesis
    unfolding log_matching_def
  proof (intro allI impI, elim conjE)
    fix i e e' j
    assume a: "?m i = Some e" "m i = Some e'" "entry_term e = entry_term e'" and j: "j \<le> i"
    show "?m j = m j"
    proof (cases "i \<in> index ` set es")
      case True
      then obtain x where "x \<in> set es" "index x = i" by auto
      with upto j show ?thesis by blast
    next
      case False
      with out_es [of i] a(1) have i: "\<not> conflict_at l es i" "entries l i = Some e"
        by (auto split: if_splits)
      have lj: "entries l j = m j" using log_matchingD [OF l i(2) a(2,3) j] .
      have "\<not> conflict_at l es j"
        using i(1) j by (auto simp: conflict_at_def split: option.splits)
      with lj in_es [of j] out_es [of j] show ?thesis by fastforce
    qed
  qed
qed

lemma synced_entry_ok:
  assumes "synced E l" "entries l i = Some e"
  shows "entry_ok e"
proof -
  from assms(1) obtain es where es: "list_all entry_ok es" "entries (replay es) = entries l"
    by (auto simp: synced_def)
  have "i \<in> index ` set es"
    using assms(2) es(2) fold_mem_insert_other [of i es empty_log] by (auto simp: replay_def empty_log_def)
  from fold_mem_insert_in [OF this, of empty_log] es assms(2) show ?thesis
    by (auto simp: replay_def list_all_iff)
qed

section \<open>The follower\<close>

definition two_terms :: raft_log where
  "two_terms = grown_log [SetTerm 2, AppendCmd 1 (Put ''k'' [1]), AppendCmd 1 Noop]"

lemma two_terms: "synced serde_ref two_terms"
    "log_view two_terms =
      ([1 \<mapsto> \<lparr>index = 1, entry_term = 1, command = Put ''k'' [1]\<rparr>,
        2 \<mapsto> \<lparr>index = 2, entry_term = 1, command = Noop\<rparr>], \<lparr>current_term = 2, voted_for = None\<rparr>, 2)"
proof -
  have "all_ok (view_op serde_ref) view_ok fresh_view
      [SetTerm 2, AppendCmd 1 (Put ''k'' [1]), AppendCmd 1 Noop]"
    by (simp add: fresh_view_def MAX_KEY_SIZE_def MAX_VALUE_SIZE_def)
  from grown_log [OF this] show "synced serde_ref two_terms"
    "log_view two_terms =
      ([1 \<mapsto> \<lparr>index = 1, entry_term = 1, command = Put ''k'' [1]\<rparr>,
        2 \<mapsto> \<lparr>index = 2, entry_term = 1, command = Noop\<rparr>], \<lparr>current_term = 2, voted_for = None\<rparr>, 2)"
    by (simp_all add: two_terms_def fresh_view_def default_persistent_state_def)
qed

text \<open>
  C14: what an accepted AppendEntries does.  When the previous entry is there, the request's entries
  are in the log, everything from the first conflicting index on that they do not replace is gone,
  and all else is kept; the term is the request's, the commit index moves up to the leader's or the
  last index, the committed entries are applied, and one success reply is sent, which carries the
  term the node had before the request and the last index of the whole log.
\<close>

lemma append_entries_effect:
  assumes "node_ok E s" "node_term s \<le> ae_term req"
    and "prev_log_index req = 0 \<or> has_entry (log s) (prev_log_index req) (prev_log_term req)"
    and "consecutive (prev_log_index req) (ae_entries req)" "list_all entry_ok (ae_entries req)"
  shows "\<exists>s'. handle_append_entries E from req s = (Ret (), s') \<and> node_ok E s' \<and>
    (\<forall>i. entries (log s') i = (case find (\<lambda>e. index e = i) (ae_entries req) of
        Some e \<Rightarrow> Some e
      | None \<Rightarrow> if conflict_at (log s) (ae_entries req) i then None else entries (log s) i)) \<and>
    node_term s' = ae_term req \<and> leader_id s' = Some (ae_leader_id req) \<and>
    commit_index s' = (if commit_index s < leader_commit req
                       then min (leader_commit req) (last_index (log s')) else commit_index s) \<and>
    last_applied s' = max (last_applied s) (commit_index s') \<and>
    outgoing s' = outgoing s @ [new_envelope E (node_id s) from (AppendEntriesResponse
      \<lparr>aer_term = node_term s, success = True, aer_last_log_index = last_index (log s'),
       aer_node_id = push_str E 64 (node_id s)\<rparr>)]"
proof -
  from append_entries_accept [OF assms, of "from"] obtain l where l:
    "handle_append_entries E from req s =
      (Ret (), (apply_result_of (follower_state l req s))
        \<lparr>outgoing := outgoing s @ [append_entries_reply E (follower_state l req s) from (node_term s) True]\<rparr>)"
    "synced E l" "entries l = entries (merge_log (ae_entries req) (log s))"
    "log_current_term l = ae_term req" by blast
  with entries_merge_log [OF consecutive_distinct [OF assms(4)], of "log s"] assms(1) show ?thesis
    by (simp add: apply_result_of_eq follower_state_def append_entries_reply_def node_ok_def)
qed

lemma append_entries_effect_witness:
  "\<exists>s'. handle_append_entries serde_ref ''a''
      \<lparr>ae_term = 3, ae_leader_id = ''a'', prev_log_index = 1, prev_log_term = 1,
       ae_entries = [\<lparr>index = 2, entry_term = 3, command = Delete ''k''\<rparr>], leader_commit = 1\<rparr>
      (idle_node ''b'' [''a'', ''c''] two_terms) = (Ret (), s') \<and>
    entries (log s') 2 = Some \<lparr>index = 2, entry_term = 3, command = Delete ''k''\<rparr> \<and>
    entries (log s') 1 = Some \<lparr>index = 1, entry_term = 1, command = Put ''k'' [1]\<rparr> \<and>
    map message (outgoing s') = [AppendEntriesResponse
      \<lparr>aer_term = 2, success = True, aer_last_log_index = last_index (log s'), aer_node_id = ''b''\<rparr>]"
proof -
  let ?e = "\<lparr>index = 2, entry_term = 3, command = Delete ''k''\<rparr>"
  let ?r = "\<lparr>ae_term = 3, ae_leader_id = ''a'', prev_log_index = 1, prev_log_term = 1,
       ae_entries = [?e], leader_commit = 1\<rparr>"
  let ?s = "idle_node ''b'' [''a'', ''c''] two_terms"
  note v = log_of_view [OF two_terms(2)]
  have c: "conflict_at two_terms [?e] 1 = False"
    by (simp add: conflict_at_def first_conflict_def term_at_def v word_le_nat_alt)
  have "node_term ?s \<le> ae_term ?r" "prev_log_index ?r = 0 \<or> has_entry (log ?s) (prev_log_index ?r) (prev_log_term ?r)"
    "consecutive (prev_log_index ?r) (ae_entries ?r)" "list_all entry_ok (ae_entries ?r)"
    by (simp_all add: v has_entry_def entry_ok_def MAX_KEY_SIZE_def)
  from append_entries_effect [OF idle_node_ok [OF two_terms(1)] this, of "''a''"] obtain s' where
    s': "handle_append_entries serde_ref ''a'' ?r ?s = (Ret (), s')"
    "\<forall>i. entries (log s') i = (case find (\<lambda>e. index e = i) [?e] of Some e \<Rightarrow> Some e
      | None \<Rightarrow> if conflict_at two_terms [?e] i then None else entries two_terms i)"
    "outgoing s' = [new_envelope serde_ref ''b'' ''a'' (AppendEntriesResponse
      \<lparr>aer_term = 2, success = True, aer_last_log_index = last_index (log s'), aer_node_id = ''b''\<rparr>)]"
    by (auto simp: v)
  from s'(2) [rule_format, of 1] s'(2) [rule_format, of 2] s'(1,3) c show ?thesis
    by (simp add: new_envelope_def v)
qed

text \<open>
  C11: the Log Matching property survives replication.  If a follower's log and a leader's log match
  (equal index and term means equal prefix), and the follower accepts an AppendEntries that the
  leader builds for any peer, the logs match again, and they agree on every entry up to the last one
  sent.
\<close>

lemma replication_keeps_matching:
  fixes p :: string
  assumes "node_ok E s" "node_ok E ldr" "node_term s \<le> node_term ldr"
    and "log_matching (entries (log s)) (entries (log ldr))"
  defines "req \<equiv> append_entries_for E ldr p"
  assumes "prev_log_index req = 0 \<or> has_entry (log s) (prev_log_index req) (prev_log_term req)"
  shows "\<exists>s'. handle_append_entries E from req s = (Ret (), s') \<and>
    log_matching (entries (log s')) (entries (log ldr)) \<and>
    (\<forall>e \<in> set (ae_entries req). \<forall>j \<le> index e. entries (log s') j = entries (log ldr) j)"
proof -
  have wf: "log_wf (log s)" "log_wf (log ldr)" "synced E (log ldr)"
    using assms(1,2) by (simp_all add: node_ok_def synced_def)
  note sent = append_entries_for_wf [OF wf(2), where E = E and p = p, folded req_def]
  have ok: "list_all entry_ok (ae_entries req)"
    using sent(2) synced_entry_ok [OF wf(3)] by (auto simp: list_all_iff)
  have t: "node_term s \<le> ae_term req"
    using assms(3) by (simp add: req_def append_entries_for_def Let_def)
  from append_entries_accept [OF assms(1) t assms(6) sent(1) ok, of "from"] obtain s' where s':
    "handle_append_entries E from req s = (Ret (), s')"
    "entries (log s') = entries (merge_log (ae_entries req) (log s))"
    by (auto simp: apply_result_of_eq follower_state_def)
  show ?thesis
  proof (cases "ae_entries req = []")
    case True
    with s' assms(4) show ?thesis by auto
  next
    case False
    have pre: "\<forall>j \<le> prev_log_index req. entries (log s) j = entries (log ldr) j"
    proof (cases "prev_log_index req = 0")
      case True
      then show ?thesis using log_wf_None [OF wf(1), of 0] log_wf_None [OF wf(2), of 0] by simp
    next
      case nz: False
      with sent(4) [OF False] obtain e' where e': "entries (log ldr) (prev_log_index req) = Some e'"
        using log_wf_entry [OF wf(2), of "prev_log_index req"] by (auto simp: word_gt_0)
      then have "prev_log_term req = entry_term e'"
        by (simp add: req_def append_entries_for_def Let_def term_at_def default_or_def)
      with nz assms(6) obtain e where "entries (log s) (prev_log_index req) = Some e" "entry_term e = entry_term e'"
        by (auto simp: has_entry_def split: option.splits)
      with e' log_matchingD [OF assms(4)] show ?thesis by blast
    qed
    have "\<forall>e \<in> set (ae_entries req). entries (log ldr) (index e) = Some e" using sent(2) by blast
    from merge_log_matching [OF assms(4) sent(1) this pre] have
      m: "log_matching (entries (merge_log (ae_entries req) (log s))) (entries (log ldr))" .
    have "entries (log s') (index e) = Some e" if "e \<in> set (ae_entries req)" for e
      using s'(2) entries_merge_log [OF consecutive_distinct [OF sent(1)], of "log s" "index e"]
        find_index_unique [OF consecutive_distinct [OF sent(1)] that] by simp
    with m s' sent(2) show ?thesis by (metis log_matchingD)
  qed
qed

definition matching_leader :: node where
  "matching_leader = (idle_node ''a'' [''b'', ''c''] two_terms)
     \<lparr>role := Leader, next_index := [(''b'', 2), (''c'', 3)]\<rparr>"

definition one_entry :: raft_log where
  "one_entry = grown_log [AppendCmd 1 (Put ''k'' [1])]"

lemma one_entry: "synced serde_ref one_entry"
    "log_view one_entry = ([1 \<mapsto> \<lparr>index = 1, entry_term = 1, command = Put ''k'' [1]\<rparr>],
      \<lparr>current_term = 0, voted_for = None\<rparr>, 1)"
proof -
  have "all_ok (view_op serde_ref) view_ok fresh_view [AppendCmd 1 (Put ''k'' [1])]"
    by (simp add: fresh_view_def MAX_KEY_SIZE_def MAX_VALUE_SIZE_def)
  from grown_log [OF this] show "synced serde_ref one_entry"
    "log_view one_entry = ([1 \<mapsto> \<lparr>index = 1, entry_term = 1, command = Put ''k'' [1]\<rparr>],
      \<lparr>current_term = 0, voted_for = None\<rparr>, 1)"
    by (simp_all add: one_entry_def fresh_view_def default_persistent_state_def)
qed

lemma matching_leader_ok: "node_ok serde_ref matching_leader"
  using two_terms(1) by (simp add: matching_leader_def node_ok_def serde_ref_ok)

lemma matching_leader_request:
  "append_entries_for serde_ref matching_leader ''b'' =
    \<lparr>ae_term = 2, ae_leader_id = ''a'', prev_log_index = 1, prev_log_term = 1,
     ae_entries = [\<lparr>index = 2, entry_term = 1, command = Noop\<rparr>], leader_commit = 0\<rparr>"
  by (simp add: append_entries_for_def matching_leader_def log_of_view [OF two_terms(2)] Let_def
      default_or_def hm_get_def sat_sub_eval term_at_def get_entries_def range_incl_def map_filter_simps)

lemma replication_keeps_matching_witness:
  "\<exists>s'. handle_append_entries serde_ref ''a'' (append_entries_for serde_ref matching_leader ''b'')
      (idle_node ''b'' [''a'', ''c''] one_entry) = (Ret (), s') \<and>
    entries (log s') 2 = Some \<lparr>index = 2, entry_term = 1, command = Noop\<rparr>"
proof -
  let ?s = "idle_node ''b'' [''a'', ''c''] one_entry"
  note v = log_of_view [OF one_entry(2)] log_of_view [OF two_terms(2)]
  have a: "node_term ?s \<le> node_term matching_leader" by (simp add: v matching_leader_def)
  have b: "log_matching (entries (log ?s)) (entries (log matching_leader))"
    by (auto simp: log_matching_def v matching_leader_def word_le_nat_alt split: if_splits)
  have c: "prev_log_index (append_entries_for serde_ref matching_leader ''b'') = 0 \<or>
      has_entry (log ?s) (prev_log_index (append_entries_for serde_ref matching_leader ''b''))
        (prev_log_term (append_entries_for serde_ref matching_leader ''b''))"
    by (simp add: matching_leader_request has_entry_def v)
  from replication_keeps_matching [OF idle_node_ok [OF one_entry(1)] matching_leader_ok a b c, of "''a''"]
  show ?thesis by (auto simp: matching_leader_request v) (auto simp: matching_leader_def v)
qed

end
