(* ===== verification/Commit_Properties.thy ===== *)
theory Commit_Properties
  imports Replication_Properties "HOL-Library.While_Combinator"
begin

text \<open>
  Committing: the leader's heartbeats, the rule that moves its commit index, what clients are told,
  what is applied, and the commits that the rule should not make.
\<close>

section \<open>Heartbeats\<close>

definition lead_log :: raft_log where
  "lead_log = grown_log [SetTerm 2, AppendCmd 1 (Put ''k'' [1]), AppendCmd 2 (Put ''k'' [2])]"

lemma lead_log: "synced serde_ref lead_log"
    "log_view lead_log =
      ([1 \<mapsto> \<lparr>index = 1, entry_term = 1, command = Put ''k'' [1]\<rparr>,
        2 \<mapsto> \<lparr>index = 2, entry_term = 2, command = Put ''k'' [2]\<rparr>], \<lparr>current_term = 2, voted_for = None\<rparr>, 2)"
proof -
  have "all_ok (view_op serde_ref) view_ok fresh_view
      [SetTerm 2, AppendCmd 1 (Put ''k'' [1]), AppendCmd 2 (Put ''k'' [2])]"
    by (simp add: fresh_view_def MAX_KEY_SIZE_def MAX_VALUE_SIZE_def)
  from grown_log [OF this] show "synced serde_ref lead_log"
    "log_view lead_log =
      ([1 \<mapsto> \<lparr>index = 1, entry_term = 1, command = Put ''k'' [1]\<rparr>,
        2 \<mapsto> \<lparr>index = 2, entry_term = 2, command = Put ''k'' [2]\<rparr>], \<lparr>current_term = 2, voted_for = None\<rparr>, 2)"
    by (simp_all add: lead_log_def fresh_view_def default_persistent_state_def)
qed

definition leader_of_two :: node where
  "leader_of_two = (idle_node ''a'' [''b'', ''c''] lead_log)
     \<lparr>role := Leader, next_index := [(''b'', 3), (''c'', 1)], match_index := [(''b'', 0), (''c'', 0)],
      pending_requests := [(2, 7)]\<rparr>"

text \<open>What a leader sends a peer, counted from its next index: an index of 0 counts as 1.\<close>

definition first_sent :: "node \<Rightarrow> string \<Rightarrow> u64" where
  "first_sent s p = max 1 (default_or 1 (hm_get (next_index s) p))"

lemma map_filter_map: "List.map_filter f (map g xs) = List.map_filter (\<lambda>x. f (g x)) xs"
  by (induction xs) (simp_all add: map_filter_simps split: option.split)

lemma set_get_entries:
  assumes "log_wf l" "0 < a"
  shows "e \<in> set (take k (get_entries l a (last_index l))) \<longleftrightarrow>
    entries l (index e) = Some e \<and> a \<le> index e \<and> unat (index e) < unat a + k"
proof -
  let ?ns = "[unat a..<Suc (unat (last_index l))]" and ?at = "\<lambda>n. entries l (word_of_nat n)"
  have u: "unat (word_of_nat n :: u64) = n" if "n \<le> unat (last_index l)" for n
    using that unsigned_less [of "last_index l", where ?'a = nat] by (simp add: unat_of_nat)
  have there: "\<exists>x. ?at n = Some x \<and> index x = word_of_nat n" if "unat a \<le> n" "n \<le> unat (last_index l)" for n
  proof -
    have "(0 :: u64) < word_of_nat n" "word_of_nat n \<le> last_index l"
      using that assms(2) by (simp_all add: word_less_nat_alt word_le_nat_alt u)
    with log_wf_entry [OF assms(1)] log_wf_index [OF assms(1)] show ?thesis by blast
  qed
  have "List.map_filter ?at ns = map (\<lambda>n. the (?at n)) ns" if "set ns \<subseteq> set ?ns" for ns
    using that there by (induction ns) (fastforce simp: map_filter_simps)+
  then have "get_entries l a (last_index l) = map (\<lambda>n. the (?at n)) ?ns"
    unfolding get_entries_def range_incl_def map_filter_map by blast
  then have "set (take k (get_entries l a (last_index l))) =
      (\<lambda>n. the (?at n)) ` {unat a..<min (unat a + k) (Suc (unat (last_index l)))}"
    by (auto simp: take_map min_def simp del: upt_Suc)
  then have m: "e \<in> set (take k (get_entries l a (last_index l))) \<longleftrightarrow>
      (\<exists>n. unat a \<le> n \<and> n < unat a + k \<and> n \<le> unat (last_index l) \<and> e = the (?at n))"
    by (auto simp: image_iff less_Suc_eq_le Bex_def)
  have at: "e = the (?at n) \<longleftrightarrow> entries l (index e) = Some e \<and> unat (index e) = n"
    if "unat a \<le> n" "n \<le> unat (last_index l)" for n
  proof -
    from there [OF that] obtain x where x: "?at n = Some x" "index x = word_of_nat n" by blast
    show ?thesis
    proof
      assume "e = the (?at n)"
      with x u [OF that(2)] show "entries l (index e) = Some e \<and> unat (index e) = n" by simp
    next
      assume "entries l (index e) = Some e \<and> unat (index e) = n"
      moreover from this have "word_of_nat n = index e" by auto
      ultimately show "e = the (?at n)" by simp
    qed
  qed
  have "unat (index e) \<le> unat (last_index l)" if "entries l (index e) = Some e"
    using log_wf_le [OF assms(1) that] by (simp add: word_le_nat_alt)
  note le = this
  show ?thesis
    unfolding m
  proof
    assume "\<exists>n. unat a \<le> n \<and> n < unat a + k \<and> n \<le> unat (last_index l) \<and> e = the (?at n)"
    then obtain n where n: "unat a \<le> n" "n < unat a + k" "n \<le> unat (last_index l)" "e = the (?at n)" by blast
    with at [OF n(1,3)] show "entries l (index e) = Some e \<and> a \<le> index e \<and> unat (index e) < unat a + k"
      by (simp add: word_le_nat_alt)
  next
    assume e: "entries l (index e) = Some e \<and> a \<le> index e \<and> unat (index e) < unat a + k"
    with at [of "unat (index e)"] le
    show "\<exists>n. unat a \<le> n \<and> n < unat a + k \<and> n \<le> unat (last_index l) \<and> e = the (?at n)"
      by (intro exI [of _ "unat (index e)"]) (simp add: word_le_nat_alt)
  qed
qed

lemma heartbeat_entries:
  assumes "log_wf (log s)"
  shows "ae_entries (append_entries_for E s p) = take 64 (get_entries (log s) (first_sent s p) (last_index (log s)))"
    and "prev_log_index (append_entries_for E s p) = first_sent s p - 1"
    and "0 < first_sent s p"
proof -
  define a where "a = default_or 1 (hm_get (next_index s) p)"
  have f: "first_sent s p = max 1 a" by (simp add: first_sent_def a_def)
  have r: "prev_log_index (append_entries_for E s p) = saturating_sub a 1"
      "ae_entries (append_entries_for E s p) = take 64 (get_entries (log s) a (last_index (log s)))"
    by (simp_all add: append_entries_for_def a_def Let_def)
  have z: "get_entries (log s) 0 (last_index (log s)) = get_entries (log s) 1 (last_index (log s))"
    using get_entries_step [of 0 "last_index (log s)" "log s"] log_wf_None [OF assms, of 0]
      get_entries_empty [of 0 1 "log s"] by auto
  have m: "a = 0 \<or> 1 \<le> a" by (auto simp: word_le_nat_alt unsigned_eq_0_iff Suc_le_eq word_gt_0 word_less_nat_alt)
  then show "ae_entries (append_entries_for E s p) = take 64 (get_entries (log s) (first_sent s p) (last_index (log s)))"
    using z by (auto simp: f r max_def)
  show "prev_log_index (append_entries_for E s p) = first_sent s p - 1"
    using m by (auto simp: f r max_def saturating_sub_def)
  show "0 < first_sent s p" using m by (auto simp: f max_def word_gt_0)
qed

text \<open>
  C22: what a leader broadcasts.  Every peer gets one AppendEntries of the leader's term with its commit
  index.  Its entries are those of the leader's log from the peer's next index on, in order and without
  a gap, as many as there are up to 64; the previous index is the one before, with the term the leader's
  log has there, or 0.  (A next index of 0, which a response can set, is treated as 1.)
\<close>

lemma heartbeat_contents:
  assumes "role s = Leader" "\<not> log_locked s" "log_wf (log s)"
  shows "\<exists>f. send_heartbeats E s =
      (Ret (), s\<lparr>outgoing := outgoing s @
         map (\<lambda>p. new_envelope E (node_id s) p (AppendEntries (f p))) (hm_keys (peers s))\<rparr>) \<and>
    (\<forall>p. ae_term (f p) = node_term s \<and> leader_commit (f p) = commit_index s \<and>
       ae_leader_id (f p) = push_str E 64 (node_id s) \<and>
       prev_log_index (f p) = first_sent s p - 1 \<and>
       prev_log_term (f p) = (case entries (log s) (first_sent s p - 1) of None \<Rightarrow> 0 | Some e \<Rightarrow> entry_term e) \<and>
       consecutive (first_sent s p - 1) (ae_entries (f p)) \<and>
       set (ae_entries (f p)) = {e. entries (log s) (index e) = Some e \<and> first_sent s p \<le> index e \<and>
         unat (index e) < unat (first_sent s p) + 64})"
proof (intro exI conjI allI)
  let ?f = "append_entries_for E s"
  show "send_heartbeats E s =
      (Ret (), s\<lparr>outgoing := outgoing s @
         map (\<lambda>p. new_envelope E (node_id s) p (AppendEntries (?f p))) (hm_keys (peers s))\<rparr>)"
    using send_heartbeats_leader [OF assms(1,2), of E] by (simp add: heartbeat_def [abs_def])
  fix p
  note h = heartbeat_entries(1,2) [OF assms(3), where E = E and p = p] heartbeat_entries(3) [OF assms(3), of p]
  show "ae_term (?f p) = node_term s" "leader_commit (?f p) = commit_index s"
    "ae_leader_id (?f p) = push_str E 64 (node_id s)"
    by (simp_all add: append_entries_for_def Let_def)
  show "prev_log_index (?f p) = first_sent s p - 1" by (rule h(2))
  then show "prev_log_term (?f p) = (case entries (log s) (first_sent s p - 1) of None \<Rightarrow> 0 | Some e \<Rightarrow> entry_term e)"
    by (auto simp: append_entries_for_def Let_def term_at_def default_or_def split: option.split)
  show "consecutive (first_sent s p - 1) (ae_entries (?f p))"
    using append_entries_for_wf(1) [OF assms(3), where E = E and p = p] h(2) by simp
  show "set (ae_entries (?f p)) = {e. entries (log s) (index e) = Some e \<and> first_sent s p \<le> index e \<and>
      unat (index e) < unat (first_sent s p) + 64}"
    unfolding h(1) using set_get_entries [OF assms(3) h(3)] by blast
qed

lemma heartbeat_contents_witness:
  "\<exists>f. send_heartbeats serde_ref leader_of_two =
      (Ret (), leader_of_two\<lparr>outgoing :=
         map (\<lambda>p. new_envelope serde_ref ''a'' p (AppendEntries (f p))) [''b'', ''c'']\<rparr>) \<and>
    prev_log_index (f ''b'') = 2 \<and> prev_log_term (f ''b'') = 2 \<and> ae_entries (f ''b'') = [] \<and>
    prev_log_index (f ''c'') = 0 \<and> set (ae_entries (f ''c'')) =
      {\<lparr>index = 1, entry_term = 1, command = Put ''k'' [1]\<rparr>, \<lparr>index = 2, entry_term = 2, command = Put ''k'' [2]\<rparr>}"
proof -
  have "role leader_of_two = Leader" "\<not> log_locked leader_of_two" "log_wf (log leader_of_two)"
    using lead_log(1) by (simp_all add: leader_of_two_def synced_def)
  from heartbeat_contents [OF this, of serde_ref] obtain f where f:
    "send_heartbeats serde_ref leader_of_two = (Ret (), leader_of_two\<lparr>outgoing := outgoing leader_of_two @
       map (\<lambda>p. new_envelope serde_ref (node_id leader_of_two) p (AppendEntries (f p))) (hm_keys (peers leader_of_two))\<rparr>)"
    "\<And>p. prev_log_index (f p) = first_sent leader_of_two p - 1"
    "\<And>p. prev_log_term (f p) = (case entries (log leader_of_two) (first_sent leader_of_two p - 1) of
       None \<Rightarrow> 0 | Some e \<Rightarrow> entry_term e)"
    "\<And>p. set (ae_entries (f p)) = {e. entries (log leader_of_two) (index e) = Some e \<and>
       first_sent leader_of_two p \<le> index e \<and> unat (index e) < unat (first_sent leader_of_two p) + 64}" by blast
  have n: "first_sent leader_of_two ''b'' = 3" "first_sent leader_of_two ''c'' = 1"
    by (simp_all add: first_sent_def leader_of_two_def hm_get_def default_or_def)
  have "log leader_of_two = lead_log" by (simp add: leader_of_two_def)
  note l = this log_of_view [OF lead_log(2)]
  have "set (ae_entries (f ''b'')) = {}" unfolding f(4) n by (auto simp: l word_le_nat_alt split: if_splits)
  moreover have "set (ae_entries (f ''c'')) =
      {\<lparr>index = 1, entry_term = 1, command = Put ''k'' [1]\<rparr>, \<lparr>index = 2, entry_term = 2, command = Put ''k'' [2]\<rparr>}"
    unfolding f(4) n by (auto simp: l word_le_nat_alt split: if_splits)
  ultimately show ?thesis
    using f(1) f(2,3) [of "''b''", unfolded n l] f(2) [of "''c''", unfolded n l]
    by (intro exI [of _ f]) (simp add: leader_of_two_def sample_peers_keys)
qed

section \<open>The commit rule\<close>

lemma committed_at_simps [simp]:
  "commit_index (committed_at n s) = n" "match_index (committed_at n s) = match_index s"
  "log (committed_at n s) = log s" "peers (committed_at n s) = peers s" "role (committed_at n s) = role s"
  "pending_requests (committed_at n s) = fold hm_remove (pending_up_to s n) (pending_requests s)"
  "replies (committed_at n s) = replies s @ map (success_of (pending_requests s)) (pending_up_to s n)"
  by (simp_all add: committed_at_def notified_def apply_result_of_eq pending_up_to_def)

definition acks :: "(string, u64) hmap \<Rightarrow> u64 \<Rightarrow> nat" where
  "acks m n = 1 + length (filter (\<lambda>(p, i). n \<le> i) m)"

lemma acks_peers:
  assumes "hm_wf m" "set (hm_keys m) \<subseteq> P"
  shows "acks m n = 1 + card {p \<in> P. \<exists>i. hm_get m p = Some i \<and> n \<le> i}"
proof -
  let ?F = "filter (\<lambda>(p, i). n \<le> i) m"
  have d: "distinct (map fst m)" using assms(1) by (simp add: hm_wf_def)
  then have "distinct (map fst ?F)" by (rule distinct_map_filter)
  then have "length ?F = card (set (map fst ?F))" using distinct_card by fastforce
  also have "set (map fst ?F) = {p \<in> P. \<exists>i. hm_get m p = Some i \<and> n \<le> i}"
    using assms(2) d by (force simp: hm_get_def hm_keys_def dest: map_of_SomeD)
  finally show ?thesis by (simp add: acks_def)
qed

text \<open>
  C12: when a leader commits.  A success response records the follower's index and moves the commit
  index only forward and only to an index of the log whose entry is of the leader's own term and for which
  the match table has so many records, the leader counted, that they are more than half of the number of
  configured nodes; every later index of the log that also meets this is covered.  The table may hold
  records of nodes that are not peers, and these count (\<open>stranger_ack_commits\<close>); when all its records
  are of peers, the peers recorded to have the index and the leader are a majority of the cluster.
\<close>

lemma leader_commit_rule:
  assumes "\<not> log_locked s" "role s = Leader" "aer_term resp \<le> node_term s" "success resp"
    and "hm_wf (pending_requests s)" "commit_index s \<noteq> - 1"
  shows "\<exists>s'. handle_append_entries_response E from resp s = (Ret (), s') \<and>
    match_index s' = hm_insert from (aer_last_log_index resp) (match_index s) \<and> log s' = log s \<and>
    (commit_index s' = commit_index s \<or>
      commit_index s < commit_index s' \<and> commit_index s' \<le> last_index (log s) \<and>
      term_at (log s) (commit_index s') = Some (node_term s) \<and>
      length (hm_keys (peers s)) + 1 < 2 * acks (match_index s') (commit_index s') \<and>
      (hm_wf (match_index s) \<and> set (hm_keys (match_index s')) \<subseteq> set (hm_keys (peers s)) \<longrightarrow>
        length (hm_keys (peers s)) + 1 < 2 * (1 + card {p \<in> set (hm_keys (peers s)).
          \<exists>i. hm_get (match_index s') p = Some i \<and> commit_index s' \<le> i}))) \<and>
    (\<forall>m. commit_index s' < m \<and> m \<le> last_index (log s) \<and> term_at (log s) m = Some (node_term s) \<longrightarrow>
      2 * acks (match_index s') m \<le> length (hm_keys (peers s)) + 1)"
proof -
  let ?s = "record_match from (aer_last_log_index resp) s"
  note h = append_response_success [OF assms(1-5), of E "from"]
  have m: "match_index ?s = hm_insert from (aer_last_log_index resp) (match_index s)"
    by (simp add: record_match_def)
  have mj: "majority ?s = (length (hm_keys (peers s)) + 1) div 2 + 1" by (simp add: majority_def)
  have ac: "ack_count ?s n = acks (match_index ?s) n" for n by (simp add: ack_count_def acks_def)
  show ?thesis
  proof (cases "commit_candidate ?s")
    case None
    have "2 * acks (match_index ?s) m \<le> length (hm_keys (peers s)) + 1"
      if "commit_index s < m" "m \<le> last_index (log s)" "term_at (log s) m = Some (node_term s)" for m
    proof -
      from that(1) have "commit_index ?s + 1 \<le> m" by (simp add: plus_one_le)
      from commit_candidate_None [OF None this] that show ?thesis
        unfolding ac mj by simp
    qed
    with h None m show ?thesis by (auto simp: advanced_def)
  next
    case (Some n)
    note c = commit_candidate_Some [OF Some]
    have "commit_index s < commit_index s + 1" using assms(6) less_plus_one_iff by blast
    with c(1) have lt: "commit_index s < n" by (simp add: order_less_le_trans)
    have maj: "length (hm_keys (peers s)) + 1 < 2 * acks (match_index ?s) n"
      using c(4) unfolding ac mj by simp
    have "2 * acks (match_index ?s) m \<le> length (hm_keys (peers s)) + 1"
      if "n < m" "m \<le> last_index (log s)" "term_at (log s) m = Some (node_term s)" for m
      using c(5) [of m] that unfolding ac mj by simp
    moreover have "length (hm_keys (peers s)) + 1 < 2 * (1 + card {p \<in> set (hm_keys (peers s)).
        \<exists>i. hm_get (match_index ?s) p = Some i \<and> n \<le> i})"
      if "hm_wf (match_index s)" "set (hm_keys (match_index ?s)) \<subseteq> set (hm_keys (peers s))"
      using acks_peers [OF _ that(2), of n] maj that(1) m by (simp add: hm.wf_ins)
    ultimately show ?thesis using h Some m lt c(2,3) maj by (auto simp: advanced_def)
  qed
qed

lemma leader_of_two_facts:
  "\<not> log_locked leader_of_two" "role leader_of_two = Leader" "node_term leader_of_two = 2"
  "hm_wf (pending_requests leader_of_two)" "commit_index leader_of_two = 0"
  "match_index leader_of_two = [(''b'', 0), (''c'', 0)]" "hm_keys (peers leader_of_two) = [''b'', ''c'']"
  "log leader_of_two = lead_log" "pending_requests leader_of_two = [(2, 7)]" "replies leader_of_two = []"
  by (simp_all add: leader_of_two_def log_of_view [OF lead_log(2)] hm_wf_def sample_peers_keys)

abbreviation ack_of_two :: append_entries_response where
  "ack_of_two \<equiv> \<lparr>aer_term = 2, success = True, aer_last_log_index = 2, aer_node_id = ''b''\<rparr>"

lemma lead_term: "log_current_term lead_log = 2"
  by (simp add: log_of_view [OF lead_log(2)])

lemma leader_of_two_acked:
  "aer_term ack_of_two \<le> node_term leader_of_two" "success ack_of_two" "commit_index leader_of_two \<noteq> - 1"
  by (simp_all add: leader_of_two_facts lead_term)

lemma leader_commit_rule_witness:
  "\<exists>s'. handle_append_entries_response serde_ref ''b'' ack_of_two leader_of_two = (Ret (), s') \<and>
    commit_index s' = 2"
proof -
  from leader_commit_rule [OF leader_of_two_facts(1,2) leader_of_two_acked(1,2) leader_of_two_facts(4)
      leader_of_two_acked(3), of serde_ref "''b''"] obtain s' where
    s': "handle_append_entries_response serde_ref ''b'' ack_of_two leader_of_two = (Ret (), s')"
    "match_index s' = hm_insert ''b'' 2 [(''b'', 0), (''c'', 0)]"
    "commit_index s' = 0 \<or> commit_index s' \<le> last_index lead_log"
    "\<forall>m. commit_index s' < m \<and> m \<le> last_index lead_log \<and> term_at lead_log m = Some 2 \<longrightarrow>
      2 * acks (match_index s') m \<le> length [''b'', ''c''] + 1"
    unfolding leader_of_two_facts lead_term append_entries_response.simps by blast
  have "\<not> commit_index s' < 2"
    using s'(4) [rule_format, of 2] s'(2)
    by (auto simp: acks_def hm_insert_def term_at_def log_of_view [OF lead_log(2)])
  with s'(1,3) show ?thesis by (auto simp: log_of_view [OF lead_log(2)])
qed

text \<open>
  C21: what clients are told.  When a success response moves the commit index to \<open>n\<close>, each pending
  proposal at an index up to \<open>n\<close> is answered with success and forgotten, the others stay pending,
  and no other answer is sent; when the index does not move nothing is answered.
\<close>

lemma clients_answered_on_commit:
  assumes "\<not> log_locked s" "role s = Leader" "aer_term resp \<le> node_term s" "success resp"
    and "hm_wf (pending_requests s)" "commit_index s \<noteq> - 1"
  shows "\<exists>s' rs. handle_append_entries_response E from resp s = (Ret (), s') \<and>
    replies s' = replies s @ rs \<and>
    set rs = {(tx, Success i) | tx i. hm_get (pending_requests s) i = Some tx \<and>
                i \<le> commit_index s' \<and> commit_index s' \<noteq> commit_index s} \<and>
    (\<forall>i. hm_get (pending_requests s') i =
       (if i \<le> commit_index s' \<and> commit_index s' \<noteq> commit_index s then None else hm_get (pending_requests s) i))"
proof -
  let ?s = "record_match from (aer_last_log_index resp) s"
  note h = append_response_success [OF assms(1-5), of E "from"]
  have p: "pending_up_to ?s n = pending_up_to s n" "replies ?s = replies s" for n
    by (simp_all add: pending_up_to_def record_match_def)
  have st: "set (map (success_of (pending_requests s)) (pending_up_to s n)) =
      {(tx, Success i) | tx i. hm_get (pending_requests s) i = Some tx \<and> i \<le> n}" for n
    by (force simp: success_of_def pending_up_to_def hm.set_keys image_iff)
  show ?thesis
  proof (cases "commit_candidate ?s")
    case None
    with h show ?thesis by (auto simp: advanced_def record_match_def)
  next
    case (Some n)
    have "commit_index s < commit_index s + 1" using assms(6) less_plus_one_iff by blast
    then have "n \<noteq> commit_index s" using commit_candidate_Some(1) [OF Some] by auto
    moreover have "hm_get (fold hm_remove (pending_up_to s n) (pending_requests s)) i =
        (if i \<le> n then None else hm_get (pending_requests s) i)" for i
      using hm_get_removes [OF assms(5)] by (auto simp: pending_up_to_def hm.set_keys)
    ultimately show ?thesis
      using h Some st [of n] p by (auto simp: advanced_def)
  qed
qed

lemma clients_answered_on_commit_witness:
  "\<exists>s' rs. handle_append_entries_response serde_ref ''b'' ack_of_two leader_of_two = (Ret (), s') \<and>
    replies s' = rs \<and> set rs \<subseteq> {(7, Success 2)}"
proof -
  from clients_answered_on_commit [OF leader_of_two_facts(1,2) leader_of_two_acked(1,2) leader_of_two_facts(4)
      leader_of_two_acked(3), of serde_ref "''b''"] obtain s' rs where
    h: "handle_append_entries_response serde_ref ''b'' ack_of_two leader_of_two = (Ret (), s')" and
    r: "replies s' = replies leader_of_two @ rs" and
    rs: "set rs = {(tx, Success i) | tx i. hm_get (pending_requests leader_of_two) i = Some tx \<and>
                i \<le> commit_index s' \<and> commit_index s' \<noteq> commit_index leader_of_two}"
    by (elim exE conjE) (rule that)
  have "x = (7, Success 2)" if "x \<in> set rs" for x
  proof -
    from that [unfolded rs] obtain tx i where "x = (tx, Success i)" "hm_get [(2 :: u64, 7 :: nat)] i = Some tx"
      unfolding leader_of_two_facts by (elim CollectE exE conjE) (rule that)
    then show ?thesis by (simp add: hm_get_def split: if_splits)
  qed
  then have "set rs \<subseteq> {(7, Success 2)}" by (intro subsetI singletonI) (simp only: singleton_iff)
  with h r show ?thesis by (simp add: leader_of_two_facts)
qed

section \<open>Applying\<close>

lemma entries_between_sorted:
  assumes "\<forall>i e. m i = Some e \<longrightarrow> index e = i"
  shows "sorted_wrt (<) (a # map index (entries_between m a b))"
proof (induction "unat b - unat a" arbitrary: a)
  case 0
  then show ?case by (simp add: entries_between_empty word_le_nat_alt)
next
  case (Suc n)
  then have ab: "a < b" by (simp add: word_less_nat_alt)
  have u: "unat (a + 1) = Suc (unat a)" by (rule unat_plus_one_less [OF ab])
  have lt: "a < a + 1" by (rule less_plus_one [OF ab])
  have "n = unat b - unat (a + 1)" using Suc.hyps(2) u by simp
  from Suc.hyps(1) [OF this] have s: "sorted_wrt (<) ((a + 1) # map index (entries_between m (a + 1) b))" .
  then have "\<forall>x \<in> set (map index (entries_between m (a + 1) b)). a < x"
    using lt by (auto intro: less_trans)
  with s lt assms show ?case
    by (auto simp: entries_between_step [OF ab] split: option.split)
qed

text \<open>
  C20: the state machine runs the log.  Applying after the commit index moved executes, in index
  order and once each, the commands of the entries between the last applied and the commit index on
  the key-value map; the last applied index becomes the commit index if that is later, and the
  machine's own index stays at or below it.
\<close>

lemma apply_runs_log:
  assumes "\<not> log_locked s" "log_wf (log s)" "sm_wf (machine s)"
    and "sm_last_applied (machine s) \<le> last_applied s"
  shows "\<exists>s'. apply_committed_entries s = (Ret (), s') \<and>
    sm_abs (machine s') = fold (\<lambda>e. kv_apply (command e))
      (List.map_filter (entries (log s)) (map word_of_nat [Suc (unat (last_applied s))..<Suc (unat (commit_index s))]))
      (sm_abs (machine s)) \<and>
    last_applied s' = max (last_applied s) (commit_index s) \<and>
    sm_wf (machine s') \<and> sm_last_applied (machine s') \<le> last_applied s' \<and> log s' = log s"
proof -
  let ?es = "entries_between (entries (log s)) (last_applied s) (commit_index s)"
  have so: "sorted_wrt (<) (last_applied s # map index ?es)"
    using assms(2) by (intro entries_between_sorted) (auto dest: log_wf_index)
  then have "sorted_wrt (<) (sm_last_applied (machine s) # map index ?es)"
    using assms(4) by (auto intro: le_less_trans)
  note ab = sm_abs_fold [OF assms(3) this]
  have "i \<le> max (last_applied s) (commit_index s)" if "e \<in> set ?es" "i = index e" for e i
  proof -
    from that(1) obtain n where n: "entries (log s) (word_of_nat n) = Some e" "n \<le> unat (commit_index s)"
      by (auto simp: entries_between_def set_map_filter simp del: upt_Suc)
    have "n < 2 ^ 64" using n(2) unsigned_less [of "commit_index s", where ?'a = nat] by simp
    then have "unat (word_of_nat n :: u64) = n" by (simp add: unat_of_nat)
    with n log_wf_index [OF assms(2) n(1)] that(2) have "i \<le> commit_index s"
      by (simp add: word_le_nat_alt)
    then show ?thesis by (simp add: le_max_iff_disj)
  qed
  then have "sm_last_applied (fold sm_step es sm) \<le> max (last_applied s) (commit_index s)"
    if "set es \<subseteq> set ?es" "sm_last_applied sm \<le> max (last_applied s) (commit_index s)" for es sm
    using that by (induction es arbitrary: sm) (auto simp: sm_last_applied_step)
  from this [of ?es "machine s"] assms(4)
  have "sm_last_applied (fold sm_step ?es (machine s)) \<le> max (last_applied s) (commit_index s)"
    by (simp add: le_max_iff_disj)
  with apply_committed_free [OF assms(1)] ab sm_wf_fold [OF assms(3)] show ?thesis
    by (simp add: apply_result_of_eq entries_between_def)
qed

lemma apply_runs_log_witness:
  "\<exists>s'. apply_committed_entries (leader_of_two\<lparr>commit_index := 2\<rparr>) = (Ret (), s') \<and>
    sm_abs (machine s') ''k'' = Some [2]"
proof -
  let ?s = "leader_of_two\<lparr>commit_index := 2\<rparr>"
  have "\<not> log_locked ?s" "log_wf (log ?s)" "sm_wf (machine ?s)" "sm_last_applied (machine ?s) \<le> last_applied ?s"
    using lead_log(1) by (simp_all add: leader_of_two_def synced_def new_state_machine_def sm_wf_def)
  from apply_runs_log [OF this] show ?thesis
    by (auto simp: leader_of_two_def log_of_view [OF lead_log(2)] map_filter_simps upt_rec new_state_machine_def)
qed

text \<open>
  Nothing is unapplied.  Over any sequence of events, with any failing system calls, the index
  of the last applied entry and the state machine's own index never decrease.
\<close>

lemma applied_never_decreases:
  "last_applied s \<le> last_applied (fold (step_event E) es s) \<and>
   sm_last_applied (machine s) \<le> sm_last_applied (machine (fold (step_event E) es s))"
proof -
  have "all_ok (step_event E) (\<lambda>s ev. True) s es" by (induction es arbitrary: s) simp_all
  from applied.R_run [OF this] show ?thesis by (simp add: applied_step_def)
qed

lemma hm_insert_absent: "hm_get m k = None \<Longrightarrow> hm_insert k v m = m @ [(k, v)]"
  unfolding hm_get_def hm_insert_def by (induction m) (auto split: if_splits)

section \<open>Commits that should not happen, or never do\<close>

text \<open>
  Acknowledgements are not checked against the membership.  In a cluster of three nodes, one
  success response from a sender that is not a peer (a removed node, say) is enough to commit the
  leader's last entry, although neither peer has acknowledged it.
\<close>

lemma stranger_ack_commits:
  assumes "\<not> log_locked s" "role s = Leader" "aer_term resp \<le> node_term s" "success resp"
    and "hm_wf (pending_requests s)" "length (hm_keys (peers s)) = 2"
    and "from \<notin> set (hm_keys (peers s))" "hm_get (match_index s) from = None"
    and "commit_index s < last_index (log s)" "term_at (log s) (last_index (log s)) = Some (node_term s)"
    and "last_index (log s) \<le> aer_last_log_index resp"
  shows "\<exists>s'. handle_append_entries_response E from resp s = (Ret (), s') \<and>
    commit_index s' = last_index (log s) \<and> hm_get (match_index s') from = Some (aer_last_log_index resp)"
proof -
  let ?s = "record_match from (aer_last_log_index resp) s"
  note h = append_response_success [OF assms(1-5), of E "from"]
  have m: "match_index ?s = match_index s @ [(from, aer_last_log_index resp)]"
    using assms(8) by (simp add: record_match_def hm_insert_absent)
  have a: "majority ?s \<le> ack_count ?s (last_index (log s))"
    using assms(6,11) by (simp add: majority_def ack_count_def m)
  have c: "commit_candidate ?s = Some (last_index (log s))"
  proof (cases "commit_candidate ?s")
    case None
    from commit_candidate_None [OF None, of "last_index (log s)"] a assms(9,10) show ?thesis
      by (simp add: plus_one_le)
  next
    case (Some n)
    have "\<not> n < last_index (log s)"
      using commit_candidate_Some(5) [OF Some, of "last_index (log s)"] a assms(10) by auto
    with commit_candidate_Some(2) [OF Some] Some show ?thesis by simp
  qed
  have "hm_get (match_index ?s) from = Some (aer_last_log_index resp)"
    by (simp add: record_match_def hm.get_ins)
  then show ?thesis using h c by (simp add: advanced_def)
qed

lemma stranger_ack_commits_witness:
  "\<exists>s'. handle_append_entries_response serde_ref ''x'' ack_of_two leader_of_two = (Ret (), s') \<and>
    commit_index s' = 2"
proof -
  have "length (hm_keys (peers leader_of_two)) = 2" "''x'' \<notin> set (hm_keys (peers leader_of_two))"
    "hm_get (match_index leader_of_two) ''x'' = None"
    "commit_index leader_of_two < last_index (log leader_of_two)"
    "term_at (log leader_of_two) (last_index (log leader_of_two)) = Some (node_term leader_of_two)"
    "last_index (log leader_of_two) \<le> aer_last_log_index ack_of_two"
    by (simp_all only: leader_of_two_facts)
      (simp_all add: term_at_def log_of_view [OF lead_log(2)] hm_get_def)
  from stranger_ack_commits [OF leader_of_two_facts(1,2) leader_of_two_acked(1,2) leader_of_two_facts(4)
      this, of serde_ref]
  show ?thesis by (auto simp: leader_of_two_facts log_of_view [OF lead_log(2)])
qed

definition uncommitted :: "node \<Rightarrow> node \<Rightarrow> bool" where
  "uncommitted s t \<longleftrightarrow> commit_index t = commit_index s \<and> last_applied t = last_applied s \<and>
     machine t = machine s \<and>
     (\<forall>r \<in> set (replies t). r \<in> set (replies s) \<or> (\<exists>tx l. r = (tx, NotLeader l)))"

fun is_delivery :: "node_event \<Rightarrow> bool" where
  "is_delivery (Deliver env) = True"
| "is_delivery _ = False"

lemma uncommitted_run_event:
  assumes "\<not> is_delivery ev"
  shows "post (run_event E ev) (\<lambda>r s'. uncommitted s s') s"
proof (cases ev)
  case (Deliver env)
  with assms show ?thesis by simp
next
  case (ElectionTimer timeout)
  then show ?thesis
    by (auto simp: run_event_def election_tick_def start_election_def wp post_send_each uncommitted_def
        leader_state_def broadcast_def intro!: post_set_current_term post_set_voted_for split: res.splits)
next
  case (ClientPropose c tx)
  then show ?thesis
    by (auto simp: run_event_def propose_def reply_to_def wp uncommitted_def broadcast_def
        intro!: post_log_append split: res.splits)
qed (auto simp: run_event_def heartbeat_tick_def add_peer_def remove_peer_def get_status_def wp
      uncommitted_def broadcast_def split: res.splits)

interpretation silence: evolution "step_event E" "\<lambda>s ev. \<not> is_delivery ev" uncommitted
  for E :: "'e serde_scheme"
proof
  show "uncommitted s t \<Longrightarrow> uncommitted t u \<Longrightarrow> uncommitted s u" for s t u
    unfolding uncommitted_def by fastforce
  show "\<not> is_delivery ev \<Longrightarrow> uncommitted s (step_event E ev s)" for s ev
    by (blast intro: step_event_post uncommitted_run_event)
qed (simp add: uncommitted_def)




section \<open>The apply loop\<close>

text \<open>
  C30: The apply loop of the source, as a while loop, terminates from every state: it stops when the last
  applied index has reached the commit index, which it never passes, and no index overflows on the way.
\<close>
theorem apply_loop_terminates:
  "while_option (\<lambda>(la, sm). la < commit)
     (\<lambda>(la, sm). (la + 1, case m (la + 1) of None \<Rightarrow> sm | Some e \<Rightarrow> sm_step e sm)) (la, sm) =
   Some (apply_loop m commit la sm) \<and> fst (apply_loop m commit la sm) = max la commit"
proof
  show "while_option (\<lambda>(la, sm). la < commit)
     (\<lambda>(la, sm). (la + 1, case m (la + 1) of None \<Rightarrow> sm | Some e \<Rightarrow> sm_step e sm)) (la, sm) =
    Some (apply_loop m commit la sm)"
  proof (induction m commit la sm rule: apply_loop.induct)
    case (1 m commit la sm)
    then show ?case
      by (subst while_option_unfold) (simp add: apply_loop.simps [of m commit la sm] Let_def)
  qed
  show "fst (apply_loop m commit la sm) = max la commit" by (simp add: apply_loop_eq)
qed

end
