(* ===== verification/Cluster.thy ===== *)
theory Cluster
  imports Election_Properties Commit_Properties
begin

text \<open>
  The cluster: nodes that run the handlers of \<open>Node\<close> and exchange the messages these send.  A
  message once sent may be delivered at any later time, in any order, again, or never, which covers
  what TCP connections that break and reconnect do between the nodes.  A node may crash between two
  events and come back from its data directory.  System calls work in this model; failing ones are
  the subject of the single-node theorems.
\<close>

section \<open>What a node sends\<close>

definition message_ok :: "'e serde_scheme \<Rightarrow> node \<Rightarrow> message_envelope \<Rightarrow> bool" where
  "message_ok E s env \<longleftrightarrow> env_from env = push_str E 64 (node_id s) \<and>
     (case message env of
        AppendEntries req \<Rightarrow> consecutive (prev_log_index req) (ae_entries req) \<and> list_all entry_ok (ae_entries req)
      | RequestVote req \<Rightarrow> candidate_id req = env_from env \<and> rv_term req = node_term s \<and>
          log_voted_for (log s) = Some (candidate_id req)
      | RequestVoteResponse resp \<Rightarrow> vote_granted resp \<longrightarrow>
          rvr_term resp = node_term s \<and> log_voted_for (log s) = Some (env_to env)
      | _ \<Rightarrow> True)"

definition node_good :: "'e serde_scheme \<Rightarrow> node \<Rightarrow> node \<Rightarrow> bool" where
  "node_good E s t \<longleftrightarrow> node_id t = node_id s \<and> config t = config s \<and> synced E (log t) \<and>
     (\<exists>new. outgoing t = outgoing s @ new \<and> list_all (message_ok E t) new)"

text \<open>What the handling of a message may rely on: every message in flight satisfies it.\<close>

definition delivery_ok :: "'e serde_scheme \<Rightarrow> message_envelope \<Rightarrow> bool" where
  "delivery_ok E env \<longleftrightarrow> length (env_from env) \<le> 64 \<and>
     (case message env of
        AppendEntries req \<Rightarrow> consecutive (prev_log_index req) (ae_entries req) \<and> list_all entry_ok (ae_entries req)
      | RequestVote req \<Rightarrow> candidate_id req = env_from env
      | _ \<Rightarrow> True)"

lemma node_good_quiet:
  "node_id t = node_id s \<Longrightarrow> config t = config s \<Longrightarrow> outgoing t = outgoing s \<Longrightarrow> synced E (log t) \<Longrightarrow> node_good E s t"
  by (simp add: node_good_def)

lemma node_good_sends:
  "node_id t = node_id s \<Longrightarrow> config t = config s \<Longrightarrow> outgoing t = outgoing s @ new \<Longrightarrow> synced E (log t) \<Longrightarrow>
   list_all (message_ok E t) new \<Longrightarrow> node_good E s t"
  by (simp add: node_good_def)

lemma heartbeat_ok:
  assumes "synced E (log s)" "node_id t = node_id s"
  shows "message_ok E t (heartbeat E s p)"
proof -
  have "log_wf (log s)" using assms(1) by (simp add: synced_def)
  note a = append_entries_for_wf [OF this, where E = E and p = p]
  have "list_all entry_ok (ae_entries (append_entries_for E s p))"
    using a(2) synced_entry_ok [OF assms(1)] by (auto simp: list_all_iff)
  with a(1) assms(2) show ?thesis by (simp add: message_ok_def heartbeat_def new_envelope_def)
qed

lemma heartbeats_ok:
  "synced E (log s) \<Longrightarrow> node_id t = node_id s \<Longrightarrow> list_all (message_ok E t) (map (heartbeat E s) ps)"
  by (simp add: list_all_iff heartbeat_ok)

section \<open>Rules for operations whose system calls work\<close>

lemma post_set_current_term_synced:
  assumes "serde_ok E" "synced E l"
    and "\<And>l'. synced E l' \<Longrightarrow> entries l' = entries l \<Longrightarrow> last_index l' = last_index l \<Longrightarrow>
      persistent l' = \<lparr>current_term = t, voted_for = None\<rparr> \<Longrightarrow> Q (Ret ()) l'"
  shows "post (set_current_term E t) Q l"
  using synced_set_current_term [OF assms(1,2), of t] assms(3) by (auto simp: post_def log_view_def)

lemma post_set_voted_for_synced:
  assumes "serde_ok E" "synced E l"
    and "\<And>l'. synced E l' \<Longrightarrow> entries l' = entries l \<Longrightarrow> last_index l' = last_index l \<Longrightarrow>
      persistent l' = (persistent l)\<lparr>voted_for := map_option (push_str E 64) c\<rparr> \<Longrightarrow> Q (Ret ()) l'"
  shows "post (set_voted_for E c) Q l"
  using synced_set_voted_for [OF assms(1,2), of c] assms(3) by (auto simp: post_def log_view_def)

lemma post_delete_conflicting_synced:
  assumes "serde_ok E" "synced E l" "consecutive i es" "i \<le> last_index l"
    and "\<And>l'. synced E l' \<Longrightarrow> i \<le> last_index l' \<Longrightarrow> persistent l' = persistent l \<Longrightarrow> Q (Ret ()) l'"
  shows "post (delete_conflicting E es) Q l"
proof -
  have "persistent (cut_log es l) = persistent l"
    by (simp add: cut_log_def mem_truncate_def split: option.split)
  with delete_conflicting_synced [OF assms(1-4)] assms(5) show ?thesis
    by (auto simp: post_def log_view_def)
qed

lemma post_append_entries_synced:
  assumes "serde_ok E" "synced E l" "consecutive i es" "i \<le> last_index l" "list_all entry_ok es"
    and "\<And>l'. synced E l' \<Longrightarrow> persistent l' = persistent l \<Longrightarrow> Q (Ret ()) l'"
  shows "post (append_entries E es) Q l"
  using synced_append_entries [OF assms(1,2) consecutive_fits [OF assms(3,4)] assms(5)] assms(6)
  by (simp add: post_def)

lemma post_log_append_synced:
  fixes t :: u64
  assumes "serde_ok E" "synced E l" "last_index l \<noteq> - 1" "command_ok c"
    and "\<And>l' i. synced E l' \<Longrightarrow> persistent l' = persistent l \<Longrightarrow> Q (Ret i) l'"
  shows "post (log_append E t c) Q l"
  using synced_log_append [OF assms(1-4), of t] assms(5) by (simp add: post_def)

lemma has_entry_le:
  "synced E l \<Longrightarrow> has_entry l i t \<Longrightarrow> i \<le> last_index l"
  by (auto simp: has_entry_def synced_def split: option.splits dest: log_wf_le)

section \<open>Every event is good\<close>

lemma good_handle_request_vote:
  assumes "serde_ok E" "synced E (log s)" "candidate_id req = from" "length from \<le> 64"
  shows "post (handle_request_vote E from req) (\<lambda>r s'. node_good E s s') s"
  using assms
  by (auto simp: handle_request_vote_def wp Let_def push_str_fits serde_ok_heapless log_current_term_def
      log_voted_for_def message_ok_def request_vote_reply_def new_envelope_def node_good_def
      intro!: post_set_current_term_synced post_set_voted_for_synced split: res.splits)

lemma good_handle_append_entries:
  assumes "serde_ok E" "synced E (log s)" "consecutive (prev_log_index req) (ae_entries req)"
    "list_all entry_ok (ae_entries req)"
  shows "post (handle_append_entries E from req) (\<lambda>r s'. node_good E s s') s"
proof -
  have h: "prev_log_index req \<le> last_index l"
    if "synced E l" "entries l = entries (log s)" "last_index l = last_index (log s)"
      "0 < prev_log_index req \<longrightarrow> has_entry l (prev_log_index req) (prev_log_term req)" for l
    using that has_entry_le [OF that(1)] by (cases "prev_log_index req = 0") (auto simp: word_gt_0)
  show ?thesis
    using assms h
    by (auto simp: handle_append_entries_def wp update_commit_def log_current_term_def
        message_ok_def append_entries_reply_def new_envelope_def node_good_def apply_result_of_eq
        intro!: post_set_current_term_synced post_append_entries_synced
          post_delete_conflicting_synced [where i = "prev_log_index req"]
        split: res.splits)
qed

lemma good_handle_append_entries_response:
  assumes "serde_ok E" "synced E (log s)"
  shows "post (handle_append_entries_response E from resp) (\<lambda>r s'. node_good E s s') s"
  using assms
  by (auto simp: handle_append_entries_response_def wp log_current_term_def node_good_def apply_result_of_eq
      intro!: post_set_current_term_synced post_try_advance split: res.splits option.splits)

lemma good_broadcast:
  assumes "synced E (log t)" "node_id t = node_id s" "config t = config s" "outgoing t = outgoing s"
  shows "node_good E s (broadcast E t)"
proof (rule node_good_sends)
  show "outgoing (broadcast E t) = outgoing s @ map (heartbeat E t) (hm_keys (peers t))"
    using assms(4) by (simp add: broadcast_def)
  show "list_all (message_ok E (broadcast E t)) (map (heartbeat E t) (hm_keys (peers t)))"
    using assms(1) by (intro heartbeats_ok) simp_all
qed (use assms in \<open>simp_all add: broadcast_def\<close>)

lemma good_handle_request_vote_response:
  assumes "serde_ok E" "synced E (log s)"
  shows "post (handle_request_vote_response E from resp) (\<lambda>r s'. node_good E s s') s"
  using assms
  by (auto simp: handle_request_vote_response_def wp log_current_term_def leader_state_def
      intro!: post_set_current_term_synced node_good_quiet good_broadcast split: res.splits)

lemma good_propose:
  assumes "serde_ok E" "synced E (log s)" "last_index (log s) \<noteq> - 1" "command_ok c"
  shows "post (propose E c tx) (\<lambda>r s'. node_good E s s') s"
  using assms
  by (auto simp: propose_def reply_to_def wp intro!: post_log_append_synced node_good_quiet good_broadcast
      split: res.splits)

lemma good_start_election:
  assumes "serde_ok E" "synced E (log s)"
  shows "post (start_election E) (\<lambda>r s'. node_good E s s') s"
proof (cases "log_locked s")
  case True
  with assms(2) show ?thesis by (simp add: start_election_def wp node_good_def)
next
  case False
  with assms have "node_ok E s" by (simp add: node_ok_def)
  from start_election_ok [OF this] obtain l where l: "start_election E s =
      (Ret (), if hm_keys (peers s) = [] then broadcast E (leader_state (candidate_state E l s))
               else candidate_state E l s)" "synced E l"
    "log_view l = (entries (log s),
      \<lparr>current_term = node_term s + 1, voted_for = Some (push_str E 64 (node_id s))\<rparr>, last_index (log s))"
    by blast
  have "node_good E s (broadcast E (leader_state (candidate_state E l s)))" if "hm_keys (peers s) = []"
    using l(2) that by (intro good_broadcast) (simp_all add: candidate_state_def leader_state_def)
  moreover have "list_all (message_ok E t) (map (campaign E s (node_term s + 1)) ps)"
    if "node_id t = node_id s" "log t = l" for t ps
    using that log_of_view [OF l(3)] by (simp add: list_all_iff message_ok_def campaign_def new_envelope_def vote_request_def)
  then have "node_good E s (candidate_state E l s)"
    using l(2) by (simp add: node_good_def candidate_state_def)
  ultimately show ?thesis using l(1) by (simp add: post_def)
qed

text \<open>Which events the model admits: messages that were sent, and no overflow of a term or an index.\<close>

definition admissible :: "'e serde_scheme \<Rightarrow> node \<Rightarrow> node_event \<Rightarrow> bool" where
  "admissible E s ev = (case ev of
      Deliver env \<Rightarrow> delivery_ok E env
    | ElectionTimer timeout \<Rightarrow> node_term s \<noteq> - 1
    | ClientPropose c tx \<Rightarrow> last_index (log s) \<noteq> - 1 \<and> command_ok c
    | _ \<Rightarrow> True)"

lemma good_run_event:
  assumes "serde_ok E" "synced E (log s)" "admissible E s ev"
  shows "post (run_event E ev) (\<lambda>r s'. node_good E s s') s"
proof (cases ev)
  case (Deliver env)
  then show ?thesis
    using assms good_handle_append_entries good_handle_append_entries_response
      good_handle_request_vote good_handle_request_vote_response
    by (auto simp: run_event_def handle_message_def admissible_def delivery_ok_def wp node_good_quiet
        split: raft_message.splits)
next
  case (ElectionTimer timeout)
  then show ?thesis
    using assms good_start_election by (auto simp: run_event_def election_tick_def wp node_good_quiet)
next
  case (ClientPropose c tx)
  then show ?thesis using assms by (simp add: run_event_def good_propose admissible_def)
qed (use assms(2) in \<open>auto simp: run_event_def heartbeat_tick_def add_peer_def remove_peer_def get_status_def wp
      node_good_quiet good_broadcast split: res.splits\<close>)

section \<open>The step relation\<close>

record cluster =
  members :: "string \<rightharpoonup> node"
  sent :: "message_envelope list"

definition enabled :: "'e serde_scheme \<Rightarrow> cluster \<Rightarrow> node \<Rightarrow> node_event \<Rightarrow> bool" where
  "enabled E c s ev = (case ev of
      Deliver env \<Rightarrow> env \<in> set (sent c) \<and> env_to env = push_str E 64 (node_id s)
    | ElectionTimer timeout \<Rightarrow> node_term s \<noteq> - 1
    | ClientPropose cmd tx \<Rightarrow> last_index (log s) \<noteq> - 1 \<and> command_ok cmd
    | _ \<Rightarrow> True)"

definition act :: "'e serde_scheme \<Rightarrow> string \<Rightarrow> node_event \<Rightarrow> node \<Rightarrow> cluster \<Rightarrow> cluster" where
  "act E n ev s c = (let s' = step_event E ev s in
     c\<lparr>members := (members c)(n \<mapsto> s'\<lparr>outgoing := []\<rparr>), sent := sent c @ outgoing s'\<rparr>)"

inductive cluster_step :: "'e serde_scheme \<Rightarrow> cluster \<Rightarrow> cluster \<Rightarrow> bool" for E where
  event: "members c n = Some s \<Longrightarrow> enabled E c s ev \<Longrightarrow> cluster_step E c (act E n ev s c)"
| time_passes: "members c n = Some s \<Longrightarrow> cluster_step E c (c\<lparr>members := (members c)(n \<mapsto> s\<lparr>clock := now\<rparr>)\<rparr>)"
| crash_restart: "members c n = Some s \<Longrightarrow> new_node E (config s) (data_dir (log s)) now = Inr s' \<Longrightarrow>
    cluster_step E c (c\<lparr>members := (members c)(n \<mapsto> s')\<rparr>)"

definition initial_cluster :: "'e serde_scheme \<Rightarrow> cluster \<Rightarrow> bool" where
  "initial_cluster E c \<longleftrightarrow> sent c = [] \<and> (\<forall>n s. members c n = Some s \<longrightarrow> length n \<le> 64 \<and>
     (\<exists>cfg now. cfg_node_id (cfg_server cfg) = n \<and> new_node E cfg no_files now = Inr s))"

inductive reachable :: "'e serde_scheme \<Rightarrow> cluster \<Rightarrow> bool" for E where
  start: "initial_cluster E c \<Longrightarrow> reachable E c"
| step: "reachable E c \<Longrightarrow> cluster_step E c c' \<Longrightarrow> reachable E c'"

inductive_cases cluster_stepE: "cluster_step E c c'"

section \<open>Invariants\<close>

definition member_ok :: "'e serde_scheme \<Rightarrow> string \<Rightarrow> node \<Rightarrow> bool" where
  "member_ok E n s \<longleftrightarrow> node_id s = n \<and> cfg_node_id (cfg_server (config s)) = n \<and> length n \<le> 64 \<and>
     synced E (log s) \<and> outgoing s = []"

text \<open>
  A vote that a message in flight testifies: voter, term and candidate.  A granted reply is its
  sender's vote, and a request is the candidate's vote for itself.
\<close>

definition promise :: "message_envelope \<Rightarrow> (string \<times> u64 \<times> string) option" where
  "promise env = (case message env of
      RequestVoteResponse resp \<Rightarrow>
        if vote_granted resp then Some (env_from env, rvr_term resp, env_to env) else None
    | RequestVote req \<Rightarrow> Some (env_from env, rv_term req, candidate_id req)
    | _ \<Rightarrow> None)"

text \<open>The voter keeps it: the term is over, or the vote is still the one promised.\<close>

definition kept :: "node \<Rightarrow> u64 \<Rightarrow> string \<Rightarrow> bool" where
  "kept s t c \<longleftrightarrow> t < node_term s \<or> (t = node_term s \<and> log_voted_for (log s) = Some c)"

definition cluster_inv :: "'e serde_scheme \<Rightarrow> cluster \<Rightarrow> bool" where
  "cluster_inv E c \<longleftrightarrow>
     (\<forall>n s. members c n = Some s \<longrightarrow> member_ok E n s) \<and>
     (\<forall>env \<in> set (sent c). delivery_ok E env \<and> env_from env \<in> dom (members c)) \<and>
     (\<forall>env \<in> set (sent c). \<forall>n t d s. promise env = Some (n, t, d) \<and> members c n = Some s \<longrightarrow> kept s t d) \<and>
     (\<forall>env \<in> set (sent c). \<forall>env' \<in> set (sent c). \<forall>n t d d'.
        promise env = Some (n, t, d) \<and> promise env' = Some (n, t, d') \<longrightarrow> d = d')"

lemma kept_step: "kept s t d \<Longrightarrow> node_votes s s' \<Longrightarrow> kept s' t d"
  by (auto simp: kept_def node_votes_def vote_step_def log_current_term_def log_voted_for_def)

lemma message_ok_delivery:
  assumes "message_ok E s env" "heapless_ok E" "length (node_id s) \<le> 64"
  shows "delivery_ok E env" "env_from env = node_id s"
    "promise env = Some (n, t, d) \<Longrightarrow> n = node_id s \<and> t = node_term s \<and> log_voted_for (log s) = Some d"
  using assms
  by (auto simp: message_ok_def delivery_ok_def promise_def push_str_fits split: raft_message.splits if_splits)

lemma delivery_ok_vote:
  "delivery_ok E env \<Longrightarrow> message env = RequestVote req \<Longrightarrow> length (candidate_id req) \<le> 64"
  by (simp add: delivery_ok_def)

lemma promise_from: "promise env = Some (n, t, d) \<Longrightarrow> n = env_from env"
  by (auto simp: promise_def split: raft_message.splits if_splits)

lemma promise_unique:
  "cluster_inv E c \<Longrightarrow> env \<in> set (sent c) \<Longrightarrow> env' \<in> set (sent c) \<Longrightarrow>
   promise env = Some (n, t, d) \<Longrightarrow> promise env' = Some (n, t, d') \<Longrightarrow> d = d'"
  unfolding cluster_inv_def by blast

lemma event_admissible: "cluster_inv E c \<Longrightarrow> enabled E c s ev \<Longrightarrow> admissible E s ev"
  by (auto simp: cluster_inv_def admissible_def enabled_def split: node_event.splits)

lemma event_good:
  assumes "serde_ok E" "cluster_inv E c" "members c n = Some s" "enabled E c s ev"
  shows "node_good E s (step_event E ev s)" "node_votes s (step_event E ev s)"
proof -
  have "synced E (log s)" using assms(2,3) by (auto simp: cluster_inv_def member_ok_def)
  from good_run_event [OF assms(1) this event_admissible [OF assms(2,4)]]
  show "node_good E s (step_event E ev s)" by (rule step_event_post [where R = "node_good E"])
  have "\<forall>env \<in> set (sent c). delivery_ok E env" using assms(2) by (simp add: cluster_inv_def)
  then have "event_ok s ev"
    using assms(4) by (auto simp: event_ok_def enabled_def delivery_ok_vote split: node_event.splits raft_message.splits)
  from votes_run_event [OF serde_ok_heapless [OF assms(1)] this]
  show "node_votes s (step_event E ev s)" by (rule step_event_post [where R = node_votes])
qed

lemma event_sends:
  assumes "serde_ok E" "cluster_inv E c" "members c n = Some s" "enabled E c s ev"
    and "env \<in> set (outgoing (step_event E ev s))"
  shows "delivery_ok E env" "env_from env = n"
    "promise env = Some (k, t, d) \<Longrightarrow>
       k = n \<and> t = node_term (step_event E ev s) \<and> log_voted_for (log (step_event E ev s)) = Some d"
proof -
  have m: "node_id s = n" "length n \<le> 64" "outgoing s = []"
    using assms(2,3) by (auto simp: cluster_inv_def member_ok_def)
  have g: "node_good E s (step_event E ev s)" by (rule event_good [OF assms(1-4)])
  then have id': "node_id (step_event E ev s) = n" using m(1) by (simp add: node_good_def)
  have ok: "message_ok E (step_event E ev s) env" using g m(3) assms(5) by (auto simp: node_good_def list_all_iff)
  have l: "length (node_id (step_event E ev s)) \<le> 64" using id' m(2) by simp
  note d = message_ok_delivery [OF ok serde_ok_heapless [OF assms(1)] l]
  from d show "delivery_ok E env" "env_from env = n" using id' by simp_all
  show "promise env = Some (k, t, d) \<Longrightarrow>
       k = n \<and> t = node_term (step_event E ev s) \<and> log_voted_for (log (step_event E ev s)) = Some d"
    using d(3) id' by simp
qed
lemma inv_event:
  assumes E: "serde_ok E" and I: "cluster_inv E c" and s: "members c n = Some s" and en: "enabled E c s ev"
  shows "cluster_inv E (act E n ev s c)"
proof -
  define s' where "s' = step_event E ev s"
  note good = event_good [OF E I s en, folded s'_def] and new = event_sends [OF E I s en, folded s'_def]
  have v: "node_votes s s'" by (rule good(2))
  have old_kept: "kept u t d" if "env \<in> set (sent c)" "promise env = Some (k, t, d)" "members c k = Some u" for env k t d u
    using I that unfolding cluster_inv_def by blast
  have old_unique: "d = d'" if "env \<in> set (sent c)" "env' \<in> set (sent c)" "promise env = Some (k, t, d)" "promise env' = Some (k, t, d')" for env env' k t d d'
    using I that unfolding cluster_inv_def by blast
  have mixed: "d = d'" if "env \<in> set (sent c)" "env' \<in> set (outgoing s')" "promise env = Some (k, t, d)" "promise env' = Some (k, t, d')" for env env' k t d d'
  proof -
    from new(3) [OF that(2,4)] have k: "k = n" "t = node_term s'" "log_voted_for (log s') = Some d'" by auto
    from old_kept [OF that(1,3)] s k(1) have "kept s t d" by simp
    from kept_step [OF this v] k show ?thesis by (auto simp: kept_def)
  qed
  have ok': "member_ok E n (s'\<lparr>outgoing := []\<rparr>)"
    using good(1) I s by (auto simp: member_ok_def node_good_def cluster_inv_def)
  let ?c = "act E n ev s c" and ?s = "s'\<lparr>outgoing := []\<rparr>"
  have c': "members ?c = (members c)(n \<mapsto> ?s)" "set (sent ?c) = set (sent c) \<union> set (outgoing s')"
    by (simp_all add: act_def s'_def Let_def)
  have kept': "kept ?s t d = kept s' t d" for t d by (simp add: kept_def)
  show ?thesis
    unfolding cluster_inv_def c'
  proof (intro conjI allI ballI impI)
    fix k u assume "((members c)(n \<mapsto> ?s)) k = Some u"
    then show "member_ok E k u" using ok' I by (auto simp: cluster_inv_def split: if_splits)
  next
    fix env assume e: "env \<in> set (sent c) \<union> set (outgoing s')"
    then show "delivery_ok E env" using I new(1) by (auto simp: cluster_inv_def)
    show "env_from env \<in> dom ((members c)(n \<mapsto> ?s))"
      using e new(2) I by (auto simp: cluster_inv_def)
  next
    fix env k t d u
    assume e: "env \<in> set (sent c) \<union> set (outgoing s')"
      and p: "promise env = Some (k, t, d) \<and> ((members c)(n \<mapsto> ?s)) k = Some u"
    show "kept u t d"
    proof (cases "env \<in> set (outgoing s')")
      case True
      with new(3) p have "k = n" "t = node_term s'" "log_voted_for (log s') = Some d" by blast+
      with p show ?thesis by (auto simp: kept_def)
    next
      case False
      with e have old: "env \<in> set (sent c)" by blast
      show ?thesis
      proof (cases "k = n")
        case True
        with p old_kept [OF old _ s] have "kept s t d" by blast
        from kept_step [OF this v] True p show ?thesis by (auto simp: kept')
      qed (use p old_kept [OF old] in auto)
    qed
  next
    fix env env' k t d d'
    assume "env \<in> set (sent c) \<union> set (outgoing s')" "env' \<in> set (sent c) \<union> set (outgoing s')"
      "promise env = Some (k, t, d) \<and> promise env' = Some (k, t, d')"
    then show "d = d'"
      using old_unique mixed new(3) by (metis UnE option.inject)
  qed
qed

lemma node_votes_same: "persistent (log s') = persistent (log s) \<Longrightarrow> kept s' t d = kept s t d"
  by (simp add: kept_def log_current_term_def log_voted_for_def)

lemma inv_replace:
  assumes I: "cluster_inv E c" and s: "members c n = Some s" and ok: "member_ok E n s'"
    and p: "persistent (log s') = persistent (log s)"
  shows "cluster_inv E (c\<lparr>members := (members c)(n \<mapsto> s')\<rparr>)"
proof -
  have k: "kept u t d" if "env \<in> set (sent c)" "promise env = Some (k, t, d)"
    "((members c)(n \<mapsto> s')) k = Some u" for env k t d u
  proof -
    from that(3) obtain u' where u': "members c k = Some u'" "persistent (log u) = persistent (log u')"
      using s p by (cases "k = n") auto
    then have "kept u' t d" using I that(1,2) unfolding cluster_inv_def by blast
    then show ?thesis using node_votes_same [OF u'(2)] by blast
  qed
  have c': "members (c\<lparr>members := (members c)(n \<mapsto> s')\<rparr>) = (members c)(n \<mapsto> s')"
    "sent (c\<lparr>members := (members c)(n \<mapsto> s')\<rparr>) = sent c" by simp_all
  show ?thesis
    unfolding cluster_inv_def c'
  proof (intro conjI allI ballI impI)
    fix k u assume "((members c)(n \<mapsto> s')) k = Some u"
    then show "member_ok E k u" using I ok by (auto simp: cluster_inv_def split: if_splits)
  next
    fix env assume "env \<in> set (sent c)"
    then show "delivery_ok E env" "env_from env \<in> dom ((members c)(n \<mapsto> s'))"
      using I s by (auto simp: cluster_inv_def)
  next
    fix env k t d u
    assume "env \<in> set (sent c)" "promise env = Some (k, t, d) \<and> ((members c)(n \<mapsto> s')) k = Some u"
    then show "kept u t d" using k by blast
  next
    fix env env' k t d d'
    assume "env \<in> set (sent c)" "env' \<in> set (sent c)"
      "promise env = Some (k, t, d) \<and> promise env' = Some (k, t, d')"
    then show "d = d'" using promise_unique [OF I] by blast
  qed
qed

lemma new_node_synced:
  assumes "serde_ok E" "synced E l" "new_node E cfg (data_dir l) now = Inr s'"
  shows "synced E (log s')" "persistent (log s') = persistent l" "node_id s' = cfg_node_id (cfg_server cfg)"
    "config s' = cfg" "outgoing s' = []" "entries (log s') = entries l"
  using new_raft_log_synced [OF assms(1,2)] assms(3) by (auto simp: new_node_def log_view_def)

lemma inv_step:
  assumes E: "serde_ok E" and I: "cluster_inv E c" and st: "cluster_step E c c'"
  shows "cluster_inv E c'"
  using st
proof (cases rule: cluster_step.cases)
  case (event n s ev)
  with inv_event [OF E I] show ?thesis by blast
next
  case (time_passes n s now)
  then have "member_ok E n (s\<lparr>clock := now\<rparr>)" using I by (auto simp: cluster_inv_def member_ok_def)
  with time_passes I show ?thesis by (auto intro: inv_replace)
next
  case (crash_restart n s now s')
  then have m: "member_ok E n s" using I by (auto simp: cluster_inv_def)
  then have "synced E (log s)" by (simp add: member_ok_def)
  note n = new_node_synced [OF E this crash_restart(3)]
  have "member_ok E n s'" using n m by (simp add: member_ok_def)
  from inv_replace [OF I crash_restart(2) this n(2)] crash_restart(1) show ?thesis by simp
qed

lemma inv_initial: "initial_cluster E c \<Longrightarrow> cluster_inv E c"
  by (fastforce simp: initial_cluster_def cluster_inv_def member_ok_def new_node_def no_files_def
      new_raft_log_fresh fresh_log_synced)

lemma inv_reachable: "reachable E c \<Longrightarrow> serde_ok E \<Longrightarrow> cluster_inv E c"
  by (induction rule: reachable.induct) (auto intro: inv_initial inv_step)

end
