(* ===== verification/Cluster_Properties.thy ===== *)
theory Cluster_Properties
  imports Cluster
begin

text \<open>
  Safety of the cluster, and runs of three nodes that break what Raft promises.  A run is a list of
  moves from three nodes started on empty data directories; its end is computed by rewriting.
\<close>

section \<open>Evaluating events\<close>

lemma fresh_grown: "fresh_log = grown_log []"
  by (simp add: grown_log_def)

lemma grown_step: "run_log_op serde_ref x (grown_log ops) = grown_log (ops @ [x])"
  by (simp add: grown_log_def)

definition ops_ok :: "log_op list \<Rightarrow> bool" where
  "ops_ok ops = all_ok (view_op serde_ref) view_ok fresh_view ops"

lemma grown_synced: "ops_ok ops \<Longrightarrow> synced serde_ref (grown_log ops)"
  unfolding ops_ok_def by (rule grown_log(1))

lemma grown_view: "ops_ok ops \<Longrightarrow> log_view (grown_log ops) = fold (view_op serde_ref) ops fresh_view"
  unfolding ops_ok_def by (rule grown_log(2))

lemma grown_set_term:
  assumes "ops_ok ops"
  shows "set_current_term serde_ref t (grown_log ops) = (Ret (), grown_log (ops @ [SetTerm t]))"
  using synced_set_current_term [OF serde_ref_ok grown_synced [OF assms], of t]
  by (auto simp flip: grown_step)

lemma grown_set_vote:
  assumes "ops_ok ops"
  shows "set_voted_for serde_ref c (grown_log ops) = (Ret (), grown_log (ops @ [SetVote c]))"
  using synced_set_voted_for [OF serde_ref_ok grown_synced [OF assms], of c]
  by (auto simp flip: grown_step)

lemma grown_log_append:
  fixes t :: u64
  assumes "ops_ok ops" "last_index (grown_log ops) \<noteq> - 1" "command_ok c"
  shows "log_append serde_ref t c (grown_log ops) =
    (Ret (last_index (grown_log ops) + 1), grown_log (ops @ [AppendCmd t c]))"
  using synced_log_append(1) [OF serde_ref_ok grown_synced [OF assms(1)] assms(2,3), of t]
  by (auto simp flip: grown_step)

lemma grown_sel:
  assumes "ops_ok ops"
  shows "entries (grown_log ops) = fst (fold (view_op serde_ref) ops fresh_view)"
    "last_index (grown_log ops) = snd (snd (fold (view_op serde_ref) ops fresh_view))"
    "persistent (grown_log ops) = fst (snd (fold (view_op serde_ref) ops fresh_view))"
    "log_current_term (grown_log ops) = current_term (fst (snd (fold (view_op serde_ref) ops fresh_view)))"
    "log_voted_for (grown_log ops) = voted_for (fst (snd (fold (view_op serde_ref) ops fresh_view)))"
  using grown_view [OF assms]
  by (simp_all add: log_view_def log_current_term_def log_voted_for_def flip: grown_view [OF assms])

lemmas event_defs = step_event_def run_event_def election_tick_def heartbeat_tick_def handle_message_def
  start_election_def handle_request_vote_response_def handle_append_entries_def
  handle_append_entries_response_def handle_request_vote_def propose_def scope_def lock_log_def
  drop_log_def send_envelope_def send_request_vote_response_def send_append_entries_response_def
  new_envelope_def time_since_heartbeat_def vote_request_def

lemma hm_eval:
  "hm_keys ((k, v) # m) = k # hm_keys m" "hm_remove k [] = []"
  "hm_remove k ((k', v) # m) = (if k = k' then hm_remove k m else (k', v) # hm_remove k m)"
  by (simp_all add: hm_keys_def hm_remove_def)

lemmas log_defs = run_simps grown_set_term grown_set_vote grown_log_append ops_ok_def grown_sel last_term_def
  sample_peers_keys hm_eval fresh_view_def default_persistent_state_def

datatype move = Happens string node_event | Clock string nat

definition make_move :: "'e serde_scheme \<Rightarrow> move \<Rightarrow> cluster \<Rightarrow> cluster" where
  "make_move E mv c = (case mv of
      Happens n ev \<Rightarrow> (case members c n of None \<Rightarrow> c
        | Some s \<Rightarrow> if enabled E c s ev then act E n ev s c else c)
    | Clock n now \<Rightarrow> (case members c n of None \<Rightarrow> c
        | Some s \<Rightarrow> c\<lparr>members := (members c)(n \<mapsto> s\<lparr>clock := now\<rparr>)\<rparr>))"

lemma reachable_moves: "reachable E c \<Longrightarrow> reachable E (fold (make_move E) mvs c)"
proof (induction mvs arbitrary: c)
  case Nil
  then show ?case by simp
next
  case (Cons mv mvs)
  have "reachable E (make_move E mv c)"
    using Cons.prems
    by (auto simp: make_move_def intro: reachable.step cluster_step.event cluster_step.time_passes
        split: move.split option.split)
  then show ?case by (simp add: Cons.IH)
qed

definition trio :: cluster where
  "trio = \<lparr>members = [''a'' \<mapsto> idle_node ''a'' [''b'', ''c''] (grown_log []),
                     ''b'' \<mapsto> idle_node ''b'' [''a'', ''c''] (grown_log []),
                     ''c'' \<mapsto> idle_node ''c'' [''a'', ''b''] (grown_log [])], sent = []\<rparr>"

lemma trio_initial: "initial_cluster serde_ref trio"
proof -
  have "\<exists>cfg now. cfg_node_id (cfg_server cfg) = n \<and> new_node serde_ref cfg no_files now = Inr (idle_node n ps (grown_log []))" for n ps
    using new_node_idle [of n ps]
    by (intro exI [of _ "sample_config n ps"] exI [of _ 0])
      (simp add: no_files_def fresh_grown sample_config_def default_for_testing_def)
  then show "initial_cluster serde_ref trio"
    by (auto simp: initial_cluster_def trio_def split: if_splits)
qed

lemma trio_reachable: "reachable serde_ref trio"
  by (rule reachable.start [OF trio_initial])

definition vote_req :: "string \<Rightarrow> string \<Rightarrow> u64 \<Rightarrow> u64 \<Rightarrow> u64 \<Rightarrow> message_envelope" where
  "vote_req from to t i it = \<lparr>env_from = from, env_to = to, message = RequestVote
     \<lparr>rv_term = t, candidate_id = from, rv_last_log_index = i, rv_last_log_term = it\<rparr>\<rparr>"

definition vote_ack :: "string \<Rightarrow> string \<Rightarrow> u64 \<Rightarrow> message_envelope" where
  "vote_ack from to t = \<lparr>env_from = from, env_to = to, message = RequestVoteResponse
     \<lparr>rvr_term = t, vote_granted = True, rvr_node_id = from\<rparr>\<rparr>"

lemma grown_append_entries:
  assumes "ops_ok ops" "fits (last_index (grown_log ops)) es" "list_all entry_ok es"
  shows "append_entries serde_ref es (grown_log ops) = (Ret (), grown_log (ops @ [AppendAll es]))"
  using synced_append_entries(1) [OF serde_ref_ok grown_synced [OF assms(1)] assms(2,3)]
  by (auto simp flip: grown_step)

lemma grown_truncate:
  assumes "ops_ok ops" "log_op_ok (grown_log ops) (TruncateFrom b)"
  shows "truncate_from serde_ref b (grown_log ops) = (Ret (), grown_log (ops @ [TruncateFrom b]))"
  using synced_truncate_from [OF serde_ref_ok grown_synced [OF assms(1)] assms(2)]
  by (auto simp flip: grown_step)

lemmas run_defs = make_move_def enabled_def act_def event_defs log_defs grown_append_entries grown_truncate
  become_leader_def send_heartbeats_def append_entries_for_def majority_def Let_def hm_insert_def hm_get_def
  try_advance_commit_index_def commit_candidate_def ack_count_def notify_pending_requests_def
  delete_conflicting_def first_conflict_def update_commit_def has_entry_def term_at_def get_entries_def
  entry_ok_def insert_entry_def range_incl_def map_filter_simps default_or_def reply_to_def sat_sub_eval max_eval apply_committed_free apply_result_of_eq

definition beat :: "string \<Rightarrow> string \<Rightarrow> u64 \<Rightarrow> u64 \<Rightarrow> u64 \<Rightarrow> log_entry list \<Rightarrow> message_envelope" where
  "beat from to t i it es = \<lparr>env_from = from, env_to = to, message = AppendEntries
     \<lparr>ae_term = t, ae_leader_id = from, prev_log_index = i, prev_log_term = it, ae_entries = es,
      leader_commit = 0\<rparr>\<rparr>"

definition append_ack :: "string \<Rightarrow> string \<Rightarrow> u64 \<Rightarrow> u64 \<Rightarrow> message_envelope" where
  "append_ack from to t i = \<lparr>env_from = from, env_to = to, message = AppendEntriesResponse
     \<lparr>aer_term = t, success = True, aer_last_log_index = i, aer_node_id = from\<rparr>\<rparr>"

text \<open>\<open>ends_in c P\<close>: the run's end is computed once, before the property is looked at.\<close>

definition ends_in :: "cluster \<Rightarrow> (cluster \<Rightarrow> bool) \<Rightarrow> bool" where
  "ends_in c P \<longleftrightarrow> P c"

lemma ends_in_cong: "c = c' \<Longrightarrow> ends_in c P = ends_in c' P"
  by simp

lemmas msg_defs = vote_req_def vote_ack_def beat_def append_ack_def MAX_KEY_SIZE_def MAX_VALUE_SIZE_def

text \<open>
  A plain run: no membership change (a crash is not a move), and no message is delivered twice.
\<close>

fun deliveries :: "move list \<Rightarrow> (string \<times> message_envelope) list" where
  "deliveries [] = []"
| "deliveries (Happens n (Deliver env) # mvs) = (n, env) # deliveries mvs"
| "deliveries (_ # mvs) = deliveries mvs"

fun changes_members :: "move \<Rightarrow> bool" where
  "changes_members (Happens n (Join p a)) = True"
| "changes_members (Happens n (Leave p)) = True"
| "changes_members _ = False"

definition plain_run :: "move list \<Rightarrow> bool" where
  "plain_run mvs \<longleftrightarrow> distinct (deliveries mvs) \<and> \<not> list_ex changes_members mvs"

definition end_of :: "move list \<Rightarrow> cluster" where
  "end_of mvs = fold (make_move serde_ref) mvs trio"

lemma end_of_reachable: "reachable serde_ref (end_of mvs)"
  unfolding end_of_def by (rule reachable_moves [OF trio_reachable])

section \<open>A run with late votes\<close>

definition stale_vote_run :: "move list" where
  "stale_vote_run =
     [Clock ''a'' 1000, Happens ''a'' (ElectionTimer 150),
      Happens ''c'' (Deliver (vote_req ''a'' ''c'' 1 0 0)),
      Clock ''a'' 2000, Happens ''a'' (ElectionTimer 150),
      Clock ''b'' 1000, Happens ''b'' (ElectionTimer 150),
      Clock ''b'' 2000, Happens ''b'' (ElectionTimer 150),
      Happens ''c'' (Deliver (vote_req ''b'' ''c'' 2 0 0)),
      Happens ''b'' (Deliver (vote_ack ''c'' ''b'' 2)),
      Happens ''a'' (Deliver (vote_ack ''c'' ''a'' 1))]"

definition standing :: "node \<Rightarrow> node_role \<times> u64 \<times> string list" where
  "standing s = (role s, node_term s, hm_keys (peers s))"

lemma stale_vote_end:
  "ends_in (fold (make_move serde_ref) stale_vote_run trio) (\<lambda>c.
   map_option standing (members c ''a'') = Some (Leader, 2, [''b'', ''c'']) \<and>
   map_option standing (members c ''b'') = Some (Leader, 2, [''a'', ''c'']) \<and>
   {vote_req ''a'' ''b'' 1 0 0, vote_req ''a'' ''c'' 1 0 0, vote_ack ''c'' ''a'' 1} \<subseteq> set (sent c) \<and>
   dom (members c) = {''a'', ''b'', ''c''})"
  by (simp add: stale_vote_run_def trio_def run_defs msg_defs cong: ends_in_cong)
    (auto simp: standing_def ends_in_def log_defs msg_defs split: if_splits)

lemma before_late_vote:
  "ends_in (fold (make_move serde_ref) (butlast stale_vote_run) trio) (\<lambda>c.
   map_option standing (members c ''a'') = Some (Candidate, 2, [''b'', ''c'']) \<and>
   map_option standing (members c ''b'') = Some (Leader, 2, [''a'', ''c'']) \<and>
   vote_ack ''c'' ''a'' 1 \<in> set (sent c))"
  by (simp add: stale_vote_run_def trio_def run_defs msg_defs cong: ends_in_cong)
    (auto simp: standing_def ends_in_def log_defs msg_defs split: if_splits)

abbreviation late_votes :: cluster where
  "late_votes \<equiv> end_of stale_vote_run"

lemmas late_votes_reachable = end_of_reachable [of stale_vote_run]

lemmas late_votes = stale_vote_end [unfolded ends_in_def, folded end_of_def]

section \<open>What every reachable cluster satisfies\<close>

text \<open>
  C9: every reachable cluster is well formed.  Whatever is delivered, lost, repeated or reordered
  and whichever nodes crash and restart, each node's files are in step with its memory, so that a
  restart recovers it, and every message in flight names its sender and, if it is an AppendEntries,
  carries entries with consecutive indices after its previous index.
\<close>

theorem cluster_well_formed:
  assumes "serde_ok E" "reachable E c"
  shows "(\<forall>n s. members c n = Some s \<longrightarrow> node_id s = n \<and> log_recover E (log s) = Some (log_view (log s)) \<and>
      log_wf (log s)) \<and>
    (\<forall>env \<in> set (sent c). env_from env \<in> dom (members c) \<and>
      (\<forall>req. message env = AppendEntries req \<longrightarrow>
        consecutive (prev_log_index req) (ae_entries req) \<and> list_all entry_ok (ae_entries req)) \<and>
      (\<forall>req. message env = RequestVote req \<longrightarrow> candidate_id req = env_from env))"
proof -
  note I = inv_reachable [OF assms(2,1)]
  have "log_recover E (log s) = Some (log_view (log s)) \<and> log_wf (log s)" if "synced E (log s)" for s
    using that log_recover_synced [OF assms(1) that] by (simp add: synced_def)
  with I show ?thesis
    unfolding cluster_inv_def member_ok_def delivery_ok_def by (auto simp: Ball_def) 
qed

lemma cluster_well_formed_witness:
  "env_from ` set (sent late_votes) \<subseteq> {''a'', ''b'', ''c''}"
proof
  fix n assume "n \<in> env_from ` set (sent late_votes)"
  then obtain env where "env \<in> set (sent late_votes)" "n = env_from env" by blast
  moreover from this(1) have "env_from env \<in> dom (members late_votes)"
    using cluster_well_formed [OF serde_ref_ok late_votes_reachable] by (elim conjE) (drule (1) bspec, elim conjE)
  moreover have "dom (members late_votes) = {''a'', ''b'', ''c''}" using late_votes by (elim conjE)
  ultimately show "n \<in> {''a'', ''b'', ''c''}" by simp
qed

text \<open>
  C1: votes are unique across the cluster and across crashes.  In every reachable cluster, two
  messages that testify a vote of the same node in the same term, whether as a granted reply or as
  the candidate's own request, are votes for the same candidate.
\<close>

theorem votes_unique:
  assumes "serde_ok E" "reachable E c"
    and "env \<in> set (sent c)" "env' \<in> set (sent c)"
    and "promise env = Some (n, t, d)" "promise env' = Some (n, t, d')"
  shows "d = d'"
  using inv_reachable [OF assms(2,1)] assms(3-) by (rule promise_unique)

lemma votes_unique_witness:
  "map_option (snd \<circ> snd) (promise (vote_req ''a'' ''b'' 1 0 0)) =
   map_option (snd \<circ> snd) (promise (vote_req ''a'' ''c'' 1 0 0))"
proof -
  have "vote_req ''a'' ''b'' 1 0 0 \<in> set (sent late_votes)" "vote_req ''a'' ''c'' 1 0 0 \<in> set (sent late_votes)"
    using late_votes by blast+
  moreover have "promise (vote_req ''a'' x 1 0 0) = Some (''a'', 1, candidate_id \<lparr>rv_term = 1, candidate_id = ''a'',
      rv_last_log_index = 0, rv_last_log_term = 0\<rparr>)" for x
    by (simp add: promise_def vote_req_def)
  ultimately show ?thesis
    using votes_unique [OF serde_ref_ok late_votes_reachable] by fastforce
qed

definition voters :: "cluster \<Rightarrow> u64 \<Rightarrow> string \<Rightarrow> string set" where
  "voters c t d = {n. \<exists>env \<in> set (sent c). promise env = Some (n, t, d)}"

lemma voters_members: "cluster_inv E c \<Longrightarrow> voters c t d \<subseteq> dom (members c)"
  using promise_from unfolding voters_def cluster_inv_def by blast

text \<open>
  Two candidates cannot both be voted for by a majority in one term.  This is the safety that
  elections would have if a leader needed a majority of the votes of its own term.
\<close>

theorem majority_candidate_unique:
  assumes "serde_ok E" "reachable E c" "finite (dom (members c))"
    and "card (dom (members c)) < 2 * card (voters c t d)"
    and "card (dom (members c)) < 2 * card (voters c t d')"
  shows "d = d'"
proof -
  note I = inv_reachable [OF assms(2,1)]
  note sub = voters_members [OF I]
  then have fin: "finite (voters c t x)" for x using assms(3) finite_subset by blast
  have "voters c t d \<inter> voters c t d' \<noteq> {}"
  proof
    assume "voters c t d \<inter> voters c t d' = {}"
    then have "card (voters c t d) + card (voters c t d') = card (voters c t d \<union> voters c t d')"
      using fin by (simp add: card_Un_disjoint)
    also have "\<dots> \<le> card (dom (members c))"
      using sub assms(3) by (intro card_mono) auto
    finally show False using assms(4,5) by simp
  qed
  then obtain n env env' where "env \<in> set (sent c)" "env' \<in> set (sent c)"
    "promise env = Some (n, t, d)" "promise env' = Some (n, t, d')"
    by (auto simp: voters_def)
  with I show ?thesis by (rule promise_unique)
qed

lemma majority_candidate_unique_witness:
  "card (dom (members late_votes)) < 2 * card (voters late_votes 1 ''a'') \<and>
   \<not> card (dom (members late_votes)) < 2 * card (voters late_votes 1 ''b'')"
proof -
  have d: "dom (members late_votes) = {''a'', ''b'', ''c''}" using late_votes by blast
  have "promise (vote_req ''a'' ''b'' 1 0 0) = Some (''a'', 1, ''a'')"
    "promise (vote_ack ''c'' ''a'' 1) = Some (''c'', 1, ''a'')"
    by (simp_all add: promise_def vote_req_def vote_ack_def)
  then have v: "{''a'', ''c''} \<subseteq> voters late_votes 1 ''a''"
    using late_votes unfolding voters_def by blast
  have f: "finite (voters late_votes 1 ''a'')"
  proof (rule finite_subset)
    show "voters late_votes 1 ''a'' \<subseteq> env_from ` set (sent late_votes)"
      unfolding voters_def by (auto dest: promise_from)
  qed simp
  have "card {''a'', ''c''} \<le> card (voters late_votes 1 ''a'')" using f v by (rule card_mono)
  then have m: "card (dom (members late_votes)) < 2 * card (voters late_votes 1 ''a'')" by (simp add: d)
  have "finite (dom (members late_votes))" by (simp add: d)
  from majority_candidate_unique [OF serde_ref_ok late_votes_reachable this m, of "''b''"] m show ?thesis by auto
qed

section \<open>Runs that break safety\<close>

text \<open>
  C5: two leaders in one term, by a late vote.  Three nodes that have each other as peers start from empty
  directories; without a crash or a membership change, and with every message delivered at most once,
  \<open>b\<close> is the leader of term 2 and \<open>a\<close> a candidate of term 2 when the vote arrives that \<open>c\<close> has granted
  to \<open>a\<close> in term 1.  The handler does not compare its term, and \<open>a\<close> becomes a second leader of term 2.
\<close>

theorem two_leaders_reachable:
  "plain_run stale_vote_run \<and> reachable serde_ref (end_of stale_vote_run) \<and>
   dom (members (end_of stale_vote_run)) = {''a'', ''b'', ''c''} \<and>
   last stale_vote_run = Happens ''a'' (Deliver (vote_ack ''c'' ''a'' 1)) \<and>
   vote_ack ''c'' ''a'' 1 \<in> set (sent (end_of (butlast stale_vote_run))) \<and>
   map_option standing (members (end_of (butlast stale_vote_run)) ''a'') = Some (Candidate, 2, [''b'', ''c'']) \<and>
   map_option standing (members (end_of (butlast stale_vote_run)) ''b'') = Some (Leader, 2, [''a'', ''c'']) \<and>
   map_option standing (members (end_of stale_vote_run) ''a'') = Some (Leader, 2, [''b'', ''c'']) \<and>
   map_option standing (members (end_of stale_vote_run) ''b'') = Some (Leader, 2, [''a'', ''c''])"
proof -
  have "plain_run stale_vote_run" "last stale_vote_run = Happens ''a'' (Deliver (vote_ack ''c'' ''a'' 1))"
    by (simp_all add: plain_run_def stale_vote_run_def msg_defs)
  then show ?thesis
    using late_votes_reachable late_votes before_late_vote [unfolded ends_in_def, folded end_of_def] by blast
qed

definition lost_write_run :: "move list" where
  "lost_write_run =
     [Clock ''b'' 1000, Happens ''b'' (ElectionTimer 150),
      Happens ''c'' (Deliver (vote_req ''b'' ''c'' 1 0 0)),
      Happens ''b'' (Deliver (vote_ack ''c'' ''b'' 1)),
      Happens ''b'' (ClientPropose (Put ''k'' [1]) 0),
      Clock ''a'' 1000, Happens ''a'' (ElectionTimer 150),
      Clock ''a'' 2000, Happens ''a'' (ElectionTimer 150),
      Happens ''c'' (Deliver (vote_req ''a'' ''c'' 2 0 0)),
      Happens ''a'' (Deliver (vote_ack ''c'' ''a'' 2)),
      Happens ''b'' (Deliver (beat ''a'' ''b'' 2 0 0 [])),
      Happens ''c'' (Deliver (beat ''a'' ''c'' 2 0 0 [])),
      Happens ''a'' (Deliver (append_ack ''b'' ''a'' 1 1)),
      Happens ''a'' (ClientPropose (Put ''k'' [2]) 9),
      Happens ''a'' (Deliver (append_ack ''c'' ''a'' 2 0))]"

lemma lost_write_end:
  "ends_in (fold (make_move serde_ref) lost_write_run trio) (\<lambda>c.
   map_option (\<lambda>s. (standing s, commit_index s, replies s, entries (log s) 1)) (members c ''a'') =
     Some ((Leader, 2, [''b'', ''c'']), 1, [(9, Success 1)],
       Some \<lparr>index = 1, entry_term = 2, command = Put ''k'' [2]\<rparr>) \<and>
   map_option (\<lambda>s. (hm_keys (peers s), entries (log s) 1)) (members c ''b'') =
     Some ([''a'', ''c''], Some \<lparr>index = 1, entry_term = 1, command = Put ''k'' [1]\<rparr>) \<and>
   map_option (\<lambda>s. (hm_keys (peers s), entries (log s) 1)) (members c ''c'') = Some ([''a'', ''b''], None) \<and>
   {beat ''a'' ''b'' 2 0 0 [], append_ack ''b'' ''a'' 1 1} \<subseteq> set (sent c) \<and>
   dom (members c) = {''a'', ''b'', ''c''})"
  by (simp add: lost_write_run_def trio_def run_defs msg_defs cong: ends_in_cong)
    (auto simp: standing_def ends_in_def log_defs msg_defs entry_ok_def sat_sub_eval max_eval insert_entry_def split: if_splits)

text \<open>
  C6: an acknowledged write that only the leader holds.  Three nodes that have each other as peers run
  without a crash or a membership change and with every message delivered at most once.  The leader \<open>a\<close>
  of term 2 sends a heartbeat without entries after index 0; \<open>b\<close> answers with the last index of its own
  log, 1, where it has an entry of term 1.  The leader counts this for its own entry at index 1, which it
  takes from a client afterwards: it is committed and the client told so, while \<open>b\<close> still has its old
  entry at that index and \<open>c\<close> none.
\<close>

theorem acknowledged_write_on_one_node:
  "plain_run lost_write_run \<and> reachable serde_ref (end_of lost_write_run) \<and>
   dom (members (end_of lost_write_run)) = {''a'', ''b'', ''c''} \<and>
   {beat ''a'' ''b'' 2 0 0 [], append_ack ''b'' ''a'' 1 1} \<subseteq> set (sent (end_of lost_write_run)) \<and>
   map_option (\<lambda>s. (standing s, commit_index s, replies s, entries (log s) 1)) (members (end_of lost_write_run) ''a'') =
     Some ((Leader, 2, [''b'', ''c'']), 1, [(9, Success 1)],
       Some \<lparr>index = 1, entry_term = 2, command = Put ''k'' [2]\<rparr>) \<and>
   map_option (\<lambda>s. (hm_keys (peers s), entries (log s) 1)) (members (end_of lost_write_run) ''b'') =
     Some ([''a'', ''c''], Some \<lparr>index = 1, entry_term = 1, command = Put ''k'' [1]\<rparr>) \<and>
   map_option (\<lambda>s. (hm_keys (peers s), entries (log s) 1)) (members (end_of lost_write_run) ''c'') =
     Some ([''a'', ''b''], None)"
proof -
  have "plain_run lost_write_run" by (simp add: plain_run_def lost_write_run_def msg_defs)
  with end_of_reachable show ?thesis
    using lost_write_end [unfolded ends_in_def, folded end_of_def] by blast
qed

definition old_client_run :: "move list" where
  "old_client_run =
     [Clock ''a'' 1000, Happens ''a'' (ElectionTimer 150),
      Happens ''c'' (Deliver (vote_req ''a'' ''c'' 1 0 0)),
      Happens ''a'' (Deliver (vote_ack ''c'' ''a'' 1)),
      Happens ''a'' (ClientPropose (Put ''k'' [1]) 9),
      Clock ''b'' 1000, Happens ''b'' (ElectionTimer 150),
      Clock ''b'' 2000, Happens ''b'' (ElectionTimer 150),
      Happens ''c'' (Deliver (vote_req ''b'' ''c'' 2 0 0)),
      Happens ''b'' (Deliver (vote_ack ''c'' ''b'' 2)),
      Happens ''b'' (ClientPropose (Put ''k'' [2]) 5),
      Happens ''a'' (Deliver (beat ''b'' ''a'' 2 0 0 [\<lparr>index = 1, entry_term = 2, command = Put ''k'' [2]\<rparr>])),
      Clock ''a'' 3000, Happens ''a'' (ElectionTimer 150),
      Happens ''b'' (Deliver (vote_req ''a'' ''b'' 3 1 2)),
      Happens ''a'' (Deliver (vote_ack ''b'' ''a'' 3)),
      Happens ''a'' (ClientPropose (Put ''k'' [3]) 6),
      Happens ''b'' (Deliver (beat ''a'' ''b'' 3 1 2 [\<lparr>index = 2, entry_term = 3, command = Put ''k'' [3]\<rparr>])),
      Happens ''a'' (Deliver (append_ack ''b'' ''a'' 3 2))]"

lemma cut_at_one: "(\<lambda>i :: u64. if i = 0 then [1 \<mapsto> e] i else None) = Map.empty"
  by (rule ext) simp

lemma old_client_end:
  "ends_in (fold (make_move serde_ref) old_client_run trio) (\<lambda>c.
   map_option (\<lambda>s. (standing s, replies s, entries (log s))) (members c ''a'') =
     Some ((Leader, 3, [''b'', ''c'']), [(9, Success 1), (6, Success 2)],
       [1 \<mapsto> \<lparr>index = 1, entry_term = 2, command = Put ''k'' [2]\<rparr>,
        2 \<mapsto> \<lparr>index = 2, entry_term = 3, command = Put ''k'' [3]\<rparr>]) \<and>
   map_option (\<lambda>s. entries (log s)) (members c ''b'') =
     Some [1 \<mapsto> \<lparr>index = 1, entry_term = 2, command = Put ''k'' [2]\<rparr>,
        2 \<mapsto> \<lparr>index = 2, entry_term = 3, command = Put ''k'' [3]\<rparr>] \<and>
   map_option (\<lambda>s. entries (log s)) (members c ''c'') = Some Map.empty \<and>
   dom (members c) = {''a'', ''b'', ''c''})"
  by (simp add: old_client_run_def trio_def run_defs msg_defs cong: ends_in_cong)
    (simp add: standing_def ends_in_def log_defs msg_defs entry_ok_def sat_sub_eval max_eval insert_entry_def cut_at_one)

text \<open>
  C7: success for a write that was overwritten.  In a run of three nodes without a crash or a membership
  change, and with every message delivered at most once, the only proposal of client 9 is a Put of the
  value 1 on the leader \<open>a\<close> of term 1.  At the end the client has been told that it is committed at
  index 1, but that index holds another client's command on \<open>a\<close> and \<open>b\<close>, and the client's own command is
  in no log: stepping down leaves the proposal among the pending ones, and the next commit that passes
  its index, in another term, answers it.
\<close>

theorem success_for_overwritten_write:
  "plain_run old_client_run \<and> reachable serde_ref (end_of old_client_run) \<and>
   dom (members (end_of old_client_run)) = {''a'', ''b'', ''c''} \<and>
   {(n, cmd). Happens n (ClientPropose cmd 9) \<in> set old_client_run} = {(''a'', Put ''k'' [1])} \<and>
   map_option (\<lambda>s. (standing s, replies s, entries (log s))) (members (end_of old_client_run) ''a'') =
     Some ((Leader, 3, [''b'', ''c'']), [(9, Success 1), (6, Success 2)],
       [1 \<mapsto> \<lparr>index = 1, entry_term = 2, command = Put ''k'' [2]\<rparr>,
        2 \<mapsto> \<lparr>index = 2, entry_term = 3, command = Put ''k'' [3]\<rparr>]) \<and>
   map_option (\<lambda>s. entries (log s)) (members (end_of old_client_run) ''b'') =
     Some [1 \<mapsto> \<lparr>index = 1, entry_term = 2, command = Put ''k'' [2]\<rparr>,
        2 \<mapsto> \<lparr>index = 2, entry_term = 3, command = Put ''k'' [3]\<rparr>] \<and>
   map_option (\<lambda>s. entries (log s)) (members (end_of old_client_run) ''c'') = Some Map.empty"
proof -
  have "plain_run old_client_run" "{(n, cmd). Happens n (ClientPropose cmd 9) \<in> set old_client_run} = {(''a'', Put ''k'' [1])}"
    by (auto simp: plain_run_def old_client_run_def msg_defs)
  with end_of_reachable show ?thesis
    using old_client_end [unfolded ends_in_def, folded end_of_def] by blast
qed

end
