(* ===== verification/Election_Safety.thy ===== *)
theory Election_Safety
  imports Cluster_Properties
begin

text \<open>
  Election safety, as far as the code has it.  \<open>two_leaders_reachable\<close> needs a vote of an earlier term
  that arrives late, and a node without peers elects itself.  Here every node has a peer in its
  configuration and no request removes the last peer of a node, messages come from other nodes, and every
  granted vote that is delivered is of the receiver's term; then every leader holds its own promise and
  another node's, so up to three nodes never have two leaders in one term.
\<close>

section \<open>Timely runs\<close>

text \<open>
  \<open>timely\<close>: a message is from another node, a granted vote is of the receiver's term, and a request to
  remove a peer leaves the node another one.  \<open>peered\<close>: every node has a configured peer.
\<close>

definition timely :: "node \<Rightarrow> node_event \<Rightarrow> bool" where
  "timely s ev = (case ev of
      Deliver env \<Rightarrow> env_from env \<noteq> node_id s \<and> (case message env of
          RequestVoteResponse resp \<Rightarrow> vote_granted resp \<longrightarrow> rvr_term resp = node_term s
        | _ \<Rightarrow> True)
    | Leave p \<Rightarrow> hm_keys (hm_remove p (peers s)) \<noteq> []
    | _ \<Rightarrow> True)"

definition peered :: "cluster \<Rightarrow> bool" where
  "peered c \<longleftrightarrow> (\<forall>n s. members c n = Some s \<longrightarrow> cfg_peers (config s) \<noteq> [])"

inductive timely_reachable :: "'e serde_scheme \<Rightarrow> cluster \<Rightarrow> bool" for E where
  start: "initial_cluster E c \<Longrightarrow> peered c \<Longrightarrow> timely_reachable E c"
| event: "timely_reachable E c \<Longrightarrow> members c n = Some s \<Longrightarrow> enabled E c s ev \<Longrightarrow> timely s ev \<Longrightarrow>
    timely_reachable E (act E n ev s c)"
| time_passes: "timely_reachable E c \<Longrightarrow> members c n = Some s \<Longrightarrow>
    timely_reachable E (c\<lparr>members := (members c)(n \<mapsto> s\<lparr>clock := now\<rparr>)\<rparr>)"
| crash_restart: "timely_reachable E c \<Longrightarrow> members c n = Some s \<Longrightarrow>
    new_node E (config s) (data_dir (log s)) now = Inr s' \<Longrightarrow>
    timely_reachable E (c\<lparr>members := (members c)(n \<mapsto> s')\<rparr>)"

lemma timely_is_reachable: "timely_reachable E c \<Longrightarrow> reachable E c"
  by (induction rule: timely_reachable.induct)
    (auto intro: reachable.intros cluster_step.intros)

section \<open>How a role changes\<close>

definition office_step :: "node \<Rightarrow> node \<Rightarrow> bool" where
  "office_step s s' \<longleftrightarrow> (hm_keys (peers s) \<noteq> [] \<longrightarrow> hm_keys (peers s') \<noteq> []) \<and>
     (role s' = Follower \<or> (role s' = role s \<and> node_term s' = node_term s))"

lemma office_step_same:
  "peers s' = peers s \<Longrightarrow> role s' = role s \<Longrightarrow> node_term s' = node_term s \<Longrightarrow> office_step s s'"
  by (simp add: office_step_def)

lemma office_handle_request_vote:
  assumes "serde_ok E" "synced E (log s)"
  shows "post (handle_request_vote E from req) (\<lambda>r s'. office_step s s') s"
  using assms
  by (auto simp: handle_request_vote_def wp Let_def log_current_term_def office_step_def
      intro!: post_set_current_term_synced post_set_voted_for_synced split: res.splits)

lemma office_handle_append_entries:
  assumes "serde_ok E" "synced E (log s)" "consecutive (prev_log_index req) (ae_entries req)"
    "list_all entry_ok (ae_entries req)"
  shows "post (handle_append_entries E from req) (\<lambda>r s'. office_step s s') s"
proof -
  have h: "prev_log_index req \<le> last_index l"
    if "synced E l" "entries l = entries (log s)" "last_index l = last_index (log s)"
      "0 < prev_log_index req \<longrightarrow> has_entry l (prev_log_index req) (prev_log_term req)" for l
    using that has_entry_le [OF that(1)] by (cases "prev_log_index req = 0") (auto simp: word_gt_0)
  show ?thesis
    using assms h
    by (auto simp: handle_append_entries_def wp update_commit_def log_current_term_def
        office_step_def apply_result_of_eq
        intro!: post_set_current_term_synced post_append_entries_synced
          post_delete_conflicting_synced [where i = "prev_log_index req"]
        split: res.splits)
qed

lemma office_handle_append_entries_response:
  assumes "serde_ok E" "synced E (log s)"
  shows "post (handle_append_entries_response E from resp) (\<lambda>r s'. office_step s s') s"
  using assms
  by (auto simp: handle_append_entries_response_def wp log_current_term_def office_step_def apply_result_of_eq
      intro!: post_set_current_term_synced post_try_advance split: res.splits option.splits)

lemma office_propose:
  assumes "serde_ok E" "synced E (log s)" "last_index (log s) \<noteq> - 1" "command_ok c"
  shows "post (propose E c tx) (\<lambda>r s'. office_step s s') s"
  using assms
  by (auto simp: propose_def reply_to_def wp office_step_def log_current_term_def broadcast_def
      intro!: post_log_append_synced split: res.splits)

text \<open>A response makes a candidate leader of its term only if it is a granted vote.\<close>

definition elected_by :: "bool \<Rightarrow> node \<Rightarrow> node \<Rightarrow> bool" where
  "elected_by granted s s' \<longleftrightarrow> granted \<and> peers s' = peers s \<and> role s = Candidate \<and> role s' = Leader \<and>
     node_term s' = node_term s"

lemma office_handle_request_vote_response:
  assumes "serde_ok E" "synced E (log s)"
  shows "post (handle_request_vote_response E from resp)
    (\<lambda>r s'. office_step s s' \<or> elected_by (vote_granted resp) s s') s"
  using assms
  by (auto simp: handle_request_vote_response_def wp log_current_term_def office_step_def elected_by_def
      leader_state_def broadcast_def intro!: post_set_current_term_synced split: res.splits)

text \<open>An election makes a node with peers a candidate that promises its own vote.\<close>

definition stands :: "node \<Rightarrow> node \<Rightarrow> bool" where
  "stands s s' \<longleftrightarrow> hm_keys (peers s') \<noteq> [] \<and> role s' = Candidate \<and> node_term s < node_term s' \<and>
     (\<exists>env \<in> set (outgoing s'). \<exists>req. message env = RequestVote req \<and> rv_term req = node_term s')"

lemma office_start_election:
  assumes "serde_ok E" "synced E (log s)" "hm_keys (peers s) \<noteq> []" "node_term s \<noteq> - 1"
  shows "post (start_election E) (\<lambda>r s'. office_step s s' \<or> stands s s') s"
proof (cases "log_locked s")
  case True
  then show ?thesis by (simp add: start_election_def wp office_step_def)
next
  case False
  with assms have "node_ok E s" by (simp add: node_ok_def)
  from start_election_ok [OF this] assms(3) obtain l where l:
    "start_election E s = (Ret (), candidate_state E l s)"
    "log_view l = (entries (log s),
      \<lparr>current_term = node_term s + 1, voted_for = Some (push_str E 64 (node_id s))\<rparr>, last_index (log s))"
    by auto
  obtain p ps where "hm_keys (peers s) = p # ps" using assms(3) by (cases "hm_keys (peers s)") auto
  moreover have "node_term s < node_term s + 1" using assms(4) less_plus_one_iff by blast
  ultimately have "stands s (candidate_state E l s)"
    using log_of_view [OF l(2)] by (simp add: stands_def candidate_state_def campaign_def new_envelope_def vote_request_def)
  with l(1) show ?thesis by (simp add: post_def)
qed

definition office_change :: "node_event \<Rightarrow> node \<Rightarrow> node \<Rightarrow> bool" where
  "office_change ev s s' \<longleftrightarrow> office_step s s' \<or> stands s s' \<or>
    (\<exists>env resp. ev = Deliver env \<and> message env = RequestVoteResponse resp \<and>
       elected_by (vote_granted resp) s s')"

lemma post_office_step: "post m (\<lambda>r s'. office_step s s') s \<Longrightarrow> post m (\<lambda>r s'. office_change ev s s') s"
  by (erule post_mono) (simp add: office_change_def)

lemma office_change_same:
  "peers s' = peers s \<Longrightarrow> role s' = role s \<Longrightarrow> node_term s' = node_term s \<Longrightarrow> office_change ev s s'"
  by (simp add: office_step_same office_change_def)

lemma office_handle_message:
  assumes "serde_ok E" "synced E (log s)" "delivery_ok E env"
  shows "post (handle_message E env) (\<lambda>r s'. office_change (Deliver env) s s') s"
proof (cases "message env")
  case (AppendEntries req)
  with assms show ?thesis
    by (auto simp: handle_message_def delivery_ok_def intro!: office_handle_append_entries post_office_step)
next
  case (AppendEntriesResponse resp)
  with assms show ?thesis
    by (auto simp: handle_message_def intro!: office_handle_append_entries_response post_office_step)
next
  case (RequestVote req)
  with assms show ?thesis
    by (auto simp: handle_message_def intro!: office_handle_request_vote post_office_step)
next
  case (RequestVoteResponse resp)
  with office_handle_request_vote_response [OF assms(1,2), of "env_from env" resp] show ?thesis
    by (auto simp: handle_message_def office_change_def elim!: post_mono)
qed (simp_all add: handle_message_def wp office_change_same)

lemma office_run_event:
  assumes "serde_ok E" "synced E (log s)" "admissible E s ev" "timely s ev" "hm_keys (peers s) \<noteq> []"
  shows "post (run_event E ev) (\<lambda>r s'. office_change ev s s') s"
proof (cases ev)
  case (Deliver env)
  with assms show ?thesis by (simp add: run_event_def admissible_def office_handle_message)
next
  case (ElectionTimer timeout)
  have "node_term s \<noteq> - 1" using ElectionTimer assms(3) by (simp add: admissible_def)
  from office_start_election [OF assms(1,2,5) this]
  have "post (start_election E) (\<lambda>r s'. office_change ev s s') s"
    by (rule post_mono) (auto simp: office_change_def)
  with ElectionTimer show ?thesis
    by (simp add: run_event_def election_tick_def wp office_change_same)
next
  case (ClientPropose c tx)
  with assms show ?thesis
    by (auto simp: run_event_def admissible_def intro!: office_propose post_office_step)
next
  case (Leave i)
  with assms(4) show ?thesis
    by (simp add: timely_def run_event_def remove_peer_def wp office_change_def office_step_def)
qed (auto simp: run_event_def heartbeat_tick_def add_peer_def get_status_def wp office_change_def office_step_def
      broadcast_def hm_keys_insert split: res.splits)

section \<open>Every leader has two voters\<close>

definition backed :: "cluster \<Rightarrow> string \<Rightarrow> node \<Rightarrow> bool" where
  "backed c n s \<longleftrightarrow> hm_keys (peers s) \<noteq> [] \<and> cfg_peers (config s) \<noteq> [] \<and>
     (role s \<noteq> Follower \<longrightarrow> n \<in> voters c (node_term s) n) \<and>
     (role s = Leader \<longrightarrow> (\<exists>v. v \<noteq> n \<and> v \<in> voters c (node_term s) n))"

lemma voters_mono: "set (sent c) \<subseteq> set (sent c') \<Longrightarrow> voters c t d \<subseteq> voters c' t d"
  unfolding voters_def by blast

lemma backed_frame:
  assumes "backed c n s" "set (sent c) \<subseteq> set (sent c')" "hm_keys (peers s') \<noteq> []" "config s' = config s"
    and "role s' = Follower \<or> (role s' = role s \<and> node_term s' = node_term s)"
  shows "backed c' n s'"
  using assms voters_mono [OF assms(2)] unfolding backed_def by (metis node_role.distinct(3) subsetD)

lemma backed_event:
  assumes E: "serde_ok E" and I: "cluster_inv E c" and s: "members c n = Some s"
    and en: "enabled E c s ev" and ti: "timely s ev" and b: "backed c n s"
  shows "backed (act E n ev s c) n (step_event E ev s)"
proof -
  define s' where "s' = step_event E ev s"
  let ?c = "act E n ev s c"
  have sent: "set (sent ?c) = set (sent c) \<union> set (outgoing s')" by (simp add: act_def s'_def Let_def)
  note good = event_good [OF E I s en, folded s'_def]
  have n: "node_id s = n" "push_str E 64 n = n"
    using I s serde_ok_heapless [OF E] by (auto simp: cluster_inv_def member_ok_def push_str_fits)
  have cfg: "config s' = config s" using good(1) by (simp add: node_good_def)
  have pe: "hm_keys (peers s) \<noteq> []" using b by (simp add: backed_def)
  have "synced E (log s)" using I s by (auto simp: cluster_inv_def member_ok_def)
  from step_event_post [where R = "office_change ev", OF office_run_event [OF E this event_admissible [OF I en] ti pe]]
  consider "office_step s s'" | "stands s s'"
    | env resp where "ev = Deliver env" "message env = RequestVoteResponse resp" "elected_by (vote_granted resp) s s'"
    unfolding s'_def office_change_def by blast
  then have "backed ?c n s'"
  proof cases
    case 1
    then show ?thesis using b cfg pe sent by (intro backed_frame [OF b]) (auto simp: office_step_def)
  next
    case 2
    then obtain env req where e: "env \<in> set (outgoing s')" "message env = RequestVote req"
      "rv_term req = node_term s'" by (auto simp: stands_def)
    note sends = event_sends [OF E I s en, folded s'_def, OF e(1)]
    from sends(1,2) e(2,3) have "promise env = Some (n, node_term s', n)"
      by (simp add: promise_def delivery_ok_def)
    with e(1) have "n \<in> voters ?c (node_term s') n" unfolding voters_def sent by blast
    with 2 b cfg show ?thesis by (simp add: backed_def stands_def)
  next
    case 3
    with ti have g: "vote_granted resp" "rvr_term resp = node_term s" "env_from env \<noteq> n"
      by (auto simp: timely_def elected_by_def n)
    have "env \<in> set (sent c)" "env_to env = n" using en 3(1) n by (auto simp: enabled_def)
    moreover from this(2) g(1,2) 3(2) have "promise env = Some (env_from env, node_term s, n)"
      by (simp add: promise_def)
    ultimately have "env_from env \<in> voters ?c (node_term s) n" unfolding voters_def sent by blast
    moreover have "n \<in> voters ?c (node_term s) n"
      using b 3(3) sent voters_mono [of c ?c] by (auto simp: backed_def elected_by_def)
    ultimately show ?thesis using 3(3) g(3) b cfg by (auto simp: backed_def elected_by_def)
  qed
  then show ?thesis by (simp add: s'_def)
qed

definition election_inv :: "cluster \<Rightarrow> bool" where
  "election_inv c \<longleftrightarrow> (\<forall>n s. members c n = Some s \<longrightarrow> backed c n s)"

lemma election_inv_update:
  assumes "election_inv c" "members c' = (members c)(n \<mapsto> s')" "set (sent c) \<subseteq> set (sent c')" "backed c' n s'"
  shows "election_inv c'"
  unfolding election_inv_def
proof (intro allI impI)
  fix k u assume u: "members c' k = Some u"
  show "backed c' k u"
  proof (cases "k = n")
    case True
    with u assms(2,4) show ?thesis by simp
  next
    case False
    with u assms(1,2) have b: "backed c k u" by (simp add: election_inv_def)
    then show ?thesis by (intro backed_frame [OF b assms(3)]) (simp_all add: backed_def)
  qed
qed

text \<open>The term has been won by a node: it has its own promise and another node's.\<close>

definition won :: "cluster \<Rightarrow> u64 \<Rightarrow> string \<Rightarrow> bool" where
  "won c t n \<longleftrightarrow> n \<in> voters c t n \<and> (\<exists>v \<in> voters c t n. v \<noteq> n)"

lemma backed_won: "backed c n s \<Longrightarrow> role s = Leader \<Longrightarrow> won c (node_term s) n"
  by (auto simp: backed_def won_def)

lemma won_mono: "won c t n \<Longrightarrow> set (sent c) \<subseteq> set (sent c') \<Longrightarrow> won c' t n"
  using voters_mono [of c c'] unfolding won_def by blast

lemma won_unique:
  assumes I: "cluster_inv E c" and fin: "finite (dom (members c))" "card (dom (members c)) \<le> 3"
    and n: "won c t n" and m: "won c t m"
  shows "m = n"
proof (rule ccontr)
  assume "m \<noteq> n"
  let ?V = "voters c t"
  from n obtain v where v: "n \<in> ?V n" "v \<in> ?V n" "v \<noteq> n" by (auto simp: won_def)
  from m obtain w where w: "m \<in> ?V m" "w \<in> ?V m" "w \<noteq> m" by (auto simp: won_def)
  have one: "x = y" if "k \<in> ?V x" "k \<in> ?V y" for k x y
    using that promise_unique [OF I] unfolding voters_def by blast
  have "n \<noteq> w" "v \<noteq> m" "v \<noteq> w"
    using one [of n n m] one [of v n m] v(1,2) w(1,2) \<open>m \<noteq> n\<close> by blast+
  then have "card {n, v, m, w} = 4" using v(3) w(3) \<open>m \<noteq> n\<close> by simp
  moreover have "{n, v, m, w} \<subseteq> dom (members c)"
    using v w voters_members [OF I] by blast
  from card_mono [OF fin(1) this] have "card {n, v, m, w} \<le> card (dom (members c))" .
  ultimately show False using fin(2) by simp
qed

lemma initial_peers_some: "cfg_peers cfg \<noteq> [] \<Longrightarrow> hm_keys (initial_peers E cfg) \<noteq> []"
  by (cases "cfg_peers cfg" rule: rev_cases) (auto simp: initial_peers_def hm_keys_insert)

lemma new_node_backed:
  "new_node E cfg d now = Inr s \<Longrightarrow> cfg_peers cfg \<noteq> [] \<Longrightarrow> backed c n s"
  by (auto simp: new_node_def backed_def initial_peers_some split: prod.splits res.splits)

lemma election_inv_reachable:
  assumes "timely_reachable E c" "serde_ok E"
  shows "election_inv c"
  using assms(1)
proof (induction rule: timely_reachable.induct)
  case (start c)
  show ?case
    unfolding election_inv_def
  proof (intro allI impI)
    fix n s assume s: "members c n = Some s"
    with start(1) obtain cfg now where c: "new_node E cfg no_files now = Inr s"
      unfolding initial_cluster_def by blast
    then have "config s = cfg" by (auto simp: new_node_def split: prod.splits res.splits)
    with start(2) s c show "backed c n s" by (auto simp: peered_def intro: new_node_backed)
  qed
next
  case (event c n s ev)
  have I: "cluster_inv E c" using inv_reachable [OF timely_is_reachable [OF event(1)] assms(2)] .
  have "backed c n s" using event(2,5) by (simp add: election_inv_def)
  from backed_event [OF assms(2) I event(2-4) this]
  have b: "backed (act E n ev s c) n (step_event E ev s)" .
  have "backed (act E n ev s c) n ((step_event E ev s)\<lparr>outgoing := []\<rparr>)"
    using b by (simp add: backed_def)
  then show ?case
    by (intro election_inv_update [OF event(5)]) (simp_all add: act_def Let_def)
next
  case (time_passes c n s now)
  let ?c = "c\<lparr>members := (members c)(n \<mapsto> s\<lparr>clock := now\<rparr>)\<rparr>"
  have "backed c n s" using time_passes by (simp add: election_inv_def)
  then have "backed ?c n (s\<lparr>clock := now\<rparr>)" by (simp add: backed_def voters_def)
  then show ?case by (intro election_inv_update [OF time_passes(3)]) simp_all
next
  case (crash_restart c n s now s')
  have "backed c n s" using crash_restart by (simp add: election_inv_def)
  then have "backed (c\<lparr>members := (members c)(n \<mapsto> s')\<rparr>) n s'"
    using new_node_backed [OF crash_restart(3)] by (simp add: backed_def)
  then show ?case by (intro election_inv_update [OF crash_restart(4)]) simp_all
qed

text \<open>
  C2: election safety for up to three nodes.  Take a cluster of at most three nodes in which every node
  has a peer in its configuration and no request removes a node's last peer (a node without peers elects
  itself).  Over any delays, losses, repetitions and crashes two leaders of one term are the same
  node, provided that messages come from other nodes and that every granted vote that is delivered is of
  the receiver's current term.  The handler does not check the last, and \<open>two_leaders_reachable\<close>
  shows what happens without it.
\<close>

theorem one_leader_per_term:
  assumes "serde_ok E" "timely_reachable E c" "finite (dom (members c))" "card (dom (members c)) \<le> 3"
    and "members c n = Some s" "role s = Leader"
    and "members c m = Some s'" "role s' = Leader" "node_term s' = node_term s"
  shows "m = n"
proof -
  note I = inv_reachable [OF timely_is_reachable [OF assms(2)] assms(1)]
  note J = election_inv_reachable [OF assms(2,1), unfolded election_inv_def, rule_format]
  have "won c (node_term s) n" using J [OF assms(5)] assms(6) by (rule backed_won)
  moreover have "won c (node_term s) m" using backed_won [OF J [OF assms(7)] assms(8)] assms(9) by simp
  ultimately show ?thesis by (rule won_unique [OF I assms(3,4)])
qed

section \<open>A timely run\<close>

definition timely_move :: "'e serde_scheme \<Rightarrow> move \<Rightarrow> cluster \<Rightarrow> cluster" where
  "timely_move E mv c = (case mv of
      Happens n ev \<Rightarrow> (case members c n of None \<Rightarrow> c
        | Some s \<Rightarrow> if timely s ev then make_move E mv c else c)
    | Clock n now \<Rightarrow> make_move E mv c)"

lemma timely_moves: "timely_reachable E c \<Longrightarrow> timely_reachable E (fold (timely_move E) mvs c)"
proof (induction mvs arbitrary: c)
  case Nil
  then show ?case by simp
next
  case (Cons mv mvs)
  have "timely_reachable E (timely_move E mv c)"
    using Cons.prems
    by (auto simp: timely_move_def make_move_def intro: timely_reachable.event timely_reachable.time_passes
        split: move.split option.split)
  then show ?case by (simp add: Cons.IH)
qed

lemma trio_timely: "timely_reachable serde_ref trio"
proof (rule timely_reachable.start)
  show "initial_cluster serde_ref trio" by (rule trio_initial)
qed (auto simp: peered_def trio_def idle_node_def sample_config_def split: if_splits)

definition two_terms_run :: "move list" where
  "two_terms_run =
     [Clock ''a'' 1000, Happens ''a'' (ElectionTimer 150),
      Happens ''c'' (Deliver (vote_req ''a'' ''c'' 1 0 0)),
      Happens ''a'' (Deliver (vote_ack ''c'' ''a'' 1)),
      Clock ''b'' 1000, Happens ''b'' (ElectionTimer 150),
      Clock ''b'' 2000, Happens ''b'' (ElectionTimer 150),
      Happens ''c'' (Deliver (vote_req ''b'' ''c'' 2 0 0)),
      Happens ''b'' (Deliver (vote_ack ''c'' ''b'' 2))]"

lemma two_terms_end:
  "ends_in (fold (timely_move serde_ref) two_terms_run trio) (\<lambda>c.
   map_option (\<lambda>s. (role s, node_term s)) (members c ''a'') = Some (Leader, 1) \<and>
   map_option (\<lambda>s. (role s, node_term s)) (members c ''b'') = Some (Leader, 2) \<and>
   dom (members c) = {''a'', ''b'', ''c''})"
  by (simp add: two_terms_run_def trio_def timely_move_def timely_def run_defs msg_defs cong: ends_in_cong)
    (auto simp: ends_in_def log_defs msg_defs split: if_splits)

lemma one_leader_per_term_witness:
  "\<exists>c. timely_reachable serde_ref c \<and> card (dom (members c)) = 3 \<and>
     {n. \<exists>s. members c n = Some s \<and> role s = Leader \<and> node_term s = 1} = {''a''} \<and>
     {n. \<exists>s. members c n = Some s \<and> role s = Leader \<and> node_term s = 2} = {''b''}"
proof -
  define c where "c = fold (timely_move serde_ref) two_terms_run trio"
  have r: "timely_reachable serde_ref c" unfolding c_def by (rule timely_moves [OF trio_timely])
  note e = two_terms_end [unfolded ends_in_def, folded c_def]
  then have d: "finite (dom (members c))" "card (dom (members c)) = 3" by simp_all
  note one = one_leader_per_term [OF serde_ref_ok r d(1)]
  have l: "{n. \<exists>s. members c n = Some s \<and> role s = Leader \<and> node_term s = t} = {m}"
    if "map_option (\<lambda>s. (role s, node_term s)) (members c m) = Some (Leader, t)" for m t
  proof -
    from that obtain s where s: "members c m = Some s" "role s = Leader" "node_term s = t" by auto
    have "n = m" if "members c n = Some s'" "role s' = Leader" "node_term s' = t" for n s'
      using one [OF _ s(1,2) that(1,2)] d(2) s(3) that(3) by simp
    with s show ?thesis by blast
  qed
  show ?thesis
    by (intro exI [of _ c] conjI r d(2) l [OF conjunct1 [OF e]] l [OF conjunct1 [OF conjunct2 [OF e]]])
qed

end
