(* ===== verification/Log_Matching.thy ===== *)
theory Log_Matching
  imports Election_Safety
begin

text \<open>
  Log Matching for the cluster, in the runs of \<open>Election_Safety\<close>.  Every log and every AppendEntries in
  flight consists of facts: at this index, with this term, stands this command, after an entry of
  that term.  A fact is made only by the leader of its term, at a new index; all else copies facts.
  So index and term determine the command and the term before it, and with it the whole prefix.
\<close>

section \<open>Facts\<close>

type_synonym fact = "u64 \<times> u64 \<times> command \<times> u64"

definition term_before :: "(u64 \<rightharpoonup> log_entry) \<Rightarrow> u64 \<Rightarrow> u64" where
  "term_before m i = (case m (i - 1) of None \<Rightarrow> 0 | Some e \<Rightarrow> entry_term e)"

definition log_facts :: "(u64 \<rightharpoonup> log_entry) \<Rightarrow> fact set" where
  "log_facts m = {(i, entry_term e, command e, term_before m i) | i e. m i = Some e}"

fun chain_facts :: "u64 \<Rightarrow> log_entry list \<Rightarrow> fact set" where
  "chain_facts t [] = {}"
| "chain_facts t (e # es) = insert (index e, entry_term e, command e, t) (chain_facts (entry_term e) es)"

definition head_term :: "append_entries_request \<Rightarrow> u64" where
  "head_term req = (if prev_log_index req = 0 then 0 else prev_log_term req)"

definition envelope_facts :: "message_envelope \<Rightarrow> fact set" where
  "envelope_facts env = (case message env of
      AppendEntries req \<Rightarrow> chain_facts (head_term req) (ae_entries req)
    | _ \<Rightarrow> {})"

lemma log_factsI: "m i = Some e \<Longrightarrow> (i, entry_term e, command e, term_before m i) \<in> log_facts m"
  by (auto simp: log_facts_def)

lemma chain_facts_eq:
  assumes "consecutive p es" "\<forall>e \<in> set es. m (index e) = Some e" "term_before m (p + 1) = h"
  shows "chain_facts h es = (\<lambda>e. (index e, entry_term e, command e, term_before m (index e))) ` set es"
  using assms
proof (induction es arbitrary: p h)
  case Nil
  then show ?case by simp
next
  case (Cons x es)
  then have x: "index x = p + 1" "consecutive (index x) es" "m (index x) = Some x" by auto
  then have "term_before m (index x + 1) = entry_term x" unfolding term_before_def add_diff_cancel_right' by simp
  from Cons.IH [OF x(2) _ this] Cons.prems(2,3) x(1) show ?case by auto
qed

lemma first_conflict_first:
  "consecutive p es \<Longrightarrow> find P es = Some e \<Longrightarrow> x \<in> set es \<Longrightarrow> P x \<Longrightarrow> index e \<le> index x"
proof (induction es arbitrary: p)
  case Nil
  then show ?case by simp
next
  case (Cons y es)
  from Cons.prems(1) have y: "consecutive (index y) es" unfolding consecutive.simps by blast
  show ?case
  proof (cases "P y")
    case True
    with Cons.prems(2,3) consecutive_less [OF y, of x] show ?thesis by auto
  next
    case False
    with Cons.prems have "find P es = Some e" "x \<in> set es" by auto
    from Cons.IH [OF y this Cons.prems(4)] show ?thesis .
  qed
qed

lemma conflict_at_mono: "conflict_at l es j \<Longrightarrow> j \<le> i \<Longrightarrow> conflict_at l es i"
  by (auto simp: conflict_at_def split: option.splits)

lemma no_conflict_term:
  assumes es: "consecutive p es" and n: "\<not> conflict_at l es (index x)" and x: "x \<in> set es" "entries l (index x) = Some y"
  shows "entry_term x = entry_term y"
proof (rule ccontr)
  let ?P = "\<lambda>e. case term_at l (index e) of None \<Rightarrow> False | Some t \<Rightarrow> t \<noteq> entry_term e"
  assume "entry_term x \<noteq> entry_term y"
  then have P: "?P x" using x(2) by (simp add: term_at_def)
  with x(1) obtain e where e: "find ?P es = Some e" by (cases "find ?P es") (auto simp: find_None_iff)
  from first_conflict_first [OF es e x(1) P] e n show False
    by (simp add: conflict_at_def first_conflict_def)
qed

text \<open>A log that an accepted request has changed holds only its own facts and the request's.\<close>

lemma merge_log_facts:
  assumes wf: "log_wf l" and es: "consecutive p es" and h: "term_before (entries l) (p + 1) = h"
  shows "log_facts (entries (merge_log es l)) \<subseteq> log_facts (entries l) \<union> chain_facts h es"
proof
  let ?m = "entries (merge_log es l)"
  note d = consecutive_distinct [OF es]
  note mm = entries_merge_log [OF d, of l]
  have sent: "\<forall>e \<in> set es. ?m (index e) = Some e"
    using mm find_index_unique [OF d] by simp
  have out_es: "?m j = (if conflict_at l es j then None else entries l j)" if "j \<notin> index ` set es" for j
  proof -
    have "find (\<lambda>e. index e = j) es = None" using that by (auto simp: find_None_iff)
    then show ?thesis using mm [of j] by simp
  qed
  have "p \<notin> index ` set es" using consecutive_less [OF es] by auto
  then have "?m p = entries l p" using out_es conflict_after [OF es, of p l] by simp
  then have h': "term_before ?m (p + 1) = h" using h by (simp add: term_before_def)
  fix f assume "f \<in> log_facts ?m"
  then obtain i e where f: "f = (i, entry_term e, command e, term_before ?m i)" and e: "?m i = Some e"
    by (auto simp: log_facts_def)
  show "f \<in> log_facts (entries l) \<union> chain_facts h es"
  proof (cases "i \<in> index ` set es")
    case True
    then obtain x where x: "x \<in> set es" "index x = i" by auto
    with sent e have "x = e" by auto
    with x f chain_facts_eq [OF es sent h'] show ?thesis by auto
  next
    case False
    with out_es [of i] e have i: "\<not> conflict_at l es i" "entries l i = Some e" by (auto split: if_splits)
    have "term_before ?m i = term_before (entries l) i"
    proof (cases "i - 1 \<in> index ` set es")
      case True
      then obtain x where x: "x \<in> set es" "index x = i - 1" by auto
      have "0 < i - 1" using consecutive_less [OF es x(1)] x(2) le_less_trans [OF word_zero_le] by metis
      moreover have "i - 1 \<le> last_index l"
        using log_wf_le [OF wf i(2)] by (auto simp: word_le_nat_alt unat_minus_one word_gt_0)
      ultimately obtain y where y: "entries l (index x) = Some y"
        using log_wf_entry [OF wf, of "i - 1"] x(2) by auto
      have "i - 1 \<le> i" using log_wf_le [OF wf i(2)] by (auto simp: word_le_nat_alt unat_minus_one word_gt_0)
      then have "\<not> conflict_at l es (index x)" using i(1) conflict_at_mono [of l es "i - 1" i] x(2) by auto
      from no_conflict_term [OF es this x(1) y] sent x y show ?thesis by (auto simp: term_before_def)
    next
      case False
      have "i - 1 \<le> i" using log_wf_le [OF wf i(2)] by (auto simp: word_le_nat_alt unat_minus_one word_gt_0)
      then have "\<not> conflict_at l es (i - 1)" using i(1) conflict_at_mono [of l es "i - 1" i] by auto
      with out_es [OF False] show ?thesis by (simp add: term_before_def)
    qed
    with f i(2) show ?thesis by (auto simp: log_facts_def)
  qed
qed

lemma term_before_next: "term_before m (i + 1) = (case m i of None \<Rightarrow> 0 | Some e \<Rightarrow> entry_term e)"
  by (simp add: term_before_def)

text \<open>A leader's request copies facts of its log.\<close>

lemma heartbeat_facts:
  assumes "log_wf (log s)"
  shows "envelope_facts (heartbeat E s p) \<subseteq> log_facts (entries (log s))"
proof -
  define req where "req = append_entries_for E s p"
  note a = append_entries_for_wf [OF assms, where E = E and p = p, folded req_def]
  have t: "prev_log_term req = default_or 0 (term_at (log s) (prev_log_index req))"
    by (simp add: req_def append_entries_for_def Let_def)
  have "head_term req = term_before (entries (log s)) (prev_log_index req + 1)"
    using log_wf_None [OF assms, of 0]
    by (auto simp: head_term_def t term_before_next term_at_def default_or_def split: option.split)
  with chain_facts_eq [OF a(1), of "entries (log s)"] a(2) log_factsI
  have "chain_facts (head_term req) (ae_entries req) \<subseteq> log_facts (entries (log s))" by auto
  then show ?thesis by (simp add: envelope_facts_def heartbeat_def new_envelope_def req_def)
qed

section \<open>What an event does to the facts\<close>

definition appends_ok :: "node \<Rightarrow> message_envelope \<Rightarrow> bool" where
  "appends_ok s env \<longleftrightarrow> envelope_facts env \<subseteq> log_facts (entries (log s)) \<and>
     (\<forall>req. message env = AppendEntries req \<longrightarrow> role s = Leader \<and> ae_term req = node_term s)"

text \<open>
  \<open>copies F s s'\<close>: besides what it held, the log now holds at most the facts \<open>F\<close>, it has not become
  shorter, and what is sent copies it.
\<close>

definition copies :: "fact set \<Rightarrow> node \<Rightarrow> node \<Rightarrow> bool" where
  "copies F s s' \<longleftrightarrow> log_facts (entries (log s')) \<subseteq> log_facts (entries (log s)) \<union> F \<and>
     last_index (log s) \<le> last_index (log s') \<and>
     (\<exists>new. outgoing s' = outgoing s @ new \<and> list_all (appends_ok s') new)"

lemma copies_same:
  "entries (log s') = entries (log s) \<Longrightarrow> last_index (log s') = last_index (log s) \<Longrightarrow>
   outgoing s' = outgoing s \<Longrightarrow> copies F s s'"
  by (simp add: copies_def)

lemma copies_sends:
  "entries (log s') = entries (log s) \<Longrightarrow> last_index (log s') = last_index (log s) \<Longrightarrow>
   outgoing s' = outgoing s @ [env] \<Longrightarrow> appends_ok s' env \<Longrightarrow> copies F s s'"
  by (simp add: copies_def)

lemma heartbeats_copy:
  assumes "log_wf (log t)" "role t = Leader"
  shows "list_all (appends_ok (broadcast E t)) (map (heartbeat E t) ps)"
proof -
  have "appends_ok (broadcast E t) (heartbeat E t p)" for p
    using heartbeat_facts [OF assms(1), of E p] assms(2)
    by (auto simp: appends_ok_def broadcast_def heartbeat_def new_envelope_def append_entries_for_def Let_def)
  then show ?thesis by (simp add: list_all_iff)
qed

lemma copies_broadcast:
  assumes "log_wf (log t)" "role t = Leader" "outgoing t = outgoing s"
    "log_facts (entries (log t)) \<subseteq> log_facts (entries (log s)) \<union> F" "last_index (log s) \<le> last_index (log t)"
  shows "copies F s (broadcast E t)"
  using heartbeats_copy [OF assms(1,2)] assms(3-)
  by (auto simp: copies_def broadcast_def)

lemma synced_log_wf: "synced E l \<Longrightarrow> log_wf l"
  by (simp add: synced_def)

lemma copies_handle_request_vote:
  assumes "serde_ok E" "synced E (log s)"
  shows "post (handle_request_vote E from req) (\<lambda>r s'. copies {} s s') s"
proof -
  have reply: "appends_ok t (request_vote_reply E u v w x)" for t u v w x
    by (simp add: appends_ok_def envelope_facts_def request_vote_reply_def new_envelope_def)
  show ?thesis
    using assms reply
    by (auto simp: handle_request_vote_def wp Let_def copies_def
        intro!: post_set_current_term_synced post_set_voted_for_synced split: res.splits)
qed

lemma copies_handle_append_entries_response:
  assumes "serde_ok E" "synced E (log s)"
  shows "post (handle_append_entries_response E from resp) (\<lambda>r s'. copies {} s s') s"
  using assms
  by (auto simp: handle_append_entries_response_def wp apply_result_of_eq
      intro!: post_set_current_term_synced post_try_advance copies_same split: res.splits option.splits)

lemma copies_handle_request_vote_response:
  assumes "serde_ok E" "synced E (log s)"
  shows "post (handle_request_vote_response E from resp) (\<lambda>r s'. copies {} s s') s"
  using assms
  by (auto simp: handle_request_vote_response_def wp leader_state_def synced_log_wf copies_broadcast
      intro!: post_set_current_term_synced copies_same split: res.splits)

lemma copies_start_election:
  assumes "serde_ok E" "synced E (log s)"
  shows "post (start_election E) (\<lambda>r s'. copies {} s s') s"
proof (cases "log_locked s")
  case True
  then show ?thesis by (simp add: start_election_def wp copies_same)
next
  case False
  with assms have "node_ok E s" by (simp add: node_ok_def)
  from start_election_ok [OF this] obtain l where l: "start_election E s =
      (Ret (), if hm_keys (peers s) = [] then broadcast E (leader_state (candidate_state E l s))
               else candidate_state E l s)" "synced E l"
    "log_view l = (entries (log s),
      \<lparr>current_term = node_term s + 1, voted_for = Some (push_str E 64 (node_id s))\<rparr>, last_index (log s))"
    by blast
  note v = log_of_view [OF l(3)]
  have "list_all (appends_ok t) (map (campaign E s u) ps)" for t u ps
    by (simp add: list_all_iff appends_ok_def campaign_def new_envelope_def envelope_facts_def)
  then have c: "copies {} s (candidate_state E l s)"
    by (simp add: copies_def candidate_state_def v)
  have "copies {} s (broadcast E (leader_state (candidate_state E l s)))" if "hm_keys (peers s) = []"
    using that l(2) v by (intro copies_broadcast) (simp_all add: candidate_state_def leader_state_def synced_log_wf)
  with c l(1) show ?thesis by (simp add: post_def)
qed

text \<open>The fact a leader makes: its term, the next index, and the term of its last entry.\<close>

definition proposal_fact :: "node \<Rightarrow> command \<Rightarrow> fact" where
  "proposal_fact s c = (last_index (log s) + 1, node_term s, c, term_before (entries (log s)) (last_index (log s) + 1))"

lemma append_facts:
  assumes "log_wf l" "last_index l \<noteq> - 1" "index e = last_index l + 1"
  shows "log_facts (insert_entry e (entries l)) \<subseteq>
    log_facts (entries l) \<union> {(index e, entry_term e, command e, term_before (entries l) (index e))}"
proof
  let ?m = "insert_entry e (entries l)"
  fix f assume "f \<in> log_facts ?m"
  then obtain i x where f: "f = (i, entry_term x, command x, term_before ?m i)" "?m i = Some x"
    by (auto simp: log_facts_def)
  have le: "i \<le> last_index l + 1" "0 < i"
    using f(2) log_wf_le [OF assms(1), of i x] less_plus_one_iff [OF assms(2)]
    by (auto simp: insert_entry_def assms(3) less_imp_le split: if_splits)
  then have "i - 1 \<noteq> last_index l + 1"
    by (metis add_diff_cancel_right' diff_add_cancel leD less_plus_one_iff assms(2) word_not_simps(1) order_refl)
  then have "term_before ?m i = term_before (entries l) i"
    by (simp add: term_before_def insert_entry_def assms(3))
  with f show "f \<in> log_facts (entries l) \<union> {(index e, entry_term e, command e, term_before (entries l) (index e))}"
    by (auto simp: insert_entry_def log_facts_def split: if_splits)
qed

lemma copies_propose:
  assumes "serde_ok E" "synced E (log s)" "last_index (log s) \<noteq> - 1" "command_ok c"
  shows "post (propose E c tx) (\<lambda>r s'. copies (if role s = Leader then {proposal_fact s c} else {}) s s') s"
proof (cases "role s = Leader \<and> \<not> log_locked s")
  case False
  then show ?thesis by (auto simp: propose_def reply_to_def wp intro!: copies_same)
next
  case True
  with assms have "node_ok E s" by (simp add: node_ok_def)
  from propose_leader [OF this _ assms(3,4), of tx] True have p:
    "propose E c tx s = (Ret (), broadcast E (proposed E c tx s))" "synced E (log (proposed E c tx s))" by auto
  let ?e = "\<lparr>index = last_index (log s) + 1, entry_term = node_term s, command = c\<rparr>"
  have m: "entries (log (proposed E c tx s)) = insert_entry ?e (entries (log s))"
    "last_index (log s) \<le> last_index (log (proposed E c tx s))"
    "role (proposed E c tx s) = Leader" "outgoing (proposed E c tx s) = outgoing s"
    using True by (simp_all add: proposed_def Let_def)
  have "copies {proposal_fact s c} s (broadcast E (proposed E c tx s))"
    using append_facts [OF synced_log_wf [OF assms(2)] assms(3), of ?e] m synced_log_wf [OF p(2)]
    by (intro copies_broadcast) (simp_all add: proposal_fact_def)
  with p(1) True show ?thesis by (simp add: post_def)
qed

text \<open>
  What an event may change: the log copies the request that is delivered or takes the leader's new
  fact, and only a request of the node's resulting term can shorten it.
\<close>

definition event_facts :: "node_event \<Rightarrow> node \<Rightarrow> fact set" where
  "event_facts ev s = (case ev of
      Deliver env \<Rightarrow> envelope_facts env
    | ClientPropose c tx \<Rightarrow> if role s = Leader then {proposal_fact s c} else {}
    | _ \<Rightarrow> {})"

definition is_append_of :: "u64 \<Rightarrow> node_event \<Rightarrow> bool" where
  "is_append_of t ev \<longleftrightarrow> (case ev of
      Deliver env \<Rightarrow> (case message env of AppendEntries req \<Rightarrow> ae_term req = t | _ \<Rightarrow> False)
    | _ \<Rightarrow> False)"

definition log_change :: "node_event \<Rightarrow> node \<Rightarrow> node \<Rightarrow> bool" where
  "log_change ev s s' \<longleftrightarrow>
     log_facts (entries (log s')) \<subseteq> log_facts (entries (log s)) \<union> event_facts ev s \<and>
     (last_index (log s) \<le> last_index (log s') \<or> is_append_of (node_term s') ev) \<and>
     (\<exists>new. outgoing s' = outgoing s @ new \<and> list_all (appends_ok s') new)"

lemma copies_change: "copies F s s' \<Longrightarrow> F \<subseteq> event_facts ev s \<Longrightarrow> log_change ev s s'"
  unfolding copies_def log_change_def by blast

lemma post_change:
  "post m (\<lambda>r s'. copies F s s') s \<Longrightarrow> F \<subseteq> event_facts ev s \<Longrightarrow> post m (\<lambda>r s'. log_change ev s s') s"
  by (erule post_mono) (erule copies_change)

lemma change_same:
  "entries (log s') = entries (log s) \<Longrightarrow> last_index (log s') = last_index (log s) \<Longrightarrow>
   outgoing s' = outgoing s \<Longrightarrow> log_change ev s s'"
  by (simp add: log_change_def)

lemma change_handle_append_entries:
  assumes "serde_ok E" "synced E (log s)" "message env = AppendEntries req"
    "consecutive (prev_log_index req) (ae_entries req)" "list_all entry_ok (ae_entries req)"
  shows "post (handle_append_entries E from req) (\<lambda>r s'. log_change (Deliver env) s s') s"
proof (cases "log_locked s \<or> ae_term req < node_term s")
  case True
  then show ?thesis
    using append_entries_stale [of s req E "from"] by (auto simp: post_def handle_append_entries_def scope_def bind_def lock_log_def change_same)
next
  case False
  with assms(1,2) have ok: "node_ok E s" "node_term s \<le> ae_term req" by (simp_all add: node_ok_def not_less)
  let ?p = "prev_log_index req"
  have app: "is_append_of (ae_term req) (Deliver env)" by (simp add: is_append_of_def assms(3))
  show ?thesis
  proof (cases "?p = 0 \<or> has_entry (log s) ?p (prev_log_term req)")
    case False
    then have "0 < ?p" "\<not> has_entry (log s) ?p (prev_log_term req)" by (auto simp: word_gt_0)
    from append_entries_gap [OF ok this, of "from"] app show ?thesis
      by (auto simp: post_def log_change_def)
  next
    case True
    from append_entries_accept [OF ok True assms(4,5), of "from"] obtain l where l:
      "handle_append_entries E from req s =
        (Ret (), (apply_result_of (follower_state l req s))
          \<lparr>outgoing := outgoing s @ [append_entries_reply E (follower_state l req s) from (node_term s) True]\<rparr>)"
      "entries l = entries (merge_log (ae_entries req) (log s))" "log_current_term l = ae_term req" by blast
    note wf = synced_log_wf [OF assms(2)]
    have "term_before (entries (log s)) (?p + 1) = head_term req"
      using True log_wf_None [OF wf, of 0]
      by (auto simp: term_before_next head_term_def has_entry_def split: option.splits)
    from merge_log_facts [OF wf assms(4) this]
    have "log_facts (entries l) \<subseteq> log_facts (entries (log s)) \<union> event_facts (Deliver env) s"
      by (simp add: l(2) event_facts_def envelope_facts_def assms(3))
    moreover have "appends_ok t (append_entries_reply E u v w x)" for t u v w x
      by (simp add: appends_ok_def envelope_facts_def append_entries_reply_def new_envelope_def)
    ultimately show ?thesis
      using l(1,3) app by (simp add: post_def log_change_def apply_result_of_eq follower_state_def)
  qed
qed

lemma change_handle_message:
  assumes "serde_ok E" "synced E (log s)" "delivery_ok E env"
  shows "post (handle_message E env) (\<lambda>r s'. log_change (Deliver env) s s') s"
  using assms
  by (cases "message env")
    (auto simp: handle_message_def delivery_ok_def wp change_same
      intro!: change_handle_append_entries
        post_change [OF copies_handle_append_entries_response]
        post_change [OF copies_handle_request_vote]
        post_change [OF copies_handle_request_vote_response])

lemma change_run_event:
  assumes "serde_ok E" "synced E (log s)" "admissible E s ev"
  shows "post (run_event E ev) (\<lambda>r s'. log_change ev s s') s"
proof (cases ev)
  case (Deliver env)
  with assms show ?thesis by (simp add: run_event_def admissible_def change_handle_message)
next
  case (ElectionTimer timeout)
  have "post (start_election E) (\<lambda>r s'. log_change ev s s') s"
    using copies_start_election [OF assms(1,2)] by (rule post_change) simp
  with ElectionTimer show ?thesis by (simp add: run_event_def election_tick_def wp change_same)
next
  case (ClientPropose c tx)
  have "post (propose E c tx) (\<lambda>r s'. log_change ev s s') s"
    using assms ClientPropose by (intro post_change [OF copies_propose]) (simp_all add: admissible_def event_facts_def)
  with ClientPropose show ?thesis by (simp add: run_event_def)
next
  case HeartbeatTimer
  have "log_change ev s (broadcast E s)" if "role s = Leader"
    using that by (intro copies_change [OF copies_broadcast [where F = "{}"]]) (simp_all add: synced_log_wf [OF assms(2)])
  with HeartbeatTimer show ?thesis
    by (simp add: run_event_def heartbeat_tick_def wp change_same)
qed (auto simp: run_event_def add_peer_def remove_peer_def get_status_def wp change_same split: res.splits)

section \<open>The facts of a cluster\<close>

definition cluster_facts :: "cluster \<Rightarrow> fact set" where
  "cluster_facts c = {f. (\<exists>n s. members c n = Some s \<and> f \<in> log_facts (entries (log s))) \<or>
     (\<exists>env \<in> set (sent c). f \<in> envelope_facts env)}"

text \<open>
  The term of every fact was won, and by another node than a candidate of that term; a leader's log
  reaches every fact of its term; index and term determine a fact; and requests come from winners.
\<close>

definition matching_inv :: "cluster \<Rightarrow> bool" where
  "matching_inv c \<longleftrightarrow>
     (\<forall>i t x p. (i, t, x, p) \<in> cluster_facts c \<longrightarrow>
        (\<exists>n. won c t n) \<and>
        (\<forall>m s. members c m = Some s \<and> node_term s = t \<longrightarrow>
           (role s = Candidate \<longrightarrow> (\<exists>n. n \<noteq> m \<and> won c t n)) \<and>
           (role s = Leader \<longrightarrow> i \<le> last_index (log s))) \<and>
        (\<forall>x' p'. (i, t, x', p') \<in> cluster_facts c \<longrightarrow> x' = x \<and> p' = p)) \<and>
     (\<forall>env \<in> set (sent c). \<forall>req. message env = AppendEntries req \<longrightarrow> won c (ae_term req) (env_from env))"

lemma matching_invD:
  assumes "matching_inv c" "(i, t, x, p) \<in> cluster_facts c"
  shows "\<exists>n. won c t n"
    and "members c m = Some s \<Longrightarrow> node_term s = t \<Longrightarrow> role s = Candidate \<Longrightarrow> \<exists>n. n \<noteq> m \<and> won c t n"
    and "members c m = Some s \<Longrightarrow> node_term s = t \<Longrightarrow> role s = Leader \<Longrightarrow> i \<le> last_index (log s)"
    and "(i, t, x', p') \<in> cluster_facts c \<Longrightarrow> x' = x \<and> p' = p"
  using assms unfolding matching_inv_def by blast+

lemma matching_inv_sent:
  "matching_inv c \<Longrightarrow> env \<in> set (sent c) \<Longrightarrow> message env = AppendEntries req \<Longrightarrow> won c (ae_term req) (env_from env)"
  unfolding matching_inv_def by blast

text \<open>A step that adds no fact and moves no role keeps the invariant.\<close>

lemma matching_inv_quiet:
  assumes I: "matching_inv c" and f: "cluster_facts c' \<subseteq> cluster_facts c" and s: "sent c' = sent c"
    and m: "\<And>n u. members c' n = Some u \<Longrightarrow> role u = Follower \<or>
      (\<exists>v. members c n = Some v \<and> role u = role v \<and> node_term u = node_term v \<and> last_index (log u) = last_index (log v))"
  shows "matching_inv c'"
proof -
  have w: "won c' t n = won c t n" for t n by (simp add: won_def voters_def s)
  show ?thesis
    unfolding matching_inv_def w s
  proof (intro conjI allI impI ballI)
    fix i t x p assume "(i, t, x, p) \<in> cluster_facts c'"
    with f have old: "(i, t, x, p) \<in> cluster_facts c" by blast
    note D = matching_invD [OF I old]
    show "\<exists>n. won c t n" by (rule D)
    show "x' = x" "p' = p" if "(i, t, x', p') \<in> cluster_facts c'" for x' p'
      using D(4) that f by blast+
    fix k u assume u: "members c' k = Some u \<and> node_term u = t"
    then have u': "role u = Follower \<or> (\<exists>v. members c k = Some v \<and> role u = role v \<and> node_term u = node_term v \<and>
        last_index (log u) = last_index (log v))" using m by blast
    show "\<exists>n. n \<noteq> k \<and> won c t n" if "role u = Candidate"
      using u' u that D(2) [of k] by auto
    show "i \<le> last_index (log u)" if "role u = Leader"
      using u' u that D(3) [of k] by auto
  next
    show "won c (ae_term req) (env_from env)" if "env \<in> set (sent c)" "message env = AppendEntries req" for env req
      using matching_inv_sent [OF I that] .
  qed
qed

lemma matching_inv_initial:
  assumes "initial_cluster E c"
  shows "matching_inv c"
proof -
  have "entries (log s) = Map.empty" if "members c n = Some s" for n s
    using assms that unfolding initial_cluster_def
    by (fastforce simp: new_node_def no_files_def new_raft_log_fresh fresh_log_simps)
  moreover have "sent c = []" using assms by (simp add: initial_cluster_def)
  ultimately have "cluster_facts c = {}" by (auto simp: cluster_facts_def log_facts_def)
  with \<open>sent c = []\<close> show ?thesis by (simp add: matching_inv_def)
qed

section \<open>Every event keeps the invariant\<close>

definition fresh_facts :: "node_event \<Rightarrow> node \<Rightarrow> fact set" where
  "fresh_facts ev s = (case ev of
      ClientPropose x tx \<Rightarrow> if role s = Leader then {proposal_fact s x} else {}
    | _ \<Rightarrow> {})"

lemma fresh_factsD:
  assumes "(i, t, x, p) \<in> fresh_facts ev s"
  shows "i = last_index (log s) + 1" "t = node_term s" "role s = Leader"
  using assms by (auto simp: fresh_facts_def proposal_fact_def split: node_event.splits if_splits)

text \<open>The setting of a step: a reachable cluster of at most three nodes and a timely event of one of them.\<close>

definition timely_event :: "'e serde_scheme \<Rightarrow> cluster \<Rightarrow> string \<Rightarrow> node \<Rightarrow> node_event \<Rightarrow> bool" where
  "timely_event E c n s ev \<longleftrightarrow> serde_ok E \<and> timely_reachable E c \<and> finite (dom (members c)) \<and>
     card (dom (members c)) \<le> 3 \<and> matching_inv c \<and> members c n = Some s \<and> enabled E c s ev \<and> timely s ev"

lemma timely_eventD:
  assumes "timely_event E c n s ev"
  shows "serde_ok E" "members c n = Some s" "enabled E c s ev" "timely s ev" "matching_inv c"
    "cluster_inv E c" "synced E (log s)" "outgoing s = []" "node_id s = n"
    and "\<And>m u. members c m = Some u \<Longrightarrow> backed c m u"
    and "cluster_inv E (act E n ev s c)" "backed (act E n ev s c) n (step_event E ev s)"
proof -
  note a = assms [unfolded timely_event_def]
  show E: "serde_ok E" and s: "members c n = Some s" and "enabled E c s ev" "timely s ev" "matching_inv c"
    using a by blast+
  have t: "timely_reachable E c" "timely_reachable E (act E n ev s c)"
    using a timely_reachable.event by blast+
  show I: "cluster_inv E c" "cluster_inv E (act E n ev s c)"
    using t timely_is_reachable inv_reachable E by blast+
  then show "synced E (log s)" "outgoing s = []" "node_id s = n"
    using s by (auto simp: cluster_inv_def member_ok_def)
  show b: "\<And>m u. members c m = Some u \<Longrightarrow> backed c m u"
    using election_inv_reachable [OF t(1) E] by (simp add: election_inv_def)
  show "backed (act E n ev s c) n (step_event E ev s)"
    using backed_event [OF E I(1) s _ _ b [OF s]] a by blast
qed

lemma timely_event_won:
  assumes "timely_event E c n s ev"
  shows "won c t m \<Longrightarrow> won (act E n ev s c) t m"
    and "won (act E n ev s c) t m \<Longrightarrow> won (act E n ev s c) t k \<Longrightarrow> k = m"
proof -
  show "won c t m \<Longrightarrow> won (act E n ev s c) t m"
    by (erule won_mono) (auto simp: act_def Let_def)
  have "dom (members (act E n ev s c)) = dom (members c)"
    using timely_eventD(2) [OF assms] by (auto simp: act_def Let_def)
  with assms show "won (act E n ev s c) t m \<Longrightarrow> won (act E n ev s c) t k \<Longrightarrow> k = m"
    using won_unique [OF timely_eventD(11) [OF assms]] by (simp add: timely_event_def)
qed

lemma timely_event_change:
  assumes "timely_event E c n s ev"
  shows "log_change ev s (step_event E ev s)" "office_change ev s (step_event E ev s)"
proof -
  note D = timely_eventD [OF assms]
  note adm = event_admissible [OF D(6,3)]
  have pe: "hm_keys (peers s) \<noteq> []" using D(10) [OF D(2)] by (simp add: backed_def)
  show "log_change ev s (step_event E ev s)"
    by (rule step_event_post [where R = "log_change ev", OF change_run_event [OF D(1,7) adm]])
  show "office_change ev s (step_event E ev s)"
    by (rule step_event_post [where R = "office_change ev", OF office_run_event [OF D(1,7) adm D(4) pe]])
qed

lemma act_members:
  "members (act E n ev s c) = (members c)(n \<mapsto> (step_event E ev s)\<lparr>outgoing := []\<rparr>)"
  "sent (act E n ev s c) = sent c @ outgoing (step_event E ev s)"
  by (simp_all add: act_def Let_def)

lemma event_facts_delivered:
  assumes "timely_event E c n s ev"
  shows "event_facts ev s \<subseteq> cluster_facts c \<union> fresh_facts ev s"
  using timely_eventD(3) [OF assms]
  by (auto simp: event_facts_def fresh_facts_def enabled_def cluster_facts_def split: node_event.splits if_splits)

lemma timely_event_sends:
  assumes "timely_event E c n s ev" "env \<in> set (outgoing (step_event E ev s))"
  shows "appends_ok (step_event E ev s) env"
  using timely_event_change(1) [OF assms(1)] timely_eventD(8) [OF assms(1)] assms(2)
  by (auto simp: log_change_def list_all_iff)

text \<open>All facts after the event are old, or are in the node's log; and only a proposal adds one.\<close>

lemma event_cluster_facts:
  assumes "timely_event E c n s ev"
  shows "cluster_facts (act E n ev s c) \<subseteq> cluster_facts c \<union> log_facts (entries (log (step_event E ev s)))"
    and "cluster_facts (act E n ev s c) \<subseteq> cluster_facts c \<union> fresh_facts ev s"
proof -
  let ?s = "step_event E ev s"
  show a: "cluster_facts (act E n ev s c) \<subseteq> cluster_facts c \<union> log_facts (entries (log ?s))"
    using timely_event_sends [OF assms]
    by (fastforce simp: cluster_facts_def act_members appends_ok_def split: if_splits)
  have "log_facts (entries (log s)) \<subseteq> cluster_facts c"
    using timely_eventD(2) [OF assms] by (auto simp: cluster_facts_def)
  then have "log_facts (entries (log ?s)) \<subseteq> cluster_facts c \<union> fresh_facts ev s"
    using timely_event_change(1) [OF assms] event_facts_delivered [OF assms] unfolding log_change_def by blast
  with a show "cluster_facts (act E n ev s c) \<subseteq> cluster_facts c \<union> fresh_facts ev s" by blast
qed

lemma step_won:
  assumes T: "timely_event E c n s ev" and f: "(i, t, x, p) \<in> cluster_facts (act E n ev s c)"
  shows "\<exists>k. won (act E n ev s c) t k"
proof (cases "(i, t, x, p) \<in> cluster_facts c")
  case True
  with matching_invD(1) [OF timely_eventD(5) [OF T]] timely_event_won(1) [OF T] show ?thesis by blast
next
  case False
  with f event_cluster_facts(2) [OF T] have "(i, t, x, p) \<in> fresh_facts ev s" by blast
  from fresh_factsD [OF this] backed_won [OF timely_eventD(10) [OF T timely_eventD(2) [OF T]]]
  show ?thesis using timely_event_won(1) [OF T] by blast
qed

text \<open>The node that steps: a candidate's term was won by another node, if it has facts at all.\<close>

lemma new_candidate:
  assumes T: "timely_event E c n s ev" and f: "(i, t, x, p) \<in> cluster_facts (act E n ev s c)"
    and s': "role (step_event E ev s) = Candidate" "node_term (step_event E ev s) = t"
  shows "\<exists>k. k \<noteq> n \<and> won (act E n ev s c) t k"
proof -
  note D = timely_eventD [OF T]
  from timely_event_change(2) [OF T] s'
  consider "role s = Candidate" "node_term s = t" | "node_term s < t"
    by (auto simp: office_change_def office_step_def stands_def elected_by_def)
  then show ?thesis
  proof cases
    case 1
    then have "(i, t, x, p) \<in> cluster_facts c"
      using f event_cluster_facts(2) [OF T] fresh_factsD(3) [of i t x p ev s] by fastforce
    from matching_invD(2) [OF D(5) this D(2)] 1 show ?thesis using timely_event_won(1) [OF T] by blast
  next
    case 2
    then have "(i, t, x, p) \<in> cluster_facts c"
      using f event_cluster_facts(2) [OF T] fresh_factsD(2) [of i t x p ev s] by fastforce
    from matching_invD(1) [OF D(5) this] obtain k where k: "won c t k" by blast
    have "k \<noteq> n"
    proof
      assume "k = n"
      with k obtain env where "env \<in> set (sent c)" "promise env = Some (n, t, n)"
        by (auto simp: won_def voters_def)
      then have "kept s t n" using D(2,6) unfolding cluster_inv_def by blast
      with 2 show False by (auto simp: kept_def)
    qed
    with k show ?thesis using timely_event_won(1) [OF T] by blast
  qed
qed

text \<open>The node that steps: a leader's log reaches the facts of its term.\<close>

lemma leader_not_shortened:
  assumes T: "timely_event E c n s ev" and s': "role (step_event E ev s) = Leader"
  shows "last_index (log s) \<le> last_index (log (step_event E ev s))"
proof (rule ccontr)
  assume "\<not> ?thesis"
  then have "is_append_of (node_term (step_event E ev s)) ev"
    using timely_event_change(1) [OF T] by (simp add: log_change_def)
  then obtain env req where ev: "ev = Deliver env" "message env = AppendEntries req"
    "ae_term req = node_term (step_event E ev s)"
    by (auto simp: is_append_of_def split: node_event.splits raft_message.splits)
  note D = timely_eventD [OF T]
  have "env \<in> set (sent c)" using D(3) ev(1) by (simp add: enabled_def)
  from timely_event_won(1) [OF T matching_inv_sent [OF D(5) this ev(2)]]
  have "won (act E n ev s c) (node_term (step_event E ev s)) (env_from env)" using ev(3) by simp
  from timely_event_won(2) [OF T this backed_won [OF D(12) s']]
  show False using D(4,9) ev(1) by (simp add: timely_def)
qed

lemma log_facts_index: "log_wf l \<Longrightarrow> (i, t, x, p) \<in> log_facts (entries l) \<Longrightarrow> i \<le> last_index l"
  by (auto simp: log_facts_def dest: log_wf_le)

lemma new_leader:
  assumes T: "timely_event E c n s ev" and f: "(i, t, x, p) \<in> cluster_facts (act E n ev s c)"
    and s': "role (step_event E ev s) = Leader" "node_term (step_event E ev s) = t"
  shows "i \<le> last_index (log (step_event E ev s))"
proof (cases "(i, t, x, p) \<in> cluster_facts c")
  case False
  have "member_ok E n ((step_event E ev s)\<lparr>outgoing := []\<rparr>)"
    using timely_eventD(11) [OF T] by (simp add: cluster_inv_def act_members)
  then have "log_wf (log (step_event E ev s))" by (auto simp: member_ok_def intro: synced_log_wf)
  with f False event_cluster_facts(1) [OF T] log_facts_index show ?thesis by blast
next
  case True
  note D = timely_eventD [OF T]
  have "role s = Leader \<and> node_term s = t"
  proof (rule ccontr)
    assume n: "\<not> ?thesis"
    with timely_event_change(2) [OF T] s' have "role s = Candidate" "node_term s = t"
      by (auto simp: office_change_def office_step_def stands_def elected_by_def)
    from matching_invD(2) [OF D(5) True D(2) this(2,1)] obtain k where k: "k \<noteq> n" "won c t k" by blast
    have "won (act E n ev s c) t n" using backed_won [OF D(12) s'(1)] s'(2) by simp
    from timely_event_won(2) [OF T this timely_event_won(1) [OF T k(2)]] k(1) show False by simp
  qed
  then have "i \<le> last_index (log s)" using matching_invD(3) [OF D(5) True D(2)] by simp
  also have "\<dots> \<le> last_index (log (step_event E ev s))" by (rule leader_not_shortened [OF T s'(1)])
  finally show ?thesis .
qed

lemma old_leader:
  assumes T: "timely_event E c n s ev" and f: "(i, t, x, p) \<in> cluster_facts (act E n ev s c)"
    and u: "m \<noteq> n" "members c m = Some u" "role u = Leader" "node_term u = t"
  shows "i \<le> last_index (log u)"
proof (cases "(i, t, x, p) \<in> cluster_facts c")
  case True
  show ?thesis by (rule matching_invD(3) [OF timely_eventD(5) [OF T] True u(2,4,3)])
next
  case False
  note D = timely_eventD [OF T]
  from f False event_cluster_facts(2) [OF T] have "(i, t, x, p) \<in> fresh_facts ev s" by blast
  from fresh_factsD [OF this] have "won c t n" using backed_won [OF D(10) [OF D(2)]] by simp
  moreover have "won c t m" using backed_won [OF D(10) [OF u(2)] u(3)] u(4) by simp
  ultimately show ?thesis using timely_event_won [OF T] u(1) by blast
qed

lemma old_candidate:
  assumes T: "timely_event E c n s ev" and f: "(i, t, x, p) \<in> cluster_facts (act E n ev s c)"
    and u: "m \<noteq> n" "members c m = Some u" "role u = Candidate" "node_term u = t"
  shows "\<exists>k. k \<noteq> m \<and> won (act E n ev s c) t k"
proof (cases "(i, t, x, p) \<in> cluster_facts c")
  case True
  from matching_invD(2) [OF timely_eventD(5) [OF T] True u(2,4,3)] obtain k where "k \<noteq> m" "won c t k" by blast
  with timely_event_won(1) [OF T] show ?thesis by blast
next
  case False
  note D = timely_eventD [OF T]
  from f False event_cluster_facts(2) [OF T] have "(i, t, x, p) \<in> fresh_facts ev s" by blast
  from fresh_factsD [OF this] have "won c t n" using backed_won [OF D(10) [OF D(2)]] by simp
  from timely_event_won(1) [OF T this] u(1) show ?thesis by (intro exI [of _ n]) simp
qed

lemma step_unique:
  assumes T: "timely_event E c n s ev"
    and f: "(i, t, x, p) \<in> cluster_facts (act E n ev s c)" "(i, t, x', p') \<in> cluster_facts (act E n ev s c)"
  shows "x' = x \<and> p' = p"
proof -
  note D = timely_eventD [OF T]
  have fresh: "(i, t, y, q) \<notin> cluster_facts c" if "(i, t, z, r) \<in> fresh_facts ev s" for y q z r
  proof
    assume old: "(i, t, y, q) \<in> cluster_facts c"
    note z = fresh_factsD [OF that]
    from matching_invD(3) [OF D(5) old D(2)] z have "i \<le> last_index (log s)" by simp
    moreover have "last_index (log s) \<noteq> - 1"
      using D(3) that by (auto simp: enabled_def fresh_facts_def split: node_event.splits)
    ultimately show False using z(1) less_plus_one_iff [of "last_index (log s)" "last_index (log s)"] by auto
  qed
  have two: "y = z \<and> q = r" if "(i, t, y, q) \<in> fresh_facts ev s" "(i, t, z, r) \<in> fresh_facts ev s" for y q z r
    using that by (auto simp: fresh_facts_def proposal_fact_def split: node_event.splits if_splits)
  from f event_cluster_facts(2) [OF T] show ?thesis
    using fresh two matching_invD(4) [OF D(5)] by blast
qed

lemma step_sent:
  assumes T: "timely_event E c n s ev" and e: "env \<in> set (sent (act E n ev s c))" "message env = AppendEntries req"
  shows "won (act E n ev s c) (ae_term req) (env_from env)"
proof (cases "env \<in> set (sent c)")
  case True
  from timely_event_won(1) [OF T matching_inv_sent [OF timely_eventD(5) [OF T] True e(2)]] show ?thesis .
next
  case False
  note D = timely_eventD [OF T]
  from e(1) False have o: "env \<in> set (outgoing (step_event E ev s))" by (simp add: act_members)
  from timely_event_sends [OF T o] e(2) have "role (step_event E ev s) = Leader"
    "ae_term req = node_term (step_event E ev s)" by (auto simp: appends_ok_def)
  moreover have "env_from env = n" by (rule event_sends(2) [OF D(1,6,2,3) o])
  ultimately show ?thesis using backed_won [OF D(12)] by simp
qed

lemma matching_inv_event:
  assumes T: "timely_event E c n s ev"
  shows "matching_inv (act E n ev s c)"
  unfolding matching_inv_def
proof (intro conjI allI impI ballI)
  fix i t x p assume f: "(i, t, x, p) \<in> cluster_facts (act E n ev s c)"
  show "\<exists>n'. won (act E n ev s c) t n'" by (rule step_won [OF T f])
  show "x' = x" "p' = p" if "(i, t, x', p') \<in> cluster_facts (act E n ev s c)" for x' p'
    using step_unique [OF T f that] by blast+
  fix m u assume u: "members (act E n ev s c) m = Some u \<and> node_term u = t"
  show "\<exists>k. k \<noteq> m \<and> won (act E n ev s c) t k" if "role u = Candidate"
  proof (cases "m = n")
    case True
    with u that new_candidate [OF T f] show ?thesis by (auto simp: act_members)
  next
    case False
    with u have "members c m = Some u" by (simp add: act_members)
    with old_candidate [OF T f False] u that show ?thesis by blast
  qed
  show "i \<le> last_index (log u)" if "role u = Leader"
  proof (cases "m = n")
    case True
    with u that new_leader [OF T f] show ?thesis by (auto simp: act_members)
  next
    case False
    with u that old_leader [OF T f False] show ?thesis by (simp add: act_members)
  qed
next
  show "won (act E n ev s c) (ae_term req) (env_from env)"
    if "env \<in> set (sent (act E n ev s c))" "message env = AppendEntries req" for env req
    using step_sent [OF T that] .
qed

lemma dom_override: "m n = Some s \<Longrightarrow> dom (m(n \<mapsto> s')) = dom m"
  by auto

lemma matching_inv_reachable:
  assumes "timely_reachable E c" "serde_ok E" "finite (dom (members c))" "card (dom (members c)) \<le> 3"
  shows "matching_inv c"
  using assms
proof (induction rule: timely_reachable.induct)
  case (start c)
  then show ?case by (intro matching_inv_initial)
next
  case (event c n s ev)
  have d: "dom (members (act E n ev s c)) = dom (members c)"
    unfolding act_members using event(2) by (rule dom_override [of "members c" n s])
  from event(5-) have "matching_inv c" unfolding d by blast
  with event d have "timely_event E c n s ev" by (simp add: timely_event_def)
  then show ?case by (rule matching_inv_event)
next
  case (time_passes c n s now)
  have d: "dom (members (c\<lparr>members := (members c)(n \<mapsto> s\<lparr>clock := now\<rparr>)\<rparr>)) = dom (members c)"
    using dom_override [of "members c" n s, OF time_passes(2)] by simp
  from time_passes(3-) have "matching_inv c" unfolding d by blast
  then show ?case
    by (rule matching_inv_quiet) (use time_passes(2) in \<open>auto simp: cluster_facts_def split: if_splits\<close>)
next
  case (crash_restart c n s now s')
  have d: "dom (members (c\<lparr>members := (members c)(n \<mapsto> s')\<rparr>)) = dom (members c)"
    using dom_override [of "members c" n s, OF crash_restart(2)] by simp
  from crash_restart(4-) have I: "matching_inv c" unfolding d by blast
  have "synced E (log s)"
    using inv_reachable [OF timely_is_reachable [OF crash_restart(1)] assms(2)] crash_restart(2)
    by (auto simp: cluster_inv_def member_ok_def)
  from new_node_synced(6) [OF assms(2) this crash_restart(3)]
  have e: "entries (log s') = entries (log s)" .
  have r: "role s' = Follower" using crash_restart(3) by (auto simp: new_node_def split: prod.splits res.splits)
  show ?case
    by (rule matching_inv_quiet [OF I])
      (use crash_restart(2) e r in \<open>auto simp: cluster_facts_def split: if_splits\<close>)
qed

text \<open>Facts that determine each other below make equal prefixes.\<close>

lemma facts_match:
  assumes wf: "log_wf l" "log_wf l'"
    and one: "\<And>i t x p x' p'. (i, t, x, p) \<in> log_facts (entries l) \<Longrightarrow>
      (i, t, x', p') \<in> log_facts (entries l') \<Longrightarrow> x' = x \<and> p' = p"
  shows "log_matching (entries l) (entries l')"
proof -
  have "entries l j = entries l' j"
    if "entries l i = Some e" "entries l' i = Some e'" "entry_term e = entry_term e'" "j \<le> i" for i e e' j
    using that
  proof (induction "unat i" arbitrary: i e e')
    case 0
    then show ?case using log_wf_None [OF wf(1), of i] by (simp add: unsigned_eq_0_iff)
  next
    case (Suc n)
    have f: "command e' = command e" "term_before (entries l') i = term_before (entries l) i"
      using one [of i "entry_term e" "command e" _ "command e'"] log_factsI [of "entries l" i e] log_factsI [of "entries l'" i e']
        Suc.prems(1-3) by auto
    have "e = e'"
      using f(1) Suc.prems(1-3) log_wf_index [OF wf(1), of i e] log_wf_index [OF wf(2), of i e'] by simp
    show ?case
    proof (cases "j = i")
      case True
      with \<open>e = e'\<close> Suc.prems(1,2) show ?thesis by simp
    next
      case False
      have i: "0 < i" using Suc.hyps(2) by (simp add: word_gt_0) (metis unsigned_0 nat.distinct(1))
      with False Suc.prems(4) have j: "j \<le> i - 1" "unat (i - 1) = n"
        using Suc.hyps(2) by (auto simp: word_le_nat_alt unat_minus_one word_gt_0 word_unat_eq_iff)
      show ?thesis
      proof (cases "i - 1 = 0")
        case True
        with j(1) show ?thesis using log_wf_None [OF wf(1), of j] log_wf_None [OF wf(2), of j] by simp
      next
        case nz: False
        have "i - 1 \<le> last_index l" "i - 1 \<le> last_index l'"
          using log_wf_le [OF wf(1) Suc.prems(1)] log_wf_le [OF wf(2) Suc.prems(2)]
          by (auto simp: word_le_nat_alt unat_minus_one word_gt_0)
        then obtain a b where ab: "entries l (i - 1) = Some a" "entries l' (i - 1) = Some b"
          using log_wf_entry [OF wf(1), of "i - 1"] log_wf_entry [OF wf(2), of "i - 1"] nz by (auto simp: word_gt_0)
        with f(2) have "entry_term a = entry_term b" by (simp add: term_before_def)
        from Suc.hyps(1) [OF j(2) [symmetric] ab this j(1)] show ?thesis .
      qed
    qed
  qed
  then show ?thesis unfolding log_matching_def by blast
qed

text \<open>
  C3: Log Matching across the cluster.  Under the conditions of \<open>one_leader_per_term\<close> (at most three nodes,
  each with a configured peer and never left without peers, messages from other nodes, granted votes
  delivered in the term they were given in), if two nodes' logs have an entry with the same index and
  term, the logs are identical up to that index, over any delays, losses, repetitions, reorderings and
  crashes.  \<open>timely_write_lost\<close> shows that commits are not safe even so.
\<close>

theorem logs_match:
  assumes "serde_ok E" "timely_reachable E c" "finite (dom (members c))" "card (dom (members c)) \<le> 3"
    and "members c n = Some s" "members c m = Some s'"
  shows "log_matching (entries (log s)) (entries (log s'))"
proof -
  note I = matching_inv_reachable [OF assms(2,1,3,4)]
  have "log_wf (log s)" "log_wf (log s')"
    using inv_reachable [OF timely_is_reachable [OF assms(2)] assms(1)] assms(5,6)
    by (auto simp: cluster_inv_def member_ok_def intro: synced_log_wf)
  moreover have "log_facts (entries (log s)) \<subseteq> cluster_facts c" "log_facts (entries (log s')) \<subseteq> cluster_facts c"
    using assms(5,6) by (auto simp: cluster_facts_def)
  ultimately show ?thesis using matching_invD(4) [OF I] by (intro facts_match) blast+
qed

definition copied_run :: "move list" where
  "copied_run =
     [Clock ''a'' 1000, Happens ''a'' (ElectionTimer 150),
      Happens ''c'' (Deliver (vote_req ''a'' ''c'' 1 0 0)),
      Happens ''a'' (Deliver (vote_ack ''c'' ''a'' 1)),
      Happens ''a'' (ClientPropose (Put ''k'' [1]) 9),
      Happens ''a'' (ClientPropose (Delete ''k'') 10),
      Happens ''c'' (Deliver (beat ''a'' ''c'' 1 0 0
        [\<lparr>index = 1, entry_term = 1, command = Put ''k'' [1]\<rparr>, \<lparr>index = 2, entry_term = 1, command = Delete ''k''\<rparr>]))]"

lemma upt_one_two: "[Suc 0..<2] = [Suc 0]"
  by (simp add: upt_rec)

lemma copied_end:
  "ends_in (fold (timely_move serde_ref) copied_run trio) (\<lambda>c.
   map_option (\<lambda>s. entries (log s) 2) (members c ''a'') =
     Some (Some \<lparr>index = 2, entry_term = 1, command = Delete ''k''\<rparr>) \<and>
   map_option (\<lambda>s. map_option entry_term (entries (log s) 2)) (members c ''c'') = Some (Some 1) \<and>
   dom (members c) = {''a'', ''b'', ''c''})"
  by (simp add: copied_run_def trio_def timely_move_def timely_def upt_one_two run_defs msg_defs cong: ends_in_cong)
    (auto simp: ends_in_def log_defs msg_defs entry_ok_def sat_sub_eval max_eval insert_entry_def split: if_splits)

lemma lost_write_timely_end:
  "ends_in (fold (timely_move serde_ref) lost_write_run trio) (\<lambda>c.
   map_option (\<lambda>s. (commit_index s, replies s, entries (log s) 1)) (members c ''a'') =
     Some (1, [(9, Success 1)], Some \<lparr>index = 1, entry_term = 2, command = Put ''k'' [2]\<rparr>) \<and>
   map_option (\<lambda>s. entries (log s) 1) (members c ''b'') =
     Some (Some \<lparr>index = 1, entry_term = 1, command = Put ''k'' [1]\<rparr>) \<and>
   map_option (\<lambda>s. entries (log s) 1) (members c ''c'') = Some None)"
  by (simp add: lost_write_run_def trio_def timely_move_def timely_def run_defs msg_defs cong: ends_in_cong)
    (simp add: ends_in_def log_defs msg_defs entry_ok_def sat_sub_eval max_eval insert_entry_def)

lemma logs_match_witness:
  "\<exists>c sa sc. timely_reachable serde_ref c \<and> members c ''a'' = Some sa \<and> members c ''c'' = Some sc \<and>
     entries (log sc) 2 = Some \<lparr>index = 2, entry_term = 1, command = Delete ''k''\<rparr> \<and>
     entries (log sa) 1 = entries (log sc) 1"
proof -
  define c where "c = fold (timely_move serde_ref) copied_run trio"
  have r: "timely_reachable serde_ref c" unfolding c_def by (rule timely_moves [OF trio_timely])
  note e = copied_end [unfolded ends_in_def, folded c_def]
  then obtain sa sc z where s: "members c ''a'' = Some sa" "members c ''c'' = Some sc"
    "entries (log sa) 2 = Some \<lparr>index = 2, entry_term = 1, command = Delete ''k''\<rparr>"
    "entries (log sc) 2 = Some z" "entry_term z = 1"
    by (elim conjE) (auto simp: map_option_eq_Some)
  have "finite (dom (members c))" "card (dom (members c)) \<le> 3" using e by simp_all
  from logs_match [OF serde_ref_ok r this s(1,2)]
  have m: "log_matching (entries (log sa)) (entries (log sc))" .
  have "entries (log sa) j = entries (log sc) j" if "j \<le> 2" for j
    using log_matchingD [OF m s(3,4) _ that] s(5) by simp
  from this [of 1] this [of 2] have "entries (log sa) 1 = entries (log sc) 1"
    "entries (log sc) 2 = Some \<lparr>index = 2, entry_term = 1, command = Delete ''k''\<rparr>"
    using s(3) by (simp_all add: word_le_nat_alt)
  with r s(1,2) show ?thesis by blast
qed

text \<open>
  The run of \<open>acknowledged_write_on_one_node\<close> is timely: matching logs and one leader per term do not
  protect an acknowledged write, because the leader counts the length of the follower's log.
\<close>

lemma timely_write_lost:
  "\<exists>c sa sb sc e. timely_reachable serde_ref c \<and> members c ''a'' = Some sa \<and> members c ''b'' = Some sb \<and>
     members c ''c'' = Some sc \<and> entries (log sa) 1 = Some e \<and> commit_index sa = 1 \<and>
     (9, Success 1) \<in> set (replies sa) \<and> entries (log sb) 1 \<noteq> Some e \<and> entries (log sc) 1 = None"
proof -
  define c where "c = fold (timely_move serde_ref) lost_write_run trio"
  have r: "timely_reachable serde_ref c" unfolding c_def by (rule timely_moves [OF trio_timely])
  note e = lost_write_timely_end [unfolded ends_in_def, folded c_def]
  then obtain sa sb sc where "members c ''a'' = Some sa" "members c ''b'' = Some sb" "members c ''c'' = Some sc"
    by (elim conjE) (auto simp: map_option_eq_Some)
  with r e show ?thesis
    by (intro exI [of _ c] exI [of _ sa] exI [of _ sb] exI [of _ sc]
        exI [of _ "\<lparr>index = 1, entry_term = 2, command = Put ''k'' [2]\<rparr>"]) simp
qed

end
