(* ===== verification/Network.thy ===== *)
theory Network
  imports Node Reference_Codec
begin

unbundle bit_operations_syntax

declare monad [simp]

text \<open>
  The network manager of \<open>raft/src/network.rs\<close>: length-prefixed frames, the loop that takes them out
  of a TCP byte stream as it arrives, and the cache of outgoing connections.  The JSON form of an
  envelope is a parameter (\<open>wire\<close>); so is what the TCP stack answers: which addresses can be dialled
  and which streams are broken are part of the state.  A spurious end of a read is an empty chunk.
\<close>

section \<open>Frames\<close>

record wire =
  envelope_to_json :: "message_envelope \<Rightarrow> u8 list option"
  envelope_from_json :: "u8 list \<Rightarrow> message_envelope option"

text \<open>What \<open>serde_json\<close> documents: a value that serialises is read back.\<close>

definition wire_ok :: "wire \<Rightarrow> bool" where
  "wire_ok W \<longleftrightarrow> (\<forall>env p. envelope_to_json W env = Some p \<longrightarrow> envelope_from_json W p = Some env)"

definition MAX_MESSAGE_SIZE :: nat where
  "MAX_MESSAGE_SIZE = 1024 * 1024"

definition to_be_bytes :: "u32 \<Rightarrow> u8 list" where
  "to_be_bytes w = [ucast (drop_bit 24 w), ucast (drop_bit 16 w), ucast (drop_bit 8 w), ucast w]"

definition from_be_bytes :: "u8 \<Rightarrow> u8 \<Rightarrow> u8 \<Rightarrow> u8 \<Rightarrow> u32" where
  "from_be_bytes a b c d =
     push_bit 24 (ucast a) OR push_bit 16 (ucast b) OR push_bit 8 (ucast c) OR ucast d"

text \<open>The length a buffer of at least four bytes starts with.\<close>

definition frame_length :: "u8 list \<Rightarrow> nat" where
  "frame_length buf = unat (from_be_bytes (buf ! 0) (buf ! 1) (buf ! 2) (buf ! 3))"

definition frame :: "u8 list \<Rightarrow> u8 list" where
  "frame payload = to_be_bytes (word_of_nat (length payload)) @ payload"

definition encode_message :: "wire \<Rightarrow> message_envelope \<Rightarrow> u8 list option" where
  "encode_message W env = map_option frame (envelope_to_json W env)"

datatype decode_error = TooShort | Incomplete | BadJson

definition decode_message :: "wire \<Rightarrow> u8 list \<Rightarrow> decode_error + message_envelope" where
  "decode_message W buf =
     (if length buf < 4 then Inl TooShort
      else let len = frame_length buf in
        if length buf < 4 + len then Inl Incomplete
        else case envelope_from_json W (take len (drop 4 buf)) of
            None \<Rightarrow> Inl BadJson
          | Some env \<Rightarrow> Inr env)"

lemma from_to_be_bytes:
  "from_be_bytes (ucast (drop_bit 24 w)) (ucast (drop_bit 16 w)) (ucast (drop_bit 8 w)) (ucast w) = w"
proof (rule bit_word_eqI)
  fix n assume "n < LENGTH(32)"
  then have "n < 8 \<or> (8 \<le> n \<and> n < 16) \<or> (16 \<le> n \<and> n < 24) \<or> (24 \<le> n \<and> n < 32)" by auto
  then show "bit (from_be_bytes (ucast (drop_bit 24 w)) (ucast (drop_bit 16 w)) (ucast (drop_bit 8 w)) (ucast w)) n
      \<longleftrightarrow> bit w n"
    by (elim disjE conjE) (auto simp: from_be_bytes_def bit_simps)
qed

lemma length_to_be_bytes [simp]: "length (to_be_bytes w) = 4"
  by (simp add: to_be_bytes_def)

lemma length_frame [simp]: "length (frame p) = 4 + length p"
  by (simp add: frame_def)

lemma frame_length_append: "frame_length (to_be_bytes w @ rest) = unat w"
  by (simp add: frame_length_def to_be_bytes_def from_to_be_bytes)

lemma frame_length_frame: "length p < 2 ^ 32 \<Longrightarrow> frame_length (frame p @ rest) = length p"
  by (simp add: frame_def frame_length_append unat_of_nat)

lemma frame_payload: "take (length p) (drop 4 (frame p @ rest)) = p"
  by (simp add: frame_def to_be_bytes_def)

lemma frame_length_prefix:
  assumes "4 \<le> length buf"
  shows "frame_length (buf @ rest) = frame_length buf"
proof -
  have "i < 4 \<Longrightarrow> (buf @ rest) ! i = buf ! i" for i
    using assms by (simp add: nth_append)
  then show ?thesis by (simp add: frame_length_def)
qed

text \<open>A codec for a given list of messages, by their position: an instance for concrete runs.\<close>

definition wire_of :: "message_envelope list \<Rightarrow> wire" where
  "wire_of envs =
     \<lparr>envelope_to_json = (\<lambda>env. if env \<in> set envs
        then Some [word_of_nat (length (takeWhile (\<lambda>e. e \<noteq> env) envs))] else None),
      envelope_from_json = (\<lambda>p. case p of [b] \<Rightarrow> if unat b < length envs then Some (envs ! unat b) else None
        | _ \<Rightarrow> None)\<rparr>"

lemma wire_of_ok: "length envs \<le> 256 \<Longrightarrow> wire_ok (wire_of envs)"
proof -
  assume n: "length envs \<le> 256"
  have "envelope_from_json (wire_of envs) p = Some env" if "envelope_to_json (wire_of envs) env = Some p" for env p
  proof -
    from that have e: "env \<in> set envs" "p = [word_of_nat (length (takeWhile (\<lambda>e. e \<noteq> env) envs))]"
      by (auto simp: wire_of_def split: if_splits)
    note k = takeWhile_position [OF e(1)]
    have "unat (word_of_nat (length (takeWhile (\<lambda>e. e \<noteq> env) envs)) :: u8) =
        length (takeWhile (\<lambda>e. e \<noteq> env) envs)"
      using k(1) n by (simp add: unat_of_nat)
    with e(2) k show ?thesis by (simp add: wire_of_def)
  qed
  then show ?thesis by (simp add: wire_ok_def)
qed

definition hello :: message_envelope where
  "hello = \<lparr>env_from = ''a'', env_to = ''b'', message = RequestVote
     \<lparr>rv_term = 1, candidate_id = ''a'', rv_last_log_index = 0, rv_last_log_term = 0\<rparr>\<rparr>"

definition sample_wire :: wire where "sample_wire = wire_of [hello]"

lemma sample_wire_ok: "wire_ok sample_wire"
  by (simp add: sample_wire_def wire_of_ok)

lemma sample_wire_hello: "envelope_to_json sample_wire hello = Some [0]"
  by (simp add: sample_wire_def wire_of_def)

text \<open>
  Decoding an encoded message gives the message back, and any bytes that follow it are ignored,
  as long as its JSON form is shorter than 4 GiB.
\<close>
theorem decode_encode_message:
  assumes "wire_ok W" "envelope_to_json W env = Some p" "length p < 2 ^ 32"
  shows "\<exists>buf. encode_message W env = Some buf \<and> decode_message W (buf @ rest) = Inr env"
proof -
  have "envelope_from_json W p = Some env" using assms by (simp add: wire_ok_def)
  with assms show ?thesis
    by (simp add: encode_message_def decode_message_def frame_length_frame frame_payload del: drop_append)
qed

lemma decode_encode_message_witness:
  "\<exists>buf. encode_message sample_wire hello = Some buf \<and> decode_message sample_wire (buf @ [7]) = Inr hello"
  by (rule decode_encode_message [OF sample_wire_ok sample_wire_hello]) simp

section \<open>Receiving\<close>

text \<open>
  The receive loop of one connection.  \<open>receive\<close> is what the loop does with a payload: what does not
  parse and what the handler answers with an error is logged and forgotten; only a handler that hangs
  stops the task.  \<open>process_frames\<close> is the inner \<open>while\<close>: \<open>None\<close> is the early \<open>return Ok(())\<close> on an
  oversized frame, \<open>Some buf\<close> the buffer that waits for more data.
\<close>

definition logged :: "unit node_op \<Rightarrow> unit node_op" where
  "logged m s = (case m s of (Fail e, s') \<Rightarrow> (Ret (), s') | p \<Rightarrow> p)"

definition receive :: "wire \<Rightarrow> 'e serde_scheme \<Rightarrow> u8 list \<Rightarrow> unit node_op" where
  "receive W E payload = (case envelope_from_json W payload of
       None \<Rightarrow> ret ()
     | Some env \<Rightarrow> logged (handle_message E env))"

function process_frames :: "wire \<Rightarrow> 'e serde_scheme \<Rightarrow> u8 list \<Rightarrow> u8 list option node_op" where
  "process_frames W E buf =
     (if length buf < 4 then ret (Some buf)
      else let len = frame_length buf in
        if MAX_MESSAGE_SIZE < len then ret None
        else if length buf < 4 + len then ret (Some buf)
        else let payload = take len (drop 4 buf); rest = drop (4 + len) buf in
          seq (receive W E payload) (process_frames W E rest))"
  by pat_completeness auto
termination
  by (relation "measure (\<lambda>(W, E, buf). length buf)") auto

declare process_frames.simps [simp del]

datatype read_result = Data "u8 list" | ReadError

fun read_loop :: "(u8 list \<Rightarrow> ('s, u8 list option) op) \<Rightarrow> u8 list \<Rightarrow> read_result list \<Rightarrow> ('s, u8 list option) op" where
  "read_loop feed buf [] = ret (Some buf)"
| "read_loop feed buf (ReadError # rs) = fail IoError"
| "read_loop feed buf (Data c # rs) =
     (if c = [] then ret None
      else bind (feed (buf @ c)) (\<lambda>r. case r of
          None \<Rightarrow> ret None
        | Some buf' \<Rightarrow> read_loop feed buf' rs))"

definition handle_connection :: "wire \<Rightarrow> 'e serde_scheme \<Rightarrow> read_result list \<Rightarrow> u8 list option node_op" where
  "handle_connection W E reads = read_loop (process_frames W E) [] reads"

text \<open>
  The law that makes a reader independent of how the stream is cut: feeding a buffer and then more
  bytes is feeding all of them, and an empty buffer is left alone.
\<close>

locale stream_reader =
  fixes feed :: "u8 list \<Rightarrow> ('s, u8 list option) op"
  assumes feed_append: "feed (xs @ ys) = bind (feed xs) (\<lambda>r. case r of None \<Rightarrow> ret None | Some b \<Rightarrow> feed (b @ ys))"
    and feed_Nil: "feed [] = ret (Some [])"
begin

lemma feed_chunks:
  assumes "[] \<notin> set cs"
  shows "bind (feed buf) (\<lambda>r. case r of None \<Rightarrow> ret None | Some b \<Rightarrow> read_loop feed b (map Data cs @ rest)) =
    bind (feed (buf @ concat cs)) (\<lambda>r. case r of None \<Rightarrow> ret None | Some b \<Rightarrow> read_loop feed b rest)"
  using assms
proof (induction cs arbitrary: buf)
  case Nil
  then show ?case by simp
next
  case (Cons c cs)
  let ?k = "\<lambda>r. case r of None \<Rightarrow> ret None | Some b \<Rightarrow> read_loop feed b (map Data cs @ rest)"
  have "bind (feed buf) (\<lambda>r. case r of None \<Rightarrow> ret None
          | Some b \<Rightarrow> read_loop feed b (map Data (c # cs) @ rest)) =
        bind (feed buf) (\<lambda>r. bind (case r of None \<Rightarrow> ret None | Some b \<Rightarrow> feed (b @ c)) ?k)"
    using Cons.prems by (intro arg_cong [where f = "bind (feed buf)"] ext) (auto split: option.splits)
  also have "\<dots> = bind (feed (buf @ c)) ?k"
    by (simp add: feed_append [of buf] bind_assoc)
  also have "\<dots> = bind (feed ((buf @ c) @ concat cs)) (\<lambda>r. case r of None \<Rightarrow> ret None | Some b \<Rightarrow> read_loop feed b rest)"
    using Cons.prems by (intro Cons.IH) simp
  finally show ?case by simp
qed

lemma read_chunks:
  assumes "[] \<notin> set cs"
  shows "read_loop feed [] (map Data cs @ rest) =
    bind (feed (concat cs)) (\<lambda>r. case r of None \<Rightarrow> ret None | Some b \<Rightarrow> read_loop feed b rest)"
  using feed_chunks [OF assms, of "[]" rest] by (simp add: feed_Nil)

end

lemma process_frames_short [simp]: "length buf < 4 \<Longrightarrow> process_frames W E buf = ret (Some buf)"
  by (simp add: process_frames.simps)

lemma process_frames_append:
  "process_frames W E (xs @ ys) =
     bind (process_frames W E xs) (\<lambda>r. case r of None \<Rightarrow> ret None | Some b \<Rightarrow> process_frames W E (b @ ys))"
proof (induction W E xs rule: process_frames.induct)
  case (1 W E buf)
  show ?case
  proof (cases "length buf < 4 \<or> \<not> MAX_MESSAGE_SIZE < frame_length buf \<and> length buf < 4 + frame_length buf")
    case True
    then have "process_frames W E buf = ret (Some buf)" by (auto simp: process_frames.simps [of W E buf])
    then show ?thesis by simp
  next
    case False
    then have four: "4 \<le> length buf" by simp
    show ?thesis
    proof (cases "MAX_MESSAGE_SIZE < frame_length buf")
      case True
      with four show ?thesis
        by (simp add: process_frames.simps [of W E buf] process_frames.simps [of W E "buf @ ys"]
            frame_length_prefix)
    next
      case small: False
      with False have len: "4 + frame_length buf \<le> length buf" by simp
      then have "take (frame_length buf) (drop 4 (buf @ ys)) = take (frame_length buf) (drop 4 buf)"
        "drop (4 + frame_length buf) (buf @ ys) = drop (4 + frame_length buf) buf @ ys"
        by simp_all
      then show ?thesis
        using four len small 1 [OF _ refl _ _ refl refl]
        by (simp add: process_frames.simps [of W E buf] process_frames.simps [of W E "buf @ ys"]
            frame_length_prefix bind_assoc Let_def)
    qed
  qed
qed

interpretation frames: stream_reader "process_frames W E" for W and E :: "'e serde_scheme"
  by unfold_locales (simp_all add: process_frames_append [symmetric])


text \<open>
  C29: How TCP cuts the byte stream into reads makes no difference: two ways of reading the same bytes
  handle the same messages in the same order and leave the node and the connection the same, whatever
  is read afterwards.
\<close>
theorem reads_do_not_matter:
  assumes "concat cs = concat ds" "[] \<notin> set cs" "[] \<notin> set ds"
  shows "handle_connection W E (map Data cs @ rest) = handle_connection W E (map Data ds @ rest)"
  using assms by (simp add: handle_connection_def frames.read_chunks)

lemma reads_do_not_matter_witness:
  "handle_connection sample_wire serde_ref (map Data [[0], [0, 0, 1, 0]] @ [ReadError]) =
   handle_connection sample_wire serde_ref (map Data [[0, 0, 0], [1], [0]] @ [ReadError])"
  by (rule reads_do_not_matter) simp_all

text \<open>Complete frames at the front of the buffer are handled in order.\<close>

definition payload_ok :: "wire \<Rightarrow> message_envelope \<Rightarrow> bool" where
  "payload_ok W env \<longleftrightarrow> (case envelope_to_json W env of None \<Rightarrow> False | Some p \<Rightarrow> length p \<le> MAX_MESSAGE_SIZE)"

definition bytes_of :: "wire \<Rightarrow> message_envelope list \<Rightarrow> u8 list" where
  "bytes_of W envs = concat (List.map_filter (encode_message W) envs)"

lemma process_frame:
  assumes "length p \<le> MAX_MESSAGE_SIZE"
  shows "process_frames W E (frame p @ rest) = seq (receive W E p) (process_frames W E rest)"
proof -
  have "frame_length (frame p @ rest) = length p"
    using assms by (simp add: frame_length_frame MAX_MESSAGE_SIZE_def)
  moreover have "take (length p) (drop 4 (frame p @ rest)) = p" by (rule frame_payload)
  moreover have "drop (4 + length p) (frame p @ rest) = rest" by (simp add: frame_def)
  ultimately show ?thesis
    using assms by (simp add: process_frames.simps [of W E "frame p @ rest"] Let_def del: drop_append)
qed

lemma process_encoded:
  assumes "wire_ok W" "list_all (payload_ok W) envs"
  shows "process_frames W E (bytes_of W envs @ rest) =
    seq (for_each envs (\<lambda>env. logged (handle_message E env))) (process_frames W E rest)"
  using assms(2)
proof (induction envs)
  case Nil
  then show ?case by (simp add: bytes_of_def map_filter_simps)
next
  case (Cons env envs)
  then obtain p where p: "envelope_to_json W env = Some p" "length p \<le> MAX_MESSAGE_SIZE"
    by (auto simp: payload_ok_def split: option.splits)
  then have "bytes_of W (env # envs) @ rest = frame p @ (bytes_of W envs @ rest)"
    by (simp add: bytes_of_def map_filter_simps encode_message_def)
  moreover have "receive W E p = logged (handle_message E env)"
    using assms(1) p by (simp add: receive_def wire_ok_def)
  ultimately show ?case
    using p Cons by (simp add: process_frame bind_assoc)
qed

text \<open>
  A frame that announces more than one megabyte ends the connection: the messages before it are
  handled, it and everything after it are dropped, however the bytes arrive.
\<close>
theorem oversized_frame_closes:
  assumes "wire_ok W" "list_all (payload_ok W) envs" "MAX_MESSAGE_SIZE < unat n"
    and "concat cs = bytes_of W envs @ to_be_bytes n @ junk" "[] \<notin> set cs"
  shows "handle_connection W E (map Data cs @ rest) =
    seq (for_each envs (\<lambda>env. logged (handle_message E env))) (ret None)"
proof -
  have "process_frames W E (to_be_bytes n @ junk) = ret None"
    using assms(3) by (simp add: process_frames.simps frame_length_append Let_def)
  then show ?thesis
    using assms by (simp add: handle_connection_def frames.read_chunks process_encoded bind_assoc)
qed


lemma oversized_frame_closes_witness:
  "handle_connection sample_wire serde_ref (map Data [[0, 0, 0, 1, 0, 1, 0], [0, 0, 7, 7]] @ []) =
     seq (for_each [hello] (\<lambda>env. logged (handle_message serde_ref env))) (ret None)"
proof (rule oversized_frame_closes [OF sample_wire_ok])
  show "list_all (payload_ok sample_wire) [hello]"
    by (simp add: payload_ok_def sample_wire_hello MAX_MESSAGE_SIZE_def)
  show "MAX_MESSAGE_SIZE < unat (0x1000000 :: u32)" by (simp add: MAX_MESSAGE_SIZE_def)
  show "concat [[0, 0, 0, 1, 0, 1, 0], [0, 0, 7, 7]] =
      bytes_of sample_wire [hello] @ to_be_bytes 0x1000000 @ [7, 7]"
    by (simp add: bytes_of_def map_filter_simps encode_message_def sample_wire_hello frame_def to_be_bytes_def)
qed simp

section \<open>Sending\<close>

text \<open>
  The outgoing side.  A stream is what was written to it and how many more bytes it takes before it
  fails (\<open>room\<close>; \<open>None\<close> while the connection is alive); a connection of the cache is the number of a
  stream.  \<open>listening\<close> are the addresses that accept a connection.
\<close>

record stream =
  remote :: string
  sent :: "u8 list"
  room :: "nat option"

record network =
  connections :: "(string, nat) hmap"
  peer_addresses :: "(string, string) hmap"
  streams :: "stream list"
  listening :: "string list"

type_synonym 'a net_op = "(network, 'a) op"

definition new_network :: "string list \<Rightarrow> network" where
  "new_network up = \<lparr>connections = [], peer_addresses = [], streams = [], listening = up\<rparr>"

definition register_peer :: "string \<Rightarrow> string \<Rightarrow> network \<Rightarrow> network" where
  "register_peer p address n = n\<lparr>peer_addresses := hm_insert p address (peer_addresses n)\<rparr>"

text \<open>\<open>main\<close> registers the peers of the configuration file, once, before the tasks start.\<close>

definition main_network :: "config \<Rightarrow> string list \<Rightarrow> network" where
  "main_network c up = fold (\<lambda>p. register_peer (pc_id p) (pc_address p)) (cfg_peers c) (new_network up)"

definition connect :: "string \<Rightarrow> nat net_op" where
  "connect address n =
     (if address \<in> set (listening n)
      then (Ret (length (streams n)), n\<lparr>streams := streams n @ [\<lparr>remote = address, sent = [], room = None\<rparr>]\<rparr>)
      else (Fail IoError, n))"

definition write_stream :: "u8 list \<Rightarrow> stream \<Rightarrow> unit res \<times> stream" where
  "write_stream bs st = (case room st of
       None \<Rightarrow> (Ret (), st\<lparr>sent := sent st @ bs\<rparr>)
     | Some k \<Rightarrow> (if length bs \<le> k then Ret () else Fail IoError,
                 st\<lparr>sent := sent st @ take k bs, room := Some (k - length bs)\<rparr>))"

definition write_all :: "nat \<Rightarrow> u8 list \<Rightarrow> unit net_op" where
  "write_all i bs n =
     (if i < length (streams n)
      then case write_stream bs (streams n ! i) of (r, st) \<Rightarrow> (r, n\<lparr>streams := (streams n)[i := st]\<rparr>)
      else (Fail IoError, n))"

text \<open>Get or create the connection (\<open>None\<close>: no address, the message is dropped), then send.\<close>

definition connection_to :: "string \<Rightarrow> nat option net_op" where
  "connection_to p =
     bind (gets (\<lambda>n. hm_get (connections n) p)) (\<lambda>c. case c of
       Some i \<Rightarrow> ret (Some i)
     | None \<Rightarrow>
         bind (gets (\<lambda>n. hm_get (peer_addresses n) p)) (\<lambda>a. case a of
           None \<Rightarrow> ret None
         | Some address \<Rightarrow>
             bind (connect address) (\<lambda>i.
             seq (modify (\<lambda>n. n\<lparr>connections := hm_insert p i (connections n)\<rparr>))
             (ret (Some i)))))"

definition send_message :: "wire \<Rightarrow> string \<Rightarrow> message_envelope \<Rightarrow> unit net_op" where
  "send_message W p env =
     bind (connection_to p) (\<lambda>c. case c of
       None \<Rightarrow> ret ()
     | Some i \<Rightarrow>
         bind (from_json (envelope_to_json W env)) (\<lambda>payload.
         write_all i (frame payload)))"

text \<open>
  The loop of \<open>run\<close>: a failed send is logged.  What else happens to the network while it runs is the
  environment's: an address starts or stops listening, a stream fails after some more bytes.
\<close>

datatype net_event =
    Outgoing message_envelope
  | Up string
  | Down string
  | StreamFails nat nat

definition net_step :: "wire \<Rightarrow> net_event \<Rightarrow> network \<Rightarrow> network" where
  "net_step W ev n = (case ev of
       Outgoing env \<Rightarrow> snd (send_message W (env_to env) env n)
     | Up a \<Rightarrow> n\<lparr>listening := a # listening n\<rparr>
     | Down a \<Rightarrow> n\<lparr>listening := filter (\<lambda>b. b \<noteq> a) (listening n)\<rparr>
     | StreamFails i k \<Rightarrow> if i < length (streams n)
         then n\<lparr>streams := (streams n)[i := (streams n ! i)\<lparr>room := Some (case room (streams n ! i) of None \<Rightarrow> k | Some j \<Rightarrow> min j k)\<rparr>]\<rparr> else n)"

definition run_network :: "wire \<Rightarrow> net_event list \<Rightarrow> network \<Rightarrow> network" where
  "run_network W evs n = fold (net_step W) evs n"


lemmas send_simps = send_message_def connection_to_def connect_def run_simps

lemma send_connected:
  assumes "hm_get (connections n) p = Some i" "envelope_to_json W env = Some pl"
  shows "send_message W p env n = write_all i (frame pl) n"
  using assms by (simp add: send_simps)

lemma send_new:
  assumes "hm_get (connections n) p = None" "hm_get (peer_addresses n) p = Some a" "a \<in> set (listening n)"
    and "envelope_to_json W env = Some pl"
  shows "send_message W p env n =
    write_all (length (streams n)) (frame pl)
      (n\<lparr>streams := streams n @ [\<lparr>remote = a, sent = [], room = None\<rparr>],
         connections := hm_insert p (length (streams n)) (connections n)\<rparr>)"
  using assms by (simp add: send_simps)

lemma send_unreachable:
  assumes "hm_get (connections n) p = None" "hm_get (peer_addresses n) p = Some a" "a \<notin> set (listening n)"
  shows "send_message W p env n = (Fail IoError, n)"
  using assms by (simp add: send_simps)

lemma send_unregistered:
  assumes "hm_get (connections n) p = None" "hm_get (peer_addresses n) p = None"
  shows "send_message W p env n = (Ret (), n)"
  using assms by (simp add: send_simps)

lemma write_all_simps [simp]:
  "connections (snd (write_all i bs n)) = connections n"
  "peer_addresses (snd (write_all i bs n)) = peer_addresses n"
  "listening (snd (write_all i bs n)) = listening n"
  "length (streams (snd (write_all i bs n))) = length (streams n)"
  by (auto simp: write_all_def split: prod.splits)

lemma write_all_alive:
  assumes "i < length (streams n)" "room (streams n ! i) = None"
  shows "write_all i bs n =
    (Ret (), n\<lparr>streams := (streams n)[i := (streams n ! i)\<lparr>sent := sent (streams n ! i) @ bs\<rparr>]\<rparr>)"
  using assms by (simp add: write_all_def write_stream_def)

lemma write_stream_dead:
  "room st = Some 0 \<Longrightarrow> write_stream bs st = (if bs = [] then Ret () else Fail IoError, st)"
  by (simp add: write_stream_def)

lemma write_all_dead:
  assumes "i < length (streams n)" "room (streams n ! i) = Some 0" "bs \<noteq> []"
  shows "write_all i bs n = (Fail IoError, n)"
  using assms by (simp add: write_all_def write_stream_dead)

lemma write_all_other:
  assumes "room (streams n ! i) = Some 0"
  shows "streams (snd (write_all j bs n)) ! i = streams n ! i"
  using assms
  by (cases "i = j") (auto simp: write_all_def write_stream_dead split: prod.splits)

definition dead_link :: "string \<Rightarrow> nat \<Rightarrow> stream \<Rightarrow> network \<Rightarrow> bool" where
  "dead_link p i st n \<longleftrightarrow> hm_get (connections n) p = Some i \<and> i < length (streams n) \<and>
     streams n ! i = st \<and> room st = Some 0"

lemma dead_link_send:
  assumes "dead_link p i st n"
  shows "dead_link p i st (snd (send_message W q env n))"
proof (cases "hm_get (connections n) q")
  case None
  with assms have "q \<noteq> p" by (auto simp: dead_link_def)
  with None assms show ?thesis
    by (auto simp: dead_link_def send_simps hm_simps nth_append write_all_other split: option.splits)
next
  case (Some j)
  with assms show ?thesis
    by (auto simp: dead_link_def send_simps write_all_other split: option.splits)
qed

lemma dead_link_step: "dead_link p i st n \<Longrightarrow> dead_link p i st (net_step W ev n)"
  by (cases ev) (auto simp: dead_link_send net_step_def nth_list_update dead_link_def[of _ _ _ "_\<lparr>listening := _\<rparr>"]
      dead_link_def[of _ _ _ "_\<lparr>streams := _\<rparr>"] dead_link_def[of _ _ _ n])

lemma dead_link_run: "dead_link p i st n \<Longrightarrow> dead_link p i st (run_network W evs n)"
  by (induction evs arbitrary: n) (simp_all add: run_network_def dead_link_step)

text \<open>
  A connection that has failed is never replaced: whatever else happens, and even if the peer
  listens again, every later message to it fails and reaches no stream.
\<close>
theorem dead_connection_stays:
  assumes "hm_get (connections n) p = Some i" "i < length (streams n)" "room (streams n ! i) = Some 0"
    and "n' = run_network W evs n"
  shows "hm_get (connections n') p = Some i \<and> streams n' ! i = streams n ! i \<and>
    fst (send_message W p env n') \<noteq> Ret () \<and> snd (send_message W p env n') = n'"
proof -
  have "dead_link p i (streams n ! i) n'"
    using assms by (simp add: dead_link_run dead_link_def [of _ _ _ n])
  moreover from this have "frame pl \<noteq> [] \<Longrightarrow> write_all i (frame pl) n' = (Fail IoError, n')" for pl
    by (simp add: dead_link_def write_all_dead)
  moreover have "frame pl \<noteq> []" for pl by (simp add: frame_def to_be_bytes_def)
  ultimately show ?thesis
    by (auto simp: dead_link_def send_simps split: option.splits)
qed

lemma dead_connection_stays_witness:
  "\<exists>n n'. n' = run_network sample_wire [Up ''h:1'', Outgoing hello] n \<and>
     (hm_get (connections n') ''b'' = Some 0 \<and> streams n' ! 0 = streams n ! 0 \<and>
      fst (send_message sample_wire ''b'' hello n') \<noteq> Ret () \<and> snd (send_message sample_wire ''b'' hello n') = n')"
proof (intro exI conjI)
  let ?n = "\<lparr>connections = [(''b'', 0)], peer_addresses = [(''b'', ''h:1'')],
     streams = [\<lparr>remote = ''h:1'', sent = [], room = Some 0\<rparr>], listening = []\<rparr>"
  let ?m = "run_network sample_wire [Up ''h:1'', Outgoing hello] ?n"
  have n: "hm_get (connections ?n) ''b'' = Some 0" "0 < length (streams ?n)" "room (streams ?n ! 0) = Some 0"
    by (simp_all add: hm_get_def)
  show "?m = ?m" ..
  show "hm_get (connections ?m) ''b'' = Some 0" "streams ?m ! 0 = streams ?n ! 0"
    "fst (send_message sample_wire ''b'' hello ?m) \<noteq> Ret ()" "snd (send_message sample_wire ''b'' hello ?m) = ?m"
    using dead_connection_stays [OF n refl, of sample_wire "[Up ''h:1'', Outgoing hello]" hello] by blast+
qed

lemma peer_addresses_send [simp]:
  "peer_addresses (snd (send_message W p env n)) = peer_addresses n"
  by (auto simp: send_simps split: option.splits)

lemma peer_addresses_step [simp]: "peer_addresses (net_step W ev n) = peer_addresses n"
  by (simp add: net_step_def split: net_event.splits)

lemma connections_step_unregistered:
  assumes "hm_get (connections n) p = None" "hm_get (peer_addresses n) p = None"
  shows "hm_get (connections (net_step W ev n)) p = None"
  using assms by (auto simp: net_step_def send_simps hm_simps split: net_event.splits option.splits)

lemma connections_run_unregistered:
  assumes "hm_get (connections n) p = None" "hm_get (peer_addresses n) p = None"
  shows "hm_get (connections (run_network W evs n)) p = None \<and> peer_addresses (run_network W evs n) = peer_addresses n"
  using assms
  by (induction evs arbitrary: n) (simp_all add: run_network_def connections_step_unregistered)

lemma main_network_simps [simp]:
  "connections (main_network c up) = []" "streams (main_network c up) = []" "listening (main_network c up) = up"
proof -
  have regs: "connections (fold (\<lambda>p. register_peer (pc_id p) (pc_address p)) ps n) = connections n \<and>
      streams (fold (\<lambda>p. register_peer (pc_id p) (pc_address p)) ps n) = streams n \<and>
      listening (fold (\<lambda>p. register_peer (pc_id p) (pc_address p)) ps n) = listening n" for ps n
    by (induction ps arbitrary: n) (simp_all add: register_peer_def)
  show "connections (main_network c up) = []" "streams (main_network c up) = []"
    "listening (main_network c up) = up"
    by (simp_all add: main_network_def regs) (simp_all add: new_network_def)
qed

lemma peer_addresses_main:
  "hm_get (peer_addresses (main_network c up)) p = None \<longleftrightarrow> p \<notin> pc_id ` set (cfg_peers c)"
proof -
  have regs: "hm_get (peer_addresses (fold (\<lambda>p. register_peer (pc_id p) (pc_address p)) ps n)) p = None \<longleftrightarrow>
      hm_get (peer_addresses n) p = None \<and> p \<notin> pc_id ` set ps" for ps n
    by (induction ps arbitrary: n) (auto simp: register_peer_def hm_simps)
  show ?thesis by (simp add: main_network_def regs) (simp add: new_network_def)
qed

text \<open>
  A peer that was not in the configuration file when the daemon started has no address: every
  message for it, the heartbeats of a leader it has joined included, is dropped and reported as sent.
\<close>
theorem joined_peer_never_reached:
  assumes "p \<notin> pc_id ` set (cfg_peers c)" "n = run_network W evs (main_network c up)"
  shows "hm_get (connections n) p = None \<and> send_message W p env n = (Ret (), n)"
proof -
  have "hm_get (peer_addresses (main_network c up)) p = None"
    using assms(1) by (simp add: peer_addresses_main)
  then show ?thesis
    using connections_run_unregistered [of "main_network c up" p W evs] assms(2)
    by (simp add: send_unregistered)
qed


lemma joined_peer_never_reached_witness:
  "hm_get (connections (run_network sample_wire [Outgoing hello, Up ''h:1'', Outgoing hello]
       (main_network (default_for_testing ''a'' 5555) [''h:1'']))) ''b'' = None \<and>
   send_message sample_wire ''b'' hello (run_network sample_wire [Outgoing hello, Up ''h:1'', Outgoing hello]
       (main_network (default_for_testing ''a'' 5555) [''h:1''])) =
     (Ret (), run_network sample_wire [Outgoing hello, Up ''h:1'', Outgoing hello]
       (main_network (default_for_testing ''a'' 5555) [''h:1'']))"
  by (rule joined_peer_never_reached [OF _ refl]) (simp add: default_for_testing_def)

section \<open>From one node to another\<close>

definition sent_to :: "string \<Rightarrow> message_envelope list \<Rightarrow> message_envelope list" where
  "sent_to p envs = filter (\<lambda>env. env_to env = p) envs"

text \<open>
  What holds while no stream fails and no address changes: each connection has a stream of its own,
  which holds exactly the messages for that peer; a peer without a connection got none unless it
  could not be reached.
\<close>

definition links :: "wire \<Rightarrow> message_envelope list \<Rightarrow> network \<Rightarrow> bool" where
  "links W done n \<longleftrightarrow>
     (\<forall>p i. hm_get (connections n) p = Some i \<longrightarrow> i < length (streams n) \<and>
        room (streams n ! i) = None \<and> sent (streams n ! i) = bytes_of W (sent_to p done) \<and>
        hm_get (peer_addresses n) p = Some (remote (streams n ! i))) \<and>
     (\<forall>p q i. hm_get (connections n) p = Some i \<longrightarrow> hm_get (connections n) q = Some i \<longrightarrow> p = q) \<and>
     (\<forall>p a. hm_get (connections n) p = None \<longrightarrow> hm_get (peer_addresses n) p = Some a \<longrightarrow>
        a \<in> set (listening n) \<longrightarrow> sent_to p done = [])"

lemma bytes_of_snoc:
  "envelope_to_json W env = Some pl \<Longrightarrow> bytes_of W (envs @ [env]) = bytes_of W envs @ frame pl"
  by (simp add: bytes_of_def map_filter_def encode_message_def)

lemma sent_to_snoc [simp]:
  "sent_to p (envs @ [env]) = (if env_to env = p then sent_to p envs @ [env] else sent_to p envs)"
  by (simp add: sent_to_def)

lemma links_send:
  assumes l: "links W done n" and pl: "envelope_to_json W env = Some pl"
  shows "links W (done @ [env]) (snd (send_message W (env_to env) env n))"
proof (cases "hm_get (connections n) (env_to env)")
  case (Some i)
  with l have i: "i < length (streams n)" "room (streams n ! i) = None" by (auto simp: links_def)
  have "snd (send_message W (env_to env) env n) =
      n\<lparr>streams := (streams n)[i := (streams n ! i)\<lparr>sent := sent (streams n ! i) @ frame pl\<rparr>]\<rparr>"
    using Some pl i by (simp add: send_connected write_all_alive)
  with l Some pl i show ?thesis
    unfolding links_def by (auto simp: nth_list_update bytes_of_snoc)
next
  case None
  show ?thesis
  proof (cases "hm_get (peer_addresses n) (env_to env)")
    case no: None
    with None have "snd (send_message W (env_to env) env n) = n" by (simp add: send_unregistered)
    with l None no show ?thesis unfolding links_def by auto
  next
    case (Some a)
    show ?thesis
    proof (cases "a \<in> set (listening n)")
      case False
      with None Some have "snd (send_message W (env_to env) env n) = n" by (simp add: send_unreachable)
      with l None Some False show ?thesis unfolding links_def by auto
    next
      case True
      with l None Some have "sent_to (env_to env) done = []" by (simp add: links_def)
      moreover have "snd (send_message W (env_to env) env n) =
          n\<lparr>streams := streams n @ [\<lparr>remote = a, sent = frame pl, room = None\<rparr>],
            connections := hm_insert (env_to env) (length (streams n)) (connections n)\<rparr>"
        using None Some True pl by (simp add: send_new write_all_alive)
      moreover have "bytes_of W [env] = frame pl"
        using bytes_of_snoc [OF pl, of "[]"] by (simp add: bytes_of_def map_filter_simps)
      ultimately show ?thesis
        using l None Some unfolding links_def
        by (fastforce simp: hm_simps nth_append split: if_splits)
    qed
  qed
qed

lemma links_run:
  assumes "links W done n" "list_all (payload_ok W) envs"
  shows "links W (done @ envs) (run_network W (map Outgoing envs) n)"
  using assms
proof (induction envs arbitrary: "done" n)
  case Nil
  then show ?case by (simp add: run_network_def)
next
  case (Cons env envs)
  then have "links W (done @ [env]) (net_step W (Outgoing env) n)"
    by (auto simp: net_step_def payload_ok_def intro: links_send split: option.splits)
  with Cons.IH [of "done @ [env]"] Cons.prems show ?case by (simp add: run_network_def)
qed

lemma listening_send [simp]: "listening (snd (send_message W p env n)) = listening n"
  by (auto simp: send_simps split: option.splits)

lemma run_sends_env [simp]:
  "listening (run_network W (map Outgoing envs) n) = listening n \<and>
   peer_addresses (run_network W (map Outgoing envs) n) = peer_addresses n"
  by (induction envs arbitrary: n) (simp_all add: run_network_def net_step_def)

text \<open>
  C28: What the sender's network task writes to a peer, from start-up and over connections that do not
  fail, is one stream to the peer's address, and the peer that reads it, however it is cut, handles
  exactly the messages addressed to it, in the order they were queued.
\<close>
theorem messages_arrive_in_order:
  assumes "wire_ok W" "list_all (payload_ok W) envs"
    and "hm_get (peer_addresses (main_network c up)) p = Some a" "a \<in> set up" "sent_to p envs \<noteq> []"
    and "concat cs = bytes_of W (sent_to p envs)" "[] \<notin> set cs"
    and "n = run_network W (map Outgoing envs) (main_network c up)"
  shows "(\<exists>i. hm_get (connections n) p = Some i \<and> remote (streams n ! i) = a \<and> sent (streams n ! i) = concat cs) \<and>
    handle_connection W E (map Data cs) =
      seq (for_each (sent_to p envs) (\<lambda>env. logged (handle_message E env))) (ret (Some []))"
proof
  have "links W [] (main_network c up)" by (simp add: links_def sent_to_def)
  then have l: "links W envs n" using links_run assms(2,8) by fastforce
  have "hm_get (peer_addresses n) p = Some a" "listening n = up"
    using assms(3,8) by simp_all
  with l assms(4,5) have "hm_get (connections n) p \<noteq> None" unfolding links_def by blast
  then obtain i where "hm_get (connections n) p = Some i" by blast
  with l \<open>hm_get (peer_addresses n) p = Some a\<close> assms(6)
  show "\<exists>i. hm_get (connections n) p = Some i \<and> remote (streams n ! i) = a \<and> sent (streams n ! i) = concat cs"
    unfolding links_def by fastforce
next
  have "list_all (payload_ok W) (sent_to p envs)" using assms(2) by (auto simp: sent_to_def list_all_iff)
  then have "process_frames W E (bytes_of W (sent_to p envs) @ []) =
      seq (for_each (sent_to p envs) (\<lambda>env. logged (handle_message E env))) (process_frames W E [])"
    by (rule process_encoded [OF assms(1)])
  then show "handle_connection W E (map Data cs) =
      seq (for_each (sent_to p envs) (\<lambda>env. logged (handle_message E env))) (ret (Some []))"
    using frames.read_chunks [OF assms(7), of W E "[]"] assms(6)
    by (simp add: handle_connection_def bind_assoc case_option_ret)
qed

lemma messages_arrive_in_order_witness:
  defines "c \<equiv> (default_for_testing ''a'' 5555)\<lparr>cfg_peers := [\<lparr>pc_id = ''b'', pc_address = ''h:1''\<rparr>]\<rparr>"
  defines "n \<equiv> run_network sample_wire (map Outgoing [hello, hello]) (main_network c [''h:1''])"
  shows "(\<exists>i. hm_get (connections n) ''b'' = Some i \<and> remote (streams n ! i) = ''h:1'' \<and>
       sent (streams n ! i) = concat [[0, 0], [0, 1, 0, 0, 0], [0, 1, 0]]) \<and>
     handle_connection sample_wire serde_ref (map Data [[0, 0], [0, 1, 0, 0, 0], [0, 1, 0]]) =
       seq (for_each (sent_to ''b'' [hello, hello]) (\<lambda>env. logged (handle_message serde_ref env))) (ret (Some []))"
proof (rule messages_arrive_in_order [OF sample_wire_ok])
  show "list_all (payload_ok sample_wire) [hello, hello]"
    by (simp add: payload_ok_def sample_wire_hello MAX_MESSAGE_SIZE_def)
  show "hm_get (peer_addresses (main_network c [''h:1''])) ''b'' = Some ''h:1''"
    by (simp add: c_def main_network_def register_peer_def new_network_def hm_simps)
  show "sent_to ''b'' [hello, hello] \<noteq> []" by (simp add: sent_to_def hello_def)
  show "concat [[0, 0], [0, 1, 0, 0, 0], [0, 1, 0]] = bytes_of sample_wire (sent_to ''b'' [hello, hello])"
    by (simp add: sent_to_def bytes_of_def map_filter_simps encode_message_def sample_wire_hello
        frame_def to_be_bytes_def) (simp add: hello_def)
qed (simp_all add: n_def)

end
