(* ===== verification/Daemon.thy ===== *)
theory Daemon
  imports Network Node_Events "HOL-Library.Sublist"
begin

text \<open>
  The daemon of \<open>raft/src/main.rs\<close>: a node, its network manager and its incoming connections, and the
  tasks that \<open>main\<close> starts, one step of each at a time; and a system of daemons that exchange bytes.
  A handler runs in one step.  The reading end of a connection is what it has taken from the stream
  and what waits in its buffer.  TCP is the source's view of it: the reader gets, in pieces of any
  size, a prefix of what was written to a stream that leads to it, also after the writer has gone.
  Which daemon answers at an address that is dialled is a parameter (\<open>route\<close>): a daemon listens on its
  own \<open>listen_addr\<close>, \<open>0.0.0.0:5555\<close> in the repository's files, and is dialled by another name.
\<close>

section \<open>Start\<close>

record inbound =
  taken :: "u8 list"
  buffered :: "u8 list"

record daemon =
  d_node :: node
  d_network :: network
  d_inbound :: "inbound option list"

text \<open>\<open>Path::join\<close>: an absolute path replaces, a relative one is put behind a separator.\<close>

definition path_join :: "string \<Rightarrow> string \<Rightarrow> string" where
  "path_join a b = (case b of
       CHR ''/'' # _ \<Rightarrow> b
     | _ \<Rightarrow> if a = [] \<or> List.last a = CHR ''/'' then a @ b else a @ ''/'' @ b)"

definition node_data_dir :: "config \<Rightarrow> string" where
  "node_data_dir c = path_join (cfg_data_dir (cfg_server c)) (cfg_node_id (cfg_server c))"

definition ipc_socket_path :: "config \<Rightarrow> string" where
  "ipc_socket_path c = ''/tmp/raft-'' @ cfg_node_id (cfg_server c) @ ''.sock''"

text \<open>
  The arguments of \<open>start_daemon\<close>: the data directory, the addresses that listen, the clock.
  \<open>main_daemon\<close> reads the configuration first and finds the directory by its path.
\<close>

definition start_daemon :: "'e serde_scheme \<Rightarrow> config \<Rightarrow> data_dir \<Rightarrow> string list \<Rightarrow> nat \<Rightarrow> err + daemon" where
  "start_daemon E c dir up now = (case new_node E c dir now of
       Inl e \<Rightarrow> Inl e
     | Inr s \<Rightarrow> Inr \<lparr>d_node = s, d_network = main_network c up, d_inbound = []\<rparr>)"

datatype start_error = ConfigFailed | NodeFailed err

definition main_daemon ::
    "'e serde_scheme \<Rightarrow> (string \<Rightarrow> config_doc option) \<Rightarrow> (string \<Rightarrow> string option) \<Rightarrow> (string \<Rightarrow> data_dir) \<Rightarrow>
     string \<Rightarrow> string list \<Rightarrow> nat \<Rightarrow> start_error + (daemon \<times> string)" where
  "main_daemon E parse_toml read_file dirs path up now =
     (case load_config parse_toml read_file path of
        None \<Rightarrow> Inl ConfigFailed
      | Some c \<Rightarrow> (case start_daemon E c (dirs (node_data_dir c)) up now of
            Inl e \<Rightarrow> Inl (NodeFailed e)
          | Inr d \<Rightarrow> Inr (d, ipc_socket_path c)))"

section \<open>Serving and ending\<close>

text \<open>
  What the operating system answers when the two listeners are set up, and whether the process is
  interrupted.  A listener that is set up serves for ever, accept errors included; the loop over outgoing
  messages does not end, because the node keeps a sender of the channel.  \<open>main\<close> waits for the first
  of three ends, reports it in the log only, and returns \<open>Ok\<close>.
\<close>

record boot =
  parent_made :: bool
  socket_bound :: bool
  port_bound :: bool
  interrupted :: bool

datatype task_state = Serves | Ended

definition ipc_run :: "boot \<Rightarrow> task_state" where
  "ipc_run b = (if parent_made b \<and> socket_bound b then Serves else Ended)"

definition network_run :: "boot \<Rightarrow> task_state" where
  "network_run b = (if port_bound b then Serves else Ended)"

definition main_ends :: "boot \<Rightarrow> bool" where
  "main_ends b \<longleftrightarrow> interrupted b \<or> ipc_run b = Ended \<or> network_run b = Ended"

datatype process = Exited nat | Serving daemon string

definition main_process ::
    "'e serde_scheme \<Rightarrow> (string \<Rightarrow> config_doc option) \<Rightarrow> (string \<Rightarrow> string option) \<Rightarrow> (string \<Rightarrow> data_dir) \<Rightarrow>
     string \<Rightarrow> string list \<Rightarrow> nat \<Rightarrow> boot \<Rightarrow> process" where
  "main_process E parse_toml read_file dirs path up now b =
     (case main_daemon E parse_toml read_file dirs path up now of
        Inl _ \<Rightarrow> Exited 1
      | Inr (d, sock) \<Rightarrow> if main_ends b then Exited 0 else Serving d sock)"

text \<open>A daemon that cannot listen ends with the status of success.\<close>

lemma unbound_exits_zero:
  "main_daemon E parse_toml read_file dirs path up now = Inr (d, sock) \<Longrightarrow> \<not> port_bound b \<or> \<not> socket_bound b \<Longrightarrow>
   main_process E parse_toml read_file dirs path up now b = Exited 0"
  by (auto simp: main_process_def main_ends_def network_run_def ipc_run_def)

section \<open>Tasks\<close>

text \<open>A timer or a client's request.\<close>

definition local_step :: "'e serde_scheme \<Rightarrow> node_event \<Rightarrow> daemon \<Rightarrow> daemon" where
  "local_step E ev d = d\<lparr>d_node := step_event E ev (d_node d)\<rparr>"

text \<open>The network task takes the next message from the channel and sends it.\<close>

definition send_step :: "wire \<Rightarrow> daemon \<Rightarrow> daemon" where
  "send_step W d = (case outgoing (d_node d) of
       [] \<Rightarrow> d
     | env # q \<Rightarrow> d\<lparr>d_node := (d_node d)\<lparr>outgoing := q\<rparr>, d_network := net_step W (Outgoing env) (d_network d)\<rparr>)"

text \<open>The listener accepts a connection; a connection's task reads the next bytes.\<close>

definition accept_step :: "daemon \<Rightarrow> daemon" where
  "accept_step d = d\<lparr>d_inbound := d_inbound d @ [Some \<lparr>taken = [], buffered = []\<rparr>]\<rparr>"

definition read_step :: "wire \<Rightarrow> 'e serde_scheme \<Rightarrow> nat \<Rightarrow> inbound \<Rightarrow> u8 list \<Rightarrow> daemon \<Rightarrow> daemon" where
  "read_step W E i conn bs d =
     (if bs = [] then d\<lparr>d_inbound := (d_inbound d)[i := None]\<rparr>
      else case process_frames W E (buffered conn @ bs) (d_node d) of
          (Ret (Some buf), s) \<Rightarrow>
            d\<lparr>d_node := s, d_inbound := (d_inbound d)[i := Some \<lparr>taken = taken conn @ bs, buffered = buf\<rparr>]\<rparr>
        | (_, s) \<Rightarrow> d\<lparr>d_node := s, d_inbound := (d_inbound d)[i := None]\<rparr>)"

section \<open>Systems\<close>

text \<open>\<open>old_streams\<close>: what daemons that have crashed had written.\<close>

record system =
  daemons :: "string \<rightharpoonup> daemon"
  old_streams :: "stream list"

type_synonym routing = "string \<rightharpoonup> string"

definition stream_to :: "routing \<Rightarrow> system \<Rightarrow> string \<Rightarrow> stream \<Rightarrow> bool" where
  "stream_to route \<sigma> n st \<longleftrightarrow> route (remote st) = Some n \<and>
     (st \<in> set (old_streams \<sigma>) \<or> (\<exists>m d. daemons \<sigma> m = Some d \<and> st \<in> set (streams (d_network d))))"

text \<open>Clients and timers, without overflow of a term or an index.\<close>

definition local_ok :: "node \<Rightarrow> node_event \<Rightarrow> bool" where
  "local_ok s ev = (case ev of
      Deliver env \<Rightarrow> False
    | ElectionTimer timeout \<Rightarrow> node_term s \<noteq> - 1
    | ClientPropose c tx \<Rightarrow> last_index (log s) \<noteq> - 1 \<and> command_ok c
    | _ \<Rightarrow> True)"

inductive system_step :: "'e serde_scheme \<Rightarrow> wire \<Rightarrow> routing \<Rightarrow> system \<Rightarrow> system \<Rightarrow> bool" for E W route where
  timer_or_client: "daemons \<sigma> n = Some d \<Longrightarrow> local_ok (d_node d) ev \<Longrightarrow>
    system_step E W route \<sigma> (\<sigma>\<lparr>daemons := (daemons \<sigma>)(n \<mapsto> local_step E ev d)\<rparr>)"
| time_passes: "daemons \<sigma> n = Some d \<Longrightarrow>
    system_step E W route \<sigma> (\<sigma>\<lparr>daemons := (daemons \<sigma>)(n \<mapsto> d\<lparr>d_node := (d_node d)\<lparr>clock := now\<rparr>\<rparr>)\<rparr>)"
| send: "daemons \<sigma> n = Some d \<Longrightarrow>
    system_step E W route \<sigma> (\<sigma>\<lparr>daemons := (daemons \<sigma>)(n \<mapsto> send_step W d)\<rparr>)"
| environment: "daemons \<sigma> n = Some d \<Longrightarrow> \<forall>env. nev \<noteq> Outgoing env \<Longrightarrow>
    system_step E W route \<sigma> (\<sigma>\<lparr>daemons := (daemons \<sigma>)(n \<mapsto> d\<lparr>d_network := net_step W nev (d_network d)\<rparr>)\<rparr>)"
| accept: "daemons \<sigma> n = Some d \<Longrightarrow>
    system_step E W route \<sigma> (\<sigma>\<lparr>daemons := (daemons \<sigma>)(n \<mapsto> accept_step d)\<rparr>)"
| read: "daemons \<sigma> n = Some d \<Longrightarrow> i < length (d_inbound d) \<Longrightarrow> d_inbound d ! i = Some conn \<Longrightarrow>
    stream_to route \<sigma> n st \<Longrightarrow>
    prefix (taken conn @ bs) (stream.sent st) \<Longrightarrow>
    system_step E W route \<sigma> (\<sigma>\<lparr>daemons := (daemons \<sigma>)(n \<mapsto> read_step W E i conn bs d)\<rparr>)"
| crash_restart: "daemons \<sigma> n = Some d \<Longrightarrow>
    start_daemon E (config (d_node d)) (data_dir (log (d_node d))) up now = Inr d' \<Longrightarrow>
    system_step E W route \<sigma> (\<sigma>\<lparr>daemons := (daemons \<sigma>)(n \<mapsto> d'), old_streams := old_streams \<sigma> @ streams (d_network d)\<rparr>)"

definition initial_system :: "'e serde_scheme \<Rightarrow> (string \<rightharpoonup> config) \<Rightarrow> system \<Rightarrow> bool" where
  "initial_system E cfgs \<sigma> \<longleftrightarrow> old_streams \<sigma> = [] \<and>
     (\<forall>n d. daemons \<sigma> n = Some d \<longrightarrow> (\<exists>c up now. cfgs n = Some c \<and> start_daemon E c no_files up now = Inr d))"

inductive system_reachable :: "'e serde_scheme \<Rightarrow> wire \<Rightarrow> routing \<Rightarrow> (string \<rightharpoonup> config) \<Rightarrow> system \<Rightarrow> bool" for E W route cfgs where
  start: "initial_system E cfgs \<sigma> \<Longrightarrow> system_reachable E W route cfgs \<sigma>"
| step: "system_reachable E W route cfgs \<sigma> \<Longrightarrow> system_step E W route \<sigma> \<sigma>' \<Longrightarrow> system_reachable E W route cfgs \<sigma>'"

text \<open>
  The configurations of a system fit together: each is for its own node, and an address that is
  configured for a peer leads to that peer or to no daemon of the system.
\<close>

definition well_addressed :: "routing \<Rightarrow> (string \<rightharpoonup> config) \<Rightarrow> bool" where
  "well_addressed route cfgs \<longleftrightarrow>
     (\<forall>n c. cfgs n = Some c \<longrightarrow> cfg_node_id (cfg_server c) = n \<and> length n \<le> 64) \<and>
     (\<forall>n m c pc. cfgs n = Some c \<longrightarrow> pc \<in> set (cfg_peers c) \<longrightarrow> route (pc_address pc) = Some m \<longrightarrow> m = pc_id pc)"

end
