(* ===== verification/Node_Outgoing.thy ===== *)
theory Node_Outgoing
  imports Node_Events
begin

text \<open>
  No handler looks at the channel to the network task: it only adds to its end.  So what an event does
  does not depend on the messages that still wait there, and these stay in front.
\<close>

definition queued :: "message_envelope list \<Rightarrow> node \<Rightarrow> node" where
  "queued q s = s\<lparr>outgoing := q @ outgoing s\<rparr>"

definition framed :: "'a node_op \<Rightarrow> bool" where
  "framed m \<longleftrightarrow> (\<forall>q s. m (queued q s) = (fst (m s), queued q (snd (m s))))"

lemma queued_simps [simp]:
  "node_id (queued q s) = node_id s" "config (queued q s) = config s" "role (queued q s) = role s"
  "log (queued q s) = log s" "machine (queued q s) = machine s" "commit_index (queued q s) = commit_index s"
  "last_applied (queued q s) = last_applied s" "leader_id (queued q s) = leader_id s"
  "peers (queued q s) = peers s" "next_index (queued q s) = next_index s"
  "match_index (queued q s) = match_index s" "votes_received (queued q s) = votes_received s"
  "last_heartbeat (queued q s) = last_heartbeat s" "pending_requests (queued q s) = pending_requests s"
  "log_locked (queued q s) = log_locked s" "clock (queued q s) = clock s" "replies (queued q s) = replies s"
  "outgoing (queued q s) = q @ outgoing s"
  by (simp_all add: queued_def)

lemma queued_update:
  "(queued q s)\<lparr>role := r\<rparr> = queued q (s\<lparr>role := r\<rparr>)" "(queued q s)\<lparr>log := l\<rparr> = queued q (s\<lparr>log := l\<rparr>)"
  "(queued q s)\<lparr>machine := m\<rparr> = queued q (s\<lparr>machine := m\<rparr>)"
  "(queued q s)\<lparr>commit_index := i\<rparr> = queued q (s\<lparr>commit_index := i\<rparr>)"
  "(queued q s)\<lparr>last_applied := i\<rparr> = queued q (s\<lparr>last_applied := i\<rparr>)"
  "(queued q s)\<lparr>leader_id := x\<rparr> = queued q (s\<lparr>leader_id := x\<rparr>)"
  "(queued q s)\<lparr>peers := ps\<rparr> = queued q (s\<lparr>peers := ps\<rparr>)"
  "(queued q s)\<lparr>next_index := m'\<rparr> = queued q (s\<lparr>next_index := m'\<rparr>)"
  "(queued q s)\<lparr>match_index := m'\<rparr> = queued q (s\<lparr>match_index := m'\<rparr>)"
  "(queued q s)\<lparr>votes_received := vs\<rparr> = queued q (s\<lparr>votes_received := vs\<rparr>)"
  "(queued q s)\<lparr>last_heartbeat := n\<rparr> = queued q (s\<lparr>last_heartbeat := n\<rparr>)"
  "(queued q s)\<lparr>pending_requests := pr\<rparr> = queued q (s\<lparr>pending_requests := pr\<rparr>)"
  "(queued q s)\<lparr>log_locked := b\<rparr> = queued q (s\<lparr>log_locked := b\<rparr>)"
  "(queued q s)\<lparr>clock := n\<rparr> = queued q (s\<lparr>clock := n\<rparr>)"
  "(queued q s)\<lparr>replies := rs\<rparr> = queued q (s\<lparr>replies := rs\<rparr>)"
  by (simp_all add: queued_def)

lemma framed_ret: "framed (ret x)"
  by (simp add: framed_def ret_def)

lemma framed_gets: "(\<And>q s. f (queued q s) = f s) \<Longrightarrow> framed (gets f)"
  by (simp add: framed_def gets_def)

lemma framed_modify: "(\<And>q s. f (queued q s) = queued q (f s)) \<Longrightarrow> framed (modify f)"
  by (simp add: framed_def modify_def)

lemma framed_bind: "framed m \<Longrightarrow> (\<And>x. framed (f x)) \<Longrightarrow> framed (bind m f)"
  unfolding framed_def bind_def by (auto split: prod.splits res.splits)

lemma framed_if: "framed m \<Longrightarrow> framed n \<Longrightarrow> framed (if b then m else n)"
  by simp

lemma framed_when: "framed m \<Longrightarrow> framed (when_op b m)"
  by (simp add: when_op_def framed_ret)

lemma framed_option: "framed m \<Longrightarrow> (\<And>x. framed (f x)) \<Longrightarrow> framed (case x of None \<Rightarrow> m | Some y \<Rightarrow> f y)"
  by (simp split: option.split)

lemma framed_for_each: "(\<And>x. framed (f x)) \<Longrightarrow> framed (for_each xs f)"
  by (induction xs) (simp_all add: framed_ret framed_bind)

lemma framed_lock: "framed lock_log"
  by (simp add: framed_def lock_log_def queued_update)

lemma framed_drop: "framed drop_log"
  unfolding drop_log_def by (intro framed_modify) (simp add: queued_update)

lemma framed_scope: "framed m \<Longrightarrow> framed (scope m)"
  unfolding framed_def scope_def by (auto simp: queued_update split: prod.splits res.splits)

lemma framed_on_log: "framed (on_log m)"
  by (simp add: framed_def zoom_def queued_update split: prod.split)

lemma framed_send: "framed (send_envelope env)"
  unfolding send_envelope_def by (intro framed_modify) (simp add: queued_def)

lemmas framed_intros = framed_bind framed_scope framed_when framed_for_each framed_if framed_option
  framed_lock framed_drop framed_on_log framed_send framed_ret framed_gets framed_modify

lemma queued_views [simp]:
  "append_entries_for E (queued q s) p = append_entries_for E s p"
  "vote_request E (queued q s) t = vote_request E s t"
  "majority (queued q s) = majority s" "ack_count (queued q s) = ack_count s"
  "commit_candidate (queued q s) = commit_candidate s"
  "time_since_heartbeat (queued q s) = time_since_heartbeat s"
  by (simp_all add: append_entries_for_def vote_request_def majority_def ack_count_def [abs_def]
      commit_candidate_def time_since_heartbeat_def)

lemma queued_update_commit: "update_commit lc (queued q s) = queued q (update_commit lc s)"
  by (simp add: update_commit_def queued_update)

lemma framed_send_heartbeats: "framed (send_heartbeats E)"
  unfolding send_heartbeats_def by (intro framed_intros) simp_all

lemma framed_apply: "framed apply_committed_entries"
  unfolding apply_committed_entries_def
  by (intro framed_intros) (simp_all add: queued_update split: prod.split)

lemma framed_notify: "framed (notify_pending_requests n)"
  unfolding notify_pending_requests_def
  by (intro framed_intros) (simp_all add: queued_update split: option.split)

lemma framed_try_advance: "framed try_advance_commit_index"
  unfolding try_advance_commit_index_def
  by (intro framed_intros framed_apply framed_notify) (simp_all add: queued_update)

lemma framed_become_leader: "framed (become_leader E)"
  unfolding become_leader_def
  by (intro framed_intros framed_send_heartbeats) (simp_all add: queued_update)

lemma framed_start_election: "framed (start_election E)"
  unfolding start_election_def
  by (intro framed_intros framed_become_leader) (simp_all add: queued_update)

lemma framed_send_append_entries_response: "framed (send_append_entries_response E to t ok)"
  unfolding send_append_entries_response_def by (intro framed_intros) simp_all

lemma framed_send_request_vote_response: "framed (send_request_vote_response E to t ok)"
  unfolding send_request_vote_response_def by (intro framed_intros) simp_all

lemma framed_handle_append_entries: "framed (handle_append_entries E from req)"
  unfolding handle_append_entries_def
  by (intro framed_intros framed_send_append_entries_response framed_apply)
    (simp_all add: queued_update queued_update_commit)

lemma framed_handle_append_entries_response: "framed (handle_append_entries_response E from resp)"
  unfolding handle_append_entries_response_def
  by (intro framed_intros framed_try_advance) (simp_all add: queued_update split: option.split)

lemma framed_handle_request_vote: "framed (handle_request_vote E from req)"
  unfolding handle_request_vote_def Let_def
  by (intro framed_intros framed_send_request_vote_response) (simp_all add: queued_update)

lemma framed_handle_request_vote_response: "framed (handle_request_vote_response E from resp)"
  unfolding handle_request_vote_response_def
  by (intro framed_intros framed_become_leader) (simp_all add: queued_update)

lemma framed_handle_message: "framed (handle_message E env)"
  by (simp add: handle_message_def framed_handle_append_entries framed_handle_append_entries_response
      framed_handle_request_vote framed_handle_request_vote_response framed_ret split: raft_message.split)

lemma framed_propose: "framed (propose E c tx)"
  unfolding propose_def reply_to_def
  by (intro framed_intros framed_send_heartbeats) (simp_all add: queued_update)

lemma framed_add_peer: "framed (add_peer E i a)"
  unfolding add_peer_def by (intro framed_intros) (simp_all add: queued_update)

lemma framed_remove_peer: "framed (remove_peer i)"
  unfolding remove_peer_def by (intro framed_intros) (simp_all add: queued_update)

lemma framed_get_status: "framed get_status"
  unfolding get_status_def by (intro framed_intros) simp_all

lemma framed_election_tick: "framed (election_tick E timeout)"
  unfolding election_tick_def by (intro framed_intros framed_start_election) simp_all

lemma framed_heartbeat_tick: "framed (heartbeat_tick E)"
  unfolding heartbeat_tick_def by (intro framed_intros framed_send_heartbeats) simp_all

lemma framed_run_event: "framed (run_event E ev)"
  by (simp add: run_event_def framed_handle_message framed_election_tick framed_heartbeat_tick
      framed_propose framed_add_peer framed_remove_peer framed_get_status framed_bind framed_ret
      split: node_event.split)

lemma step_event_queued: "step_event E ev (queued q s) = queued q (step_event E ev s)"
  using framed_run_event [of E ev] by (simp add: framed_def step_event_def)

end
