(* ===== verification/Node_Types.thy ===== *)
theory Node_Types
  imports Sample_Nodes
begin

text \<open>
  What the container types of the source promise: keys of at most 256 bytes, values of at most 1024,
  identifiers of at most 64, at most 64 entries in a message.  Strings and lists of the model have no
  capacity, so that the node stays inside these types is an invariant of its operations.  It holds
  whatever the system calls do.
\<close>

section \<open>Typed values\<close>

definition id_ok :: "string \<Rightarrow> bool" where
  "id_ok s \<longleftrightarrow> length s \<le> 64"

definition message_typed :: "raft_message \<Rightarrow> bool" where
  "message_typed msg \<longleftrightarrow> (case msg of
       AppendEntries req \<Rightarrow> id_ok (ae_leader_id req) \<and> length (ae_entries req) \<le> 64 \<and> list_all entry_ok (ae_entries req)
     | AppendEntriesResponse resp \<Rightarrow> id_ok (aer_node_id resp)
     | RequestVote req \<Rightarrow> id_ok (candidate_id req)
     | RequestVoteResponse resp \<Rightarrow> id_ok (rvr_node_id resp)
     | ClientRequest req \<Rightarrow> command_ok (cr_command req)
     | ClientResponse resp \<Rightarrow> True)"

definition envelope_typed :: "message_envelope \<Rightarrow> bool" where
  "envelope_typed env \<longleftrightarrow> id_ok (env_from env) \<and> id_ok (env_to env) \<and> message_typed (message env)"

definition log_typed :: "raft_log \<Rightarrow> bool" where
  "log_typed l \<longleftrightarrow> (\<forall>i e. entries l i = Some e \<longrightarrow> entry_ok e) \<and> state_ok (persistent l)"

definition sm_typed :: "state_machine \<Rightarrow> bool" where
  "sm_typed sm \<longleftrightarrow> (\<forall>k v. hm_get (sm_data sm) k = Some v \<longrightarrow> length k \<le> MAX_KEY_SIZE \<and> length v \<le> MAX_VALUE_SIZE)"

definition peers_typed :: "(string, peer_info) hmap \<Rightarrow> bool" where
  "peers_typed ps \<longleftrightarrow> (\<forall>k p. hm_get ps k = Some p \<longrightarrow> id_ok (peer_id p) \<and> id_ok (peer_address p))"

definition node_typed :: "node \<Rightarrow> bool" where
  "node_typed s \<longleftrightarrow> log_typed (log s) \<and> sm_wf (machine s) \<and> sm_typed (machine s) \<and>
     hm_wf (peers s) \<and> peers_typed (peers s) \<and> list_all envelope_typed (outgoing s)"

section \<open>The log\<close>

definition stays :: "('s \<Rightarrow> bool) \<Rightarrow> ('s, 'a) op \<Rightarrow> bool" where
  "stays P m \<longleftrightarrow> (\<forall>l. P l \<longrightarrow> fst (m l) \<noteq> Hang \<and> P (snd (m l)))"

lemma stays_bind: "stays P m \<Longrightarrow> (\<And>x. stays P (f x)) \<Longrightarrow> stays P (bind m f)"
  unfolding stays_def bind_def by (auto split: prod.splits res.splits)

lemma stays_modify: "(\<And>l. P l \<Longrightarrow> P (f l)) \<Longrightarrow> stays P (modify f)"
  by (simp add: stays_def modify_def)

lemma stays_ret: "stays P (ret x)"
  by (simp add: stays_def ret_def)

lemma stays_gets: "stays P (gets f)"
  by (simp add: stays_def gets_def)

lemma stays_from_json: "stays P (from_json x)"
  by (simp add: stays_def from_json_def ret_def fail_def split: option.split)

lemma stays_if: "stays P m \<Longrightarrow> stays P n \<Longrightarrow> stays P (if b then m else n)"
  by simp

lemma stays_option: "stays P m \<Longrightarrow> (\<And>y. stays P (f y)) \<Longrightarrow> stays P (case x of None \<Rightarrow> m | Some y \<Rightarrow> f y)"
  by (simp split: option.split)

lemma stays_for_each: "(\<And>x. x \<in> set xs \<Longrightarrow> stays P (f x)) \<Longrightarrow> stays P (for_each xs f)"
  by (induction xs) (auto intro: stays_bind stays_ret)

lemma stays_dir: "dir_only m \<Longrightarrow> (\<And>l d. P l \<Longrightarrow> P (l\<lparr>data_dir := d\<rparr>)) \<Longrightarrow> stays P m"
  unfolding stays_def dir_only_def by metis

lemma post_stays:
  assumes "stays P m" "P l" "\<And>r l'. r \<noteq> Hang \<Longrightarrow> P l' \<Longrightarrow> Q r l'"
  shows "post m Q l"
  using assms by (simp add: stays_def post_def)

lemma log_typed_dir [simp]: "log_typed (l\<lparr>data_dir := d\<rparr>) = log_typed l"
  by (simp add: log_typed_def)

lemma log_typed_file [simp]: "log_typed (l\<lparr>log_file := f\<rparr>) = log_typed l"
  by (simp add: log_typed_def)

lemma log_typed_insert:
  "log_typed l \<Longrightarrow> entry_ok e \<Longrightarrow> log_typed (l\<lparr>last_index := n, entries := insert_entry e (entries l)\<rparr>)"
  "log_typed l \<Longrightarrow> entry_ok e \<Longrightarrow> log_typed (l\<lparr>entries := insert_entry e (entries l), last_index := n\<rparr>)"
  by (simp_all add: log_typed_def insert_entry_def)

lemmas stays_log = stays_dir [where P = log_typed, unfolded log_typed_dir]

lemma stays_set_current_term: "stays log_typed (set_current_term E t)"
  unfolding set_current_term_def
  by (intro stays_bind stays_modify stays_log dir_only_save_state) (simp_all add: log_typed_def state_ok_def)

lemma stays_set_voted_for: "heapless_ok E \<Longrightarrow> stays log_typed (set_voted_for E c)"
  unfolding set_voted_for_def
  by (intro stays_bind stays_modify stays_log dir_only_save_state)
    (auto simp: log_typed_def state_ok_def push_str_cap)

lemma stays_append_entries:
  assumes "list_all entry_ok es"
  shows "stays log_typed (append_entries E es)"
  unfolding append_entries_def append_entry_from_leader_def
  by (intro stays_bind stays_for_each stays_modify stays_log dir_only_flush_log dir_only_write_line)
    (use assms in \<open>auto simp: list_all_iff intro: log_typed_insert\<close>)

lemma stays_log_append: "command_ok c \<Longrightarrow> stays log_typed (log_append E t c)"
  unfolding log_append_def Let_def
  by (intro stays_bind stays_gets stays_ret stays_modify stays_log dir_only_flush_log dir_only_write_line
      log_typed_insert) (simp_all add: entry_ok_def)

lemma stays_open_log: "stays log_typed open_log"
  unfolding open_log_def
  by (intro stays_bind stays_modify stays_log dir_only_on_dir io_call_no_hang) simp_all

lemma stays_truncate_from: "stays log_typed (truncate_from E b)"
  unfolding truncate_from_def
  by (intro stays_bind stays_for_each stays_modify stays_open_log stays_log dir_only_write_temp
      dir_only_on_dir io_call_no_hang) (auto simp: log_typed_def split: if_splits)

lemma stays_delete_conflicting: "stays log_typed (delete_conflicting E es)"
  unfolding delete_conflicting_def
  by (intro stays_bind stays_gets) (auto intro: stays_ret stays_truncate_from split: option.split)


section \<open>The machine and the messages\<close>

lemma sm_typed_step: "sm_wf sm \<Longrightarrow> sm_typed sm \<Longrightarrow> entry_ok e \<Longrightarrow> sm_typed (sm_step e sm)"
  by (auto simp: sm_typed_def sm_step_def apply_entry_def entry_ok_def sm_wf_def hm_simps
      split: command.splits if_splits)

lemma sm_typed_fold:
  "sm_wf sm \<Longrightarrow> sm_typed sm \<Longrightarrow> list_all entry_ok es \<Longrightarrow>
   sm_wf (fold sm_step es sm) \<and> sm_typed (fold sm_step es sm)"
  by (induction es arbitrary: sm) (simp_all add: sm_typed_step sm_wf_step)

lemma entries_between_typed: "log_typed l \<Longrightarrow> list_all entry_ok (entries_between (entries l) a b)"
  by (auto simp: log_typed_def entries_between_def list_all_iff set_map_filter)

lemma apply_result_typed:
  assumes "log_typed (log s)" "sm_wf (machine s)" "sm_typed (machine s)"
  shows "sm_wf (machine (apply_result_of s)) \<and> sm_typed (machine (apply_result_of s))"
  using sm_typed_fold [OF assms(2,3) entries_between_typed [OF assms(1)]] by (simp add: apply_result_of_eq)

lemma id_ok_push: "heapless_ok E \<Longrightarrow> id_ok (push_str E 64 s)"
  by (simp add: id_ok_def push_str_cap)

lemma heartbeat_typed:
  assumes "heapless_ok E" "log_typed (log s)"
  shows "envelope_typed (heartbeat E s p)"
proof -
  have "list_all entry_ok (get_entries (log s) a b)" for a b
    using assms(2) by (auto simp: log_typed_def get_entries_def list_all_iff set_map_filter)
  then have "list_all entry_ok (take 64 (get_entries (log s) a b))" for a b
    by (auto simp: list_all_iff dest: in_set_takeD)
  then show ?thesis
    by (simp add: envelope_typed_def heartbeat_def new_envelope_def message_typed_def append_entries_for_def
        Let_def id_ok_push [OF assms(1)])
qed

lemma reply_typed:
  assumes "heapless_ok E"
  shows "envelope_typed (append_entries_reply E s to t ok)" "envelope_typed (request_vote_reply E s to t g)"
    "envelope_typed (new_envelope E from to (RequestVote (vote_request E s t)))"
  by (simp_all add: envelope_typed_def append_entries_reply_def request_vote_reply_def new_envelope_def
      message_typed_def vote_request_def id_ok_push [OF assms])

lemma new_peer_typed: "heapless_ok E \<Longrightarrow> id_ok (peer_id (new_peer_info E i a)) \<and> id_ok (peer_address (new_peer_info E i a))"
  by (simp add: new_peer_info_def id_ok_push)

section \<open>Handlers\<close>

lemma node_typed_frame:
  assumes "node_typed s" "log t = log s" "machine t = machine s" "peers t = peers s"
    and "\<exists>new. outgoing t = outgoing s @ new \<and> list_all envelope_typed new"
  shows "node_typed t"
  using assms by (auto simp: node_typed_def)

lemma node_typed_log:
  "node_typed s \<Longrightarrow> log_typed l \<Longrightarrow> node_typed (s\<lparr>log := l\<rparr>)"
  by (simp add: node_typed_def)

lemma node_typed_update [simp]:
  "node_typed (s\<lparr>log_locked := b\<rparr>) = node_typed s"
  "node_typed (s\<lparr>role := r\<rparr>) = node_typed s"
  "node_typed (s\<lparr>commit_index := i\<rparr>) = node_typed s"
  "node_typed (s\<lparr>leader_id := l\<rparr>) = node_typed s"
  "node_typed (s\<lparr>last_heartbeat := h\<rparr>) = node_typed s"
  "node_typed (s\<lparr>votes_received := v\<rparr>) = node_typed s"
  "node_typed (s\<lparr>next_index := n\<rparr>) = node_typed s"
  "node_typed (s\<lparr>match_index := m\<rparr>) = node_typed s"
  "node_typed (s\<lparr>pending_requests := q\<rparr>) = node_typed s"
  "node_typed (s\<lparr>replies := rs\<rparr>) = node_typed s"
  by (simp_all add: node_typed_def)

lemma node_typed_send:
  "node_typed s \<Longrightarrow> list_all envelope_typed new \<Longrightarrow> outs = outgoing s @ new \<Longrightarrow> node_typed (s\<lparr>outgoing := outs\<rparr>)"
  by (simp add: node_typed_def)

lemma node_typed_outgoing: "node_typed s \<Longrightarrow> list_all envelope_typed (outgoing s)"
  by (simp add: node_typed_def)

lemma list_all_mapI: "(\<And>x. P (f x)) \<Longrightarrow> list_all P (map f xs)"
  by (simp add: list_all_iff)

lemma node_typed_sends:
  "node_typed s \<Longrightarrow> list_all envelope_typed outs \<Longrightarrow> node_typed (s\<lparr>outgoing := outs\<rparr>)"
  by (simp add: node_typed_def)

lemma node_typed_apply: "node_typed s \<Longrightarrow> node_typed (apply_result_of s)"
  using apply_result_typed [of s] by (auto simp: node_typed_def apply_result_of_eq)

lemma node_typed_broadcast: "heapless_ok E \<Longrightarrow> node_typed s \<Longrightarrow> node_typed (broadcast E s)"
  unfolding broadcast_def
  by (rule node_typed_send [OF _ _ refl]) (auto simp: list_all_iff node_typed_def heartbeat_typed)

lemma node_typed_leader: "node_typed (leader_state s) = node_typed s"
  by (simp add: leader_state_def)

lemma node_typed_logD: "node_typed s \<Longrightarrow> log_typed (log s)"
  by (simp add: node_typed_def)

text \<open>The rules for one handler: its log operations, its messages, what it applies.\<close>

lemmas typed_rules = node_typed_apply node_typed_broadcast node_typed_log node_typed_logD
  node_typed_sends node_typed_outgoing reply_typed

lemma typed_append_entries:
  assumes "heapless_ok E" "node_typed s" "message_typed (AppendEntries req)"
  shows "post (handle_append_entries E from req) (\<lambda>r s'. node_typed s') s"
proof -
  have es: "list_all entry_ok (ae_entries req)" using assms(3) by (simp add: message_typed_def)
  show ?thesis
    using assms(1,2) es
    by (auto simp: handle_append_entries_def wp update_commit_def reply_typed
        intro!: post_stays [OF stays_set_current_term] post_stays [OF stays_append_entries [OF es]]
          post_stays [OF stays_delete_conflicting] node_typed_apply node_typed_log node_typed_logD
          node_typed_send [OF _ _ refl] split: res.splits)
qed


lemma typed_append_entries_response:
  assumes "heapless_ok E" "node_typed s"
  shows "post (handle_append_entries_response E from resp) (\<lambda>r s'. node_typed s') s"
  using assms
  by (auto simp: handle_append_entries_response_def wp
      intro!: post_stays [OF stays_set_current_term] post_try_advance typed_rules
      split: res.splits option.splits)

lemma typed_request_vote:
  assumes "heapless_ok E" "node_typed s"
  shows "post (handle_request_vote E from req) (\<lambda>r s'. node_typed s') s"
  using assms
  by (auto simp: handle_request_vote_def wp Let_def reply_typed
      intro!: post_stays [OF stays_set_current_term] post_stays [OF stays_set_voted_for] typed_rules
      split: res.splits)

lemma typed_request_vote_response:
  assumes "heapless_ok E" "node_typed s"
  shows "post (handle_request_vote_response E from resp) (\<lambda>r s'. node_typed s') s"
  using assms
  by (auto simp: handle_request_vote_response_def wp node_typed_leader
      intro!: post_stays [OF stays_set_current_term] typed_rules split: res.splits)

lemma typed_start_election:
  assumes "heapless_ok E" "node_typed s"
  shows "post (start_election E) (\<lambda>r s'. node_typed s') s"
  using assms
  by (auto simp: start_election_def wp post_send_each node_typed_leader
      intro!: post_stays [OF stays_set_current_term] post_stays [OF stays_set_voted_for] list_all_mapI typed_rules
      split: res.splits)

lemma typed_propose:
  assumes "heapless_ok E" "node_typed s" "command_ok c"
  shows "post (propose E c tx) (\<lambda>r s'. node_typed s') s"
  using assms
  by (auto simp: propose_def reply_to_def wp intro!: post_stays [OF stays_log_append] typed_rules
      split: res.splits)

lemma peers_typed_insert:
  assumes "heapless_ok E" "peers_typed ps"
  shows "peers_typed (hm_insert i (new_peer_info E i a) ps)"
  using assms(2) new_peer_typed [OF assms(1), of i a] by (simp add: peers_typed_def hm_simps)

lemma typed_peers:
  assumes "heapless_ok E" "node_typed s"
  shows "node_typed (s\<lparr>peers := hm_insert i (new_peer_info E i a) (peers s)\<rparr>)"
    and "node_typed (s\<lparr>peers := hm_remove i (peers s)\<rparr>)"
  using assms(2) peers_typed_insert [OF assms(1), of "peers s" i a]
  by (auto simp: node_typed_def hm.wf_ins hm.wf_rem) (auto simp: peers_typed_def hm_simps split: if_splits)

text \<open>The values an event brings in are typed: a delivered message, and a proposed command.\<close>

definition event_typed :: "node_event \<Rightarrow> bool" where
  "event_typed ev = (case ev of
      Deliver env \<Rightarrow> envelope_typed env
    | ClientPropose c tx \<Rightarrow> command_ok c
    | _ \<Rightarrow> True)"

lemma typed_run_event:
  assumes "heapless_ok E" "node_typed s" "event_typed ev"
  shows "post (run_event E ev) (\<lambda>r s'. node_typed s') s"
proof (cases ev)
  case (Deliver env)
  show ?thesis
  proof (cases "message env")
    case (AppendEntries req)
    with Deliver assms(3) have "message_typed (AppendEntries req)"
      by (simp add: event_typed_def envelope_typed_def)
    with Deliver AppendEntries show ?thesis
      using typed_append_entries [OF assms(1,2)] by (simp add: run_event_def handle_message_def)
  qed (use Deliver assms typed_append_entries_response typed_request_vote typed_request_vote_response in
      \<open>simp_all add: run_event_def handle_message_def wp\<close>)
next
  case (ElectionTimer timeout)
  then show ?thesis
    using typed_start_election [OF assms(1,2)] assms(2) by (simp add: run_event_def election_tick_def wp)
next
  case HeartbeatTimer
  then show ?thesis
    using assms by (auto simp: run_event_def heartbeat_tick_def wp intro: typed_rules)
next
  case (ClientPropose c tx)
  then show ?thesis using assms typed_propose by (simp add: run_event_def event_typed_def)
next
  case (Join i a)
  then show ?thesis
    using typed_peers [OF assms(1,2)] by (auto simp: run_event_def add_peer_def wp)
next
  case (Leave i)
  then show ?thesis
    using typed_peers [OF assms(1,2)] by (auto simp: run_event_def remove_peer_def wp)
next
  case Status
  then show ?thesis using assms(2) by (auto simp: run_event_def get_status_def wp split: res.splits)
qed

definition keeps_types :: "node \<Rightarrow> node \<Rightarrow> bool" where
  "keeps_types s t \<longleftrightarrow> (node_typed s \<longrightarrow> node_typed t)"

interpretation types: evolution "step_event E" "\<lambda>s ev. heapless_ok E \<and> event_typed ev" keeps_types
  for E :: "'e serde_scheme"
proof
  show "keeps_types s s" for s by (simp add: keeps_types_def)
  show "keeps_types s t \<Longrightarrow> keeps_types t u \<Longrightarrow> keeps_types s u" for s t u by (simp add: keeps_types_def)
  show "heapless_ok E \<and> event_typed ev \<Longrightarrow> keeps_types s (step_event E ev s)" for s ev
    unfolding keeps_types_def
    by (intro impI step_event_post [where R = "\<lambda>_ s'. node_typed s'"] typed_run_event) auto
qed

section \<open>Start-up\<close>

text \<open>
  Reading \<open>state.json\<close> yields a typed value: the container's deserialisation rejects a longer string.
\<close>

definition serde_typed :: "'e serde_scheme \<Rightarrow> bool" where
  "serde_typed E \<longleftrightarrow> heapless_ok E \<and> (\<forall>j p. state_from_json E j = Some p \<longrightarrow> state_ok p)"

lemma disk_entry_typed: "heapless_ok E \<Longrightarrow> entry_ok (disk_entry_to_log_entry E d)"
  by (auto simp: disk_entry_to_log_entry_def entry_ok_def push_str_cap push_bytes_take MAX_KEY_SIZE_def MAX_VALUE_SIZE_def)

lemma stays_load_line: "heapless_ok E \<Longrightarrow> stays log_typed (load_line E line)"
  unfolding load_line_def Let_def
  by (intro stays_bind stays_if stays_ret stays_from_json stays_modify stays_log dir_only_on_dir
      io_call_no_hang log_typed_insert disk_entry_typed) simp_all

lemma stays_load_from_disk:
  assumes "serde_typed E"
  shows "stays log_typed (load_from_disk E)"
proof -
  have "stays log_typed (bind (from_json (state_from_json E content)) (\<lambda>p. modify (\<lambda>l. l\<lparr>persistent := p\<rparr>)))"
    for content
    using assms
    by (cases "state_from_json E content")
      (auto simp: from_json_def stays_def bind_def ret_def fail_def modify_def log_typed_def serde_typed_def)
  then have "stays log_typed (seq (on_dir (io_call id)) (bind (from_json (state_from_json E content)) (\<lambda>p.
              modify (\<lambda>l. l\<lparr>persistent := p\<rparr>))))" for content
    by (intro stays_bind [OF stays_log [OF dir_only_on_dir [OF io_call_no_hang]]]) simp_all
  note content = this
  have "stays log_typed (seq (on_dir (io_call id)) (for_each ls (load_line E)))" for ls
    using assms
    by (intro stays_bind stays_for_each stays_load_line stays_log dir_only_on_dir io_call_no_hang)
      (simp_all add: serde_typed_def)
  note lines = this
  show ?thesis
    unfolding load_from_disk_def
    by (rule stays_bind [OF stays_gets], rule stays_bind, rule stays_option [OF stays_ret content],
        rule stays_bind [OF stays_gets], rule stays_bind, rule stays_option [OF stays_ret lines],
        rule stays_open_log)
qed

lemma initial_peers_typed:
  assumes E: "heapless_ok E"
  shows "hm_wf (initial_peers E c)" "peers_typed (initial_peers E c)"
proof -
  have p: "hm_wf (fold (\<lambda>p. hm_insert (pc_id p) (new_peer_info E (pc_id p) (pc_address p))) ps m) \<and>
      peers_typed (fold (\<lambda>p. hm_insert (pc_id p) (new_peer_info E (pc_id p) (pc_address p))) ps m)"
    if "hm_wf m" "peers_typed m" for ps m
    using that
    by (induction ps arbitrary: m) (simp_all add: hm.wf_ins peers_typed_insert [OF E])
  show "hm_wf (initial_peers E c)" "peers_typed (initial_peers E c)"
    using p [of "[]" "cfg_peers c"] by (simp_all add: initial_peers_def peers_typed_def)
qed

lemma new_node_typed:
  assumes "serde_typed E" "new_node E c d now = Inr s"
  shows "node_typed s"
proof -
  have E: "heapless_ok E" using assms(1) by (simp add: serde_typed_def)
  have "stays log_typed (seq (on_dir (io_call id)) (load_from_disk E))"
    by (intro stays_bind stays_load_from_disk [OF assms(1)] stays_log dir_only_on_dir io_call_no_hang) simp
  moreover have "log_typed \<lparr>data_dir = d, entries = Map.empty, persistent = default_persistent_state,
        last_index = 0, log_file = NoFile\<rparr>"
    by (simp add: log_typed_def state_ok_def default_persistent_state_def)
  ultimately have l: "log_typed (snd (new_raft_log E d))" by (simp add: stays_def new_raft_log_def)
  note p = initial_peers_typed [OF E, of c]
  with assms(2) l show ?thesis
    by (auto simp: new_node_def node_typed_def sm_typed_def new_state_machine_def sm_wf_def split: prod.splits res.splits)
qed

text \<open>
  C26: From start-up on, whatever messages, timers, clients, membership changes and failing system calls
  come, a node stays inside the containers of the source: every stored or applied key, value and
  identifier fits its capacity, and every message it sends has at most 64 entries and fits too.
\<close>
theorem node_stays_typed:
  assumes "serde_typed E" "new_node E c d now = Inr s" "list_all event_typed evs"
  shows "node_typed (fold (step_event E) evs s)"
proof -
  have "all_ok (step_event E) (\<lambda>s ev. heapless_ok E \<and> event_typed ev) s evs" for s
    using assms(1,3) by (induction evs arbitrary: s) (simp_all add: serde_typed_def)
  from types.R_run [OF this, of s] new_node_typed [OF assms(1,2)]
  show ?thesis by (simp add: keeps_types_def)
qed

definition typed_ref :: serde where
  "typed_ref = serde_ref\<lparr>state_from_json := (\<lambda>j. case state_from_json serde_ref j of
     None \<Rightarrow> None | Some p \<Rightarrow> if state_ok p then Some p else None)\<rparr>"

lemma typed_ref: "serde_typed typed_ref"
proof -
  have "push_str typed_ref = push_str serde_ref" "vec_push typed_ref = vec_push serde_ref"
    by (simp_all add: typed_ref_def)
  then have "heapless_ok typed_ref"
    using serde_ok_heapless [OF serde_ref_ok] by (simp add: heapless_ok_def)
  then show ?thesis by (auto simp: serde_typed_def typed_ref_def split: option.splits if_splits)
qed

lemma node_stays_typed_witness:
  "\<exists>s. new_node typed_ref (sample_config ''a'' [''b'']) no_files 0 = Inr s \<and>
     node_typed (fold (step_event typed_ref) [ElectionTimer 0, ClientPropose (Put ''k'' [1]) 1, Join ''c'' ''h:1''] s)"
proof -
  have "fst (new_raft_log typed_ref no_files) = Ret ()"
    by (simp add: new_raft_log_def load_from_disk_def open_log_def no_files_def run_simps io_call_def take_fault_def)
  then obtain s where s: "new_node typed_ref (sample_config ''a'' [''b'']) no_files 0 = Inr s"
    by (cases "new_raft_log typed_ref no_files") (auto simp: new_node_def)
  have "list_all event_typed [ElectionTimer 0, ClientPropose (Put ''k'' [1]) 1, Join ''c'' ''h:1'']"
    by (simp add: event_typed_def MAX_KEY_SIZE_def MAX_VALUE_SIZE_def)
  from node_stays_typed [OF typed_ref s this] s show ?thesis by blast
qed

end
