(* ===== verification/Daemon_Refinement.thy ===== *)
theory Daemon_Refinement
  imports Daemon Node_Outgoing Node_Types Cluster_Properties
begin

text \<open>
  The cluster of \<open>Cluster\<close>, in which a message once sent may be delivered at any time, is what a system
  of daemons implements that exchange bytes over connections: channels, frames, cut reads, connections
  that fail half-way, restarts.  So what holds of every reachable cluster holds of the daemons.
\<close>

section \<open>Parsing a part of a stream\<close>

lemma bytes_of_Nil [simp]: "bytes_of W [] = []"
  by (simp add: bytes_of_def map_filter_simps)

lemma bytes_of_Cons:
  "envelope_to_json W env = Some p \<Longrightarrow> bytes_of W (env # envs) = frame p @ bytes_of W envs"
  by (simp add: bytes_of_def map_filter_simps encode_message_def)

lemma payload_okE:
  assumes "payload_ok W env"
  obtains p where "envelope_to_json W env = Some p" "length p \<le> MAX_MESSAGE_SIZE"
  using assms by (auto simp: payload_ok_def split: option.splits)

lemma frame_prefix_eq:
  assumes "length p \<le> MAX_MESSAGE_SIZE" "length q \<le> MAX_MESSAGE_SIZE" "frame p @ xs = frame q @ ys"
  shows "p = q \<and> xs = ys"
proof -
  have "frame_length (frame p @ xs) = length p" "frame_length (frame q @ ys) = length q"
    using assms(1,2) by (simp_all add: frame_length_frame MAX_MESSAGE_SIZE_def)
  with assms(3) have "length (frame p) = length (frame q)" by simp
  with assms(3) have "frame p = frame q" "xs = ys" by simp_all
  then show ?thesis by (simp add: frame_def)
qed

text \<open>What follows a part that is made of whole frames is itself a part of a list of messages.\<close>

lemma parsed_prefix:
  assumes "list_all (payload_ok W) done" "list_all (payload_ok W) envs"
    and "prefix (bytes_of W done @ xs) (bytes_of W envs)"
  shows "\<exists>k. prefix xs (bytes_of W (drop k envs))"
  using assms
proof (induction "done" arbitrary: envs)
  case Nil
  then show ?case by (intro exI [of _ 0]) simp
next
  case (Cons d ds)
  from Cons.prems(1) obtain p where p: "envelope_to_json W d = Some p" "length p \<le> MAX_MESSAGE_SIZE"
    by (auto elim: payload_okE)
  show ?case
  proof (cases envs)
    case Nil
    with Cons.prems(3) p show ?thesis by (simp add: bytes_of_Cons frame_def to_be_bytes_def)
  next
    case (Cons e es)
    with Cons.prems(2) obtain q where q: "envelope_to_json W e = Some q" "length q \<le> MAX_MESSAGE_SIZE"
      by (auto elim: payload_okE)
    from Cons.prems(3) p q \<open>envs = e # es\<close> obtain zs where
      "frame p @ bytes_of W ds @ xs @ zs = frame q @ bytes_of W es"
      by (auto simp: bytes_of_Cons prefix_def)
    from frame_prefix_eq [OF p(2) q(2) this] have "prefix (bytes_of W ds @ xs) (bytes_of W es)"
      by (metis append.assoc prefixI)
    with Cons.IH [of es] Cons.prems(1,2) \<open>envs = e # es\<close> obtain k where "prefix xs (bytes_of W (drop k es))" by auto
    with \<open>envs = e # es\<close> show ?thesis by (intro exI [of _ "Suc k"]) simp
  qed
qed

text \<open>A part of a list of messages: whole messages, then a piece of a frame that waits.\<close>

lemma split_part:
  assumes "list_all (payload_ok W) envs" "prefix xs (bytes_of W envs)"
  shows "\<exists>k tail. xs = bytes_of W (take k envs) @ tail \<and> process_frames W E tail = ret (Some tail)"
  using assms
proof (induction envs arbitrary: xs)
  case Nil
  then show ?case by simp
next
  case (Cons e es)
  then obtain p where p: "envelope_to_json W e = Some p" "length p \<le> MAX_MESSAGE_SIZE"
    by (auto elim: payload_okE)
  then have x: "prefix xs (frame p @ bytes_of W es)" using Cons.prems(2) by (simp add: bytes_of_Cons)
  show ?case
  proof (cases "length xs < length (frame p)")
    case True
    with x have "xs = take (length xs) (frame p)" by (auto simp: prefix_def append_eq_append_conv_if)
    then obtain r where r: "frame p = xs @ r" by (metis append_take_drop_id)
    have "process_frames W E xs = ret (Some xs)"
    proof (cases "length xs < 4")
      case False
      then have "frame_length xs = length p"
        using frame_length_prefix [of xs r] frame_length_frame [of p "[]"] p(2) r by (simp add: MAX_MESSAGE_SIZE_def)
      with False True p(2) show ?thesis by (simp add: process_frames.simps [of W E xs])
    qed simp
    then show ?thesis by (intro exI [of _ 0] exI [of _ xs]) simp
  next
    case False
    with x have "prefix (frame p) xs" by (meson not_less prefix_length_prefix prefixI)
    then obtain ys where ys: "xs = frame p @ ys" by (auto simp: prefix_def)
    with x have ys: "xs = frame p @ ys" "prefix ys (bytes_of W es)" by simp_all
    with Cons.IH [of ys] Cons.prems(1) obtain k tail where
      "ys = bytes_of W (take k es) @ tail" "process_frames W E tail = ret (Some tail)" by auto
    with ys(1) p show ?thesis by (intro exI [of _ "Suc k"] exI [of _ tail]) (simp add: bytes_of_Cons)
  qed
qed

section \<open>The relation\<close>

text \<open>
  Every envelope within the containers of the source serialises to less than a megabyte: 64 entries
  with a key of 256 and a value of 1024 bytes are the most.
\<close>

definition wire_fits :: "wire \<Rightarrow> bool" where
  "wire_fits W \<longleftrightarrow> (\<forall>env p. envelope_typed env \<longrightarrow> envelope_to_json W env = Some p \<longrightarrow> length p \<le> MAX_MESSAGE_SIZE)"

text \<open>A stream to \<open>p\<close>: messages for \<open>p\<close> out of \<open>S\<close>, or a part of that after which nothing is written.\<close>

definition stream_for :: "wire \<Rightarrow> message_envelope set \<Rightarrow> string \<Rightarrow> stream \<Rightarrow> bool" where
  "stream_for W S p st \<longleftrightarrow> (\<exists>envs. set envs \<subseteq> {env \<in> S. env_to env = p \<and> payload_ok W env} \<and>
     (stream.sent st = bytes_of W envs \<or>
      (room st = Some 0 \<and> prefix (stream.sent st) (bytes_of W envs))))"

definition addressed :: "(string \<rightharpoonup> config) \<Rightarrow> string \<Rightarrow> string \<Rightarrow> bool" where
  "addressed cfgs p a \<longleftrightarrow> (\<exists>n c. cfgs n = Some c \<and> (\<exists>pc \<in> set (cfg_peers c). pc_id pc = p \<and> pc_address pc = a))"

definition net_ok :: "wire \<Rightarrow> message_envelope set \<Rightarrow> (string \<Rightarrow> string \<Rightarrow> bool) \<Rightarrow> network \<Rightarrow> bool" where
  "net_ok W S A net \<longleftrightarrow>
     (\<forall>p a. hm_get (peer_addresses net) p = Some a \<longrightarrow> A p a) \<and>
     (\<forall>st \<in> set (streams net). \<exists>p. A p (remote st) \<and> stream_for W S p st) \<and>
     (\<forall>p i. hm_get (connections net) p = Some i \<longrightarrow> i < length (streams net) \<and>
        A p (remote (streams net ! i)) \<and> stream_for W S p (streams net ! i)) \<and>
     (\<forall>p q i. hm_get (connections net) p = Some i \<longrightarrow> hm_get (connections net) q = Some i \<longrightarrow> p = q)"

definition inbound_ok :: "wire \<Rightarrow> inbound \<Rightarrow> bool" where
  "inbound_ok W conn \<longleftrightarrow> (\<exists>envs. list_all (payload_ok W) envs \<and> taken conn = bytes_of W envs @ buffered conn)"

text \<open>A reading end at \<open>n\<close>: what it has taken is the start of messages out of \<open>S\<close> for \<open>n\<close>, and whole ones are parsed.\<close>

definition inbound_for :: "wire \<Rightarrow> message_envelope set \<Rightarrow> string \<Rightarrow> inbound \<Rightarrow> bool" where
  "inbound_for W S n conn \<longleftrightarrow> inbound_ok W conn \<and>
     (\<exists>envs. set envs \<subseteq> {env \<in> S. env_to env = n \<and> payload_ok W env} \<and> prefix (taken conn) (bytes_of W envs))"

definition daemon_ok :: "wire \<Rightarrow> message_envelope set \<Rightarrow> (string \<rightharpoonup> config) \<Rightarrow> string \<Rightarrow> daemon \<Rightarrow> bool" where
  "daemon_ok W S cfgs n d \<longleftrightarrow> cfgs n = Some (config (d_node d)) \<and> set (outgoing (d_node d)) \<subseteq> S \<and>
     net_ok W S (addressed cfgs) (d_network d) \<and>
     (\<forall>conn. Some conn \<in> set (d_inbound d) \<longrightarrow> inbound_for W S n conn) \<and> node_typed (d_node d)"

abbreviation idle :: "node \<Rightarrow> node" where
  "idle s \<equiv> s\<lparr>outgoing := []\<rparr>"

definition sim :: "wire \<Rightarrow> (string \<rightharpoonup> config) \<Rightarrow> system \<Rightarrow> cluster \<Rightarrow> bool" where
  "sim W cfgs \<sigma> c \<longleftrightarrow>
     members c = (\<lambda>n. map_option (\<lambda>d. idle (d_node d)) (daemons \<sigma> n)) \<and>
     (\<forall>n d. daemons \<sigma> n = Some d \<longrightarrow> daemon_ok W (set (cluster.sent c)) cfgs n d) \<and>
     (\<forall>st \<in> set (old_streams \<sigma>). \<exists>p. addressed cfgs p (remote st) \<and> stream_for W (set (cluster.sent c)) p st) \<and>
     (\<forall>env \<in> set (cluster.sent c). envelope_typed env)"

lemma stream_for_mono: "stream_for W S p st \<Longrightarrow> S \<subseteq> T \<Longrightarrow> stream_for W T p st"
  unfolding stream_for_def by blast

lemma net_ok_mono: "net_ok W S A net \<Longrightarrow> S \<subseteq> T \<Longrightarrow> net_ok W T A net"
  using stream_for_mono unfolding net_ok_def by meson

lemma inbound_for_mono: "inbound_for W S n conn \<Longrightarrow> S \<subseteq> T \<Longrightarrow> inbound_for W T n conn"
  unfolding inbound_for_def by blast

lemma daemon_ok_mono: "daemon_ok W S cfgs n d \<Longrightarrow> S \<subseteq> T \<Longrightarrow> daemon_ok W T cfgs n d"
  using net_ok_mono inbound_for_mono unfolding daemon_ok_def by blast

lemma simD:
  assumes "sim W cfgs \<sigma> c"
  shows "daemons \<sigma> n = Some d \<Longrightarrow> members c n = Some (idle (d_node d))"
    and "daemons \<sigma> n = Some d \<Longrightarrow> daemon_ok W (set (cluster.sent c)) cfgs n d"
    and "env \<in> set (cluster.sent c) \<Longrightarrow> envelope_typed env"
    and "st \<in> set (old_streams \<sigma>) \<Longrightarrow> \<exists>p. addressed cfgs p (remote st) \<and> stream_for W (set (cluster.sent c)) p st"
  using assms unfolding sim_def by simp_all

text \<open>A step of one daemon, with what the cluster's step adds.\<close>

lemma sim_update:
  assumes "sim W cfgs \<sigma> c" "daemons \<sigma> n = Some d"
    and "members c' = (members c)(n \<mapsto> idle (d_node d'))" "set (cluster.sent c) \<subseteq> set (cluster.sent c')"
    and "daemon_ok W (set (cluster.sent c')) cfgs n d'"
    and "\<forall>env \<in> set (cluster.sent c') - set (cluster.sent c). envelope_typed env"
    and "set (old_streams \<sigma>') \<subseteq> set (old_streams \<sigma>) \<union> set (streams (d_network d))"
    and "daemons \<sigma>' = (daemons \<sigma>)(n \<mapsto> d')"
  shows "sim W cfgs \<sigma>' c'"
  unfolding sim_def assms(8)
proof (intro conjI allI impI ballI)
  show "members c' = (\<lambda>k. map_option (\<lambda>d. idle (d_node d)) (((daemons \<sigma>)(n \<mapsto> d')) k))"
    using assms(1) by (auto simp: assms(3) sim_def)
  show "daemon_ok W (set (cluster.sent c')) cfgs k e" if "((daemons \<sigma>)(n \<mapsto> d')) k = Some e" for k e
    using that assms(5) daemon_ok_mono [OF simD(2) [OF assms(1)] assms(4)] by (auto split: if_splits)
  show "\<exists>p. addressed cfgs p (remote st) \<and> stream_for W (set (cluster.sent c')) p st" if "st \<in> set (old_streams \<sigma>')" for st
  proof -
    have "\<exists>p. addressed cfgs p (remote st) \<and> stream_for W (set (cluster.sent c)) p st"
      if "st \<in> set (streams (d_network d))"
      using simD(2) [OF assms(1,2)] that by (simp add: daemon_ok_def net_ok_def)
    with that assms(7) simD(4) [OF assms(1)] stream_for_mono [OF _ assms(4)] show ?thesis by blast
  qed
  show "envelope_typed env" if "env \<in> set (cluster.sent c')" for env
    using that assms(6) simD(3) [OF assms(1)] by blast
qed

text \<open>A step that the cluster does not see.\<close>

lemma sim_stutter:
  assumes "sim W cfgs \<sigma> c" "daemons \<sigma> n = Some d" "idle (d_node d') = idle (d_node d)"
    and "daemon_ok W (set (cluster.sent c)) cfgs n d'"
    and "old_streams \<sigma>' = old_streams \<sigma>" "daemons \<sigma>' = (daemons \<sigma>)(n \<mapsto> d')"
  shows "sim W cfgs \<sigma>' c"
proof (rule sim_update [OF assms(1,2) _ _ assms(4) _ _ assms(6)])
  show "set (old_streams \<sigma>') \<subseteq> set (old_streams \<sigma>) \<union> set (streams (d_network d))" by (simp add: assms(5))
  show "members c = (members c)(n \<mapsto> idle (d_node d'))"
    using simD(1) [OF assms(1,2)] by (simp add: assms(3) fun_upd_idem)
qed simp_all

text \<open>An event of a daemon's node is the event of the cluster, whatever waits in the channel.\<close>

lemma queued_idle: "queued (outgoing s) (idle s) = s"
  by (simp add: queued_def)

lemma idle_queued: "idle (queued q s) = idle s"
  by (simp add: queued_def)

lemma sim_event:
  assumes E: "serde_ok E" and S: "sim W cfgs \<sigma> c" and r: "reachable E c" and d: "daemons \<sigma> n = Some d"
    and en: "enabled E c (idle (d_node d)) ev" and ty: "event_typed ev"
    and \<sigma>': "\<sigma>' = \<sigma>\<lparr>daemons := (daemons \<sigma>)(n \<mapsto> d\<lparr>d_node := step_event E ev (d_node d)\<rparr>)\<rparr>"
  shows "sim W cfgs \<sigma>' (act E n ev (idle (d_node d)) c)" "reachable E (act E n ev (idle (d_node d)) c)"
proof -
  let ?s = "idle (d_node d)" and ?c = "act E n ev (idle (d_node d)) c"
  let ?t = "step_event E ev ?s"
  have m: "members c n = Some ?s" by (rule simD(1) [OF S d])
  note ok = simD(2) [OF S d, unfolded daemon_ok_def]
  have t: "step_event E ev (d_node d) = queued (outgoing (d_node d)) ?t"
    using step_event_queued [of E ev "outgoing (d_node d)" ?s] by (simp add: queued_idle)
  have cfg: "config ?t = config (d_node d)"
    using event_good(1) [OF E inv_reachable [OF r E] m en] by (simp add: node_good_def)
  have "keeps_types (d_node d) (step_event E ev (d_node d))"
    using serde_ok_heapless [OF E] ty by (intro types.R_step) simp
  then have nt: "node_typed (queued (outgoing (d_node d)) ?t)" using ok t by (simp add: keeps_types_def)
  then have "list_all envelope_typed (outgoing ?t)" by (simp add: node_typed_def)
  note new = this
  have sub: "set (cluster.sent c) \<subseteq> set (cluster.sent ?c)" by (simp add: act_def Let_def)
  show "sim W cfgs \<sigma>' ?c"
  proof (rule sim_update [OF S d _ sub])
    show "members ?c = (members c)(n \<mapsto> idle (d_node (d\<lparr>d_node := step_event E ev (d_node d)\<rparr>)))"
      by (simp add: act_def Let_def t idle_queued)
    show "daemon_ok W (set (cluster.sent ?c)) cfgs n (d\<lparr>d_node := step_event E ev (d_node d)\<rparr>)"
      using ok net_ok_mono [OF _ sub] inbound_for_mono [OF _ sub] nt cfg unfolding daemon_ok_def t by (auto simp: act_def Let_def)
    show "\<forall>env \<in> set (cluster.sent ?c) - set (cluster.sent c). envelope_typed env"
      using new by (auto simp: act_def Let_def list_all_iff)
  qed (simp_all add: \<sigma>')
  show "reachable E ?c" using reachable.step [OF r cluster_step.event [OF m en]] .
qed

section \<open>The network task\<close>

lemma stream_for_write:
  assumes "stream_for W S p st" "env \<in> S" "env_to env = p" "envelope_to_json W env = Some pl" "length pl \<le> MAX_MESSAGE_SIZE"
  shows "stream_for W S p (snd (write_stream (frame pl) st))"
proof -
  from assms(1) obtain envs where envs: "set envs \<subseteq> {env \<in> S. env_to env = p \<and> payload_ok W env}"
    "stream.sent st = bytes_of W envs \<or> (room st = Some 0 \<and> prefix (stream.sent st) (bytes_of W envs))"
    unfolding stream_for_def by blast
  have new: "set (envs @ [env]) \<subseteq> {env \<in> S. env_to env = p \<and> payload_ok W env}"
    using envs(1) assms(2-5) by (simp add: payload_ok_def)
  have b: "bytes_of W (envs @ [env]) = bytes_of W envs @ frame pl" by (rule bytes_of_snoc [OF assms(4)])
  show ?thesis
  proof (cases "stream.sent st = bytes_of W envs")
    case True
    have "prefix (take k (frame pl)) (frame pl)" for k by (rule take_is_prefix)
    then show ?thesis
      unfolding stream_for_def
      using new True b
      by (intro exI [of _ "envs @ [env]"]) (auto simp: write_stream_def split: option.split)
  next
    case False
    with envs have "room st = Some 0" "prefix (stream.sent st) (bytes_of W envs)" by auto
    then show ?thesis
      unfolding stream_for_def using envs(1) by (intro exI [of _ envs]) (auto simp: write_stream_def)
  qed
qed

lemma remote_write [simp]: "remote (snd (write_stream bs st)) = remote st"
  by (simp add: write_stream_def split: option.split)

lemma net_ok_write:
  assumes "net_ok W S A net" "hm_get (connections net) p = Some i"
    and "env \<in> S" "env_to env = p" "envelope_to_json W env = Some pl" "length pl \<le> MAX_MESSAGE_SIZE"
  shows "net_ok W S A (snd (write_all i (frame pl) net))"
proof -
  have i: "i < length (streams net)" "A p (remote (streams net ! i))" "stream_for W S p (streams net ! i)"
    using assms(1,2) unfolding net_ok_def by blast+
  let ?st = "snd (write_stream (frame pl) (streams net ! i))"
  have st: "A p (remote ?st)" "stream_for W S p ?st"
    using i stream_for_write [OF i(3) assms(3-6)] by simp_all
  have n: "snd (write_all i (frame pl) net) = net\<lparr>streams := (streams net)[i := ?st]\<rparr>"
    using i(1) by (simp add: write_all_def split: prod.split)
  show ?thesis
    unfolding n net_ok_def
  proof (intro conjI allI impI ballI)
    show "A q a" if "hm_get (peer_addresses (net\<lparr>streams := (streams net)[i := ?st]\<rparr>)) q = Some a" for q a
      using that assms(1) by (simp add: net_ok_def)
    show "\<exists>q. A q (remote x) \<and> stream_for W S q x" if "x \<in> set (streams (net\<lparr>streams := (streams net)[i := ?st]\<rparr>))" for x
    proof -
      have "x = ?st \<or> x \<in> set (streams net)" using that set_update_subset_insert [of "streams net" i ?st] by auto
      with st assms(1) show ?thesis unfolding net_ok_def by blast
    qed
    fix q j assume "hm_get (connections (net\<lparr>streams := (streams net)[i := ?st]\<rparr>)) q = Some j"
    then have q: "hm_get (connections net) q = Some j" by simp
    with assms(1,2) have old: "j < length (streams net)" "A q (remote (streams net ! j))"
      "stream_for W S q (streams net ! j)" "j = i \<Longrightarrow> q = p" unfolding net_ok_def by blast+
    then show "j < length (streams (net\<lparr>streams := (streams net)[i := ?st]\<rparr>))" by simp
    show "A q (remote (streams (net\<lparr>streams := (streams net)[i := ?st]\<rparr>) ! j))"
      "stream_for W S q (streams (net\<lparr>streams := (streams net)[i := ?st]\<rparr>) ! j)"
      using old st i(1) by (cases "j = i"; simp)+
    show "q = r" if "hm_get (connections (net\<lparr>streams := (streams net)[i := ?st]\<rparr>)) r = Some j" for r
      using that q assms(1) unfolding net_ok_def by simp
  qed
qed

lemma net_ok_connect:
  assumes "net_ok W S A net" "hm_get (connections net) p = None" "hm_get (peer_addresses net) p = Some a"
  shows "net_ok W S A (net\<lparr>streams := streams net @ [\<lparr>remote = a, sent = [], room = None\<rparr>],
      connections := hm_insert p (length (streams net)) (connections net)\<rparr>)"
proof -
  let ?st = "\<lparr>remote = a, sent = [], room = None\<rparr> :: stream"
  have "stream_for W S q ?st" for q
    unfolding stream_for_def by (intro exI [of _ "[]"]) simp
  moreover have "A p a" using assms(1,3) by (simp add: net_ok_def)
  moreover have "hm_get (connections net) q \<noteq> Some (length (streams net))" for q
    using assms(1) unfolding net_ok_def by blast
  ultimately show ?thesis
    using assms(1) unfolding net_ok_def
    by (auto simp: hm_simps nth_append less_SucI split: if_splits)
qed

lemma net_ok_send:
  assumes "net_ok W S A net" "env \<in> S" "\<And>pl. envelope_to_json W env = Some pl \<Longrightarrow> length pl \<le> MAX_MESSAGE_SIZE"
  shows "net_ok W S A (snd (send_message W (env_to env) env net))"
proof (cases "hm_get (connections net) (env_to env)")
  case (Some i)
  show ?thesis
  proof (cases "envelope_to_json W env")
    case None
    with Some assms(1) show ?thesis by (simp add: send_simps)
  next
    case (Some pl)
    with \<open>hm_get (connections net) (env_to env) = Some i\<close> net_ok_write [OF assms(1) _ assms(2) refl Some assms(3) [OF Some]]
    show ?thesis by (simp add: send_connected)
  qed
next
  case None
  show ?thesis
  proof (cases "hm_get (peer_addresses net) (env_to env)")
    case no: None
    with None assms(1) show ?thesis by (simp add: send_unregistered)
  next
    case (Some a)
    let ?net = "net\<lparr>streams := streams net @ [\<lparr>remote = a, sent = [], room = None\<rparr>],
      connections := hm_insert (env_to env) (length (streams net)) (connections net)\<rparr>"
    note c = net_ok_connect [OF assms(1) None Some]
    show ?thesis
    proof (cases "a \<in> set (listening net)")
      case False
      with None Some assms(1) show ?thesis by (simp add: send_unreachable)
    next
      case True
      show ?thesis
      proof (cases "envelope_to_json W env")
        case no: None
        with None Some True c show ?thesis by (simp add: send_simps)
      next
        case pl: (Some pl)
        have "hm_get (connections ?net) (env_to env) = Some (length (streams net))" by (simp add: hm_simps)
        from net_ok_write [OF c this assms(2) refl pl assms(3) [OF pl]] None Some True pl
        show ?thesis by (simp add: send_simps)
      qed
    qed
  qed
qed

lemma net_ok_environment:
  assumes "net_ok W S A net" "\<forall>env. nev \<noteq> Outgoing env"
  shows "net_ok W S A (net_step W nev net)"
proof (cases nev)
  case (StreamFails i k)
  show ?thesis
  proof (cases "i < length (streams net)")
    case True
    let ?st = "(streams net ! i)\<lparr>room := Some (case room (streams net ! i) of None \<Rightarrow> k | Some j \<Rightarrow> min j k)\<rparr>"
    have st: "stream_for W S p ?st" if "stream_for W S p (streams net ! i)" for p
      using that unfolding stream_for_def by auto
    have n: "net_step W nev net = net\<lparr>streams := (streams net)[i := ?st]\<rparr>" using StreamFails True by (simp add: net_step_def)
    have mem: "x = ?st \<or> x \<in> set (streams net)" if "x \<in> set ((streams net)[i := ?st])" for x
      using that set_update_subset_insert [of "streams net" i ?st] by auto
    have "streams net ! i \<in> set (streams net)" using True by simp
    with assms(1) st obtain p where "A p (remote ?st)" "stream_for W S p ?st" unfolding net_ok_def by fastforce
    with mem assms(1) have all: "\<forall>x \<in> set ((streams net)[i := ?st]). \<exists>p. A p (remote x) \<and> stream_for W S p x"
      unfolding net_ok_def by blast
    have "A p (remote ((streams net)[i := ?st] ! j)) \<and> stream_for W S p ((streams net)[i := ?st] ! j)"
      if "hm_get (connections net) p = Some j" for p j
      using that assms(1) st True by (cases "j = i") (auto simp: net_ok_def)
    with all assms(1) show ?thesis unfolding n net_ok_def by simp
  qed (use StreamFails assms(1) in \<open>simp add: net_step_def\<close>)
qed (use assms in \<open>auto simp: net_step_def net_ok_def\<close>)

lemma net_ok_main:
  assumes "cfgs n = Some c"
  shows "net_ok W S (addressed cfgs) (main_network c up)"
proof -
  have regs: "hm_get (peer_addresses (fold (\<lambda>p. register_peer (pc_id p) (pc_address p)) ps net)) q = Some a \<Longrightarrow>
      hm_get (peer_addresses net) q = Some a \<or> (\<exists>pc \<in> set ps. pc_id pc = q \<and> pc_address pc = a)" for ps net q a
    by (induction ps arbitrary: net) (fastforce simp: register_peer_def hm_simps split: if_splits)+
  have "addressed cfgs q a" if a: "hm_get (peer_addresses (main_network c up)) q = Some a" for q a
  proof -
    have "hm_get (peer_addresses (new_network up)) q = Some a \<or> (\<exists>pc \<in> set (cfg_peers c). pc_id pc = q \<and> pc_address pc = a)"
      using a unfolding main_network_def by (rule regs)
    with assms show ?thesis by (auto simp: new_network_def addressed_def)
  qed
  then show ?thesis by (simp add: net_ok_def)
qed

section \<open>Reading\<close>

text \<open>
  A list of messages is handled one after the other, until one of them hangs: a run of deliveries.
\<close>

lemma logged_delivery: "snd (logged (handle_message E env) s) = step_event E (Deliver env) s"
  by (simp add: logged_def step_event_def run_event_def split: prod.split res.split)

lemma handled_prefix:
  "\<exists>k. snd (for_each envs (\<lambda>env. logged (handle_message E env)) s) =
     fold (\<lambda>env. step_event E (Deliver env)) (take k envs) s"
proof (induction envs arbitrary: s)
  case Nil
  show ?case by (simp add: ret_def)
next
  case (Cons env envs)
  obtain r t where rt: "logged (handle_message E env) s = (r, t)" by (cases "logged (handle_message E env) s")
  then have t: "t = step_event E (Deliver env) s" using logged_delivery [of E env s] by simp
  show ?case
  proof (cases r)
    case (Ret x)
    from Cons.IH [of t] obtain k where
      "snd (for_each envs (\<lambda>env. logged (handle_message E env)) t) = fold (\<lambda>env. step_event E (Deliver env)) (take k envs) t"
      by blast
    with rt t Ret show ?thesis by (intro exI [of _ "Suc k"]) (simp add: bind_def)
  next
    case (Fail e)
    with rt t show ?thesis by (intro exI [of _ 1]) (simp add: bind_def)
  next
    case Hang
    with rt t show ?thesis by (intro exI [of _ 1]) (simp add: bind_def)
  qed
qed

lemma sim_deliveries:
  assumes E: "serde_ok E"
  shows "sim W cfgs \<sigma> c \<Longrightarrow> reachable E c \<Longrightarrow> daemons \<sigma> n = Some d \<Longrightarrow>
    set envs \<subseteq> {env \<in> set (cluster.sent c). env_to env = n} \<Longrightarrow>
    \<exists>c'. reachable E c' \<and> set (cluster.sent c) \<subseteq> set (cluster.sent c') \<and>
      sim W cfgs (\<sigma>\<lparr>daemons := (daemons \<sigma>)(n \<mapsto> d\<lparr>d_node := fold (\<lambda>env. step_event E (Deliver env)) envs (d_node d)\<rparr>)\<rparr>) c'"
proof (induction envs arbitrary: \<sigma> c d)
  case Nil
  moreover have "(daemons \<sigma>)(n \<mapsto> d) = daemons \<sigma>" using Nil.prems(3) by (simp add: fun_upd_idem)
  then have "\<sigma>\<lparr>daemons := (daemons \<sigma>)(n \<mapsto> d)\<rparr> = \<sigma>" by simp
  ultimately show ?case by (auto simp del: fun_upd_apply)
next
  case (Cons env envs)
  let ?d = "d\<lparr>d_node := step_event E (Deliver env) (d_node d)\<rparr>"
  let ?\<sigma> = "\<sigma>\<lparr>daemons := (daemons \<sigma>)(n \<mapsto> ?d)\<rparr>" and ?c = "act E n (Deliver env) (idle (d_node d)) c"
  note I = inv_reachable [OF Cons.prems(2) E]
  have "member_ok E n (idle (d_node d))"
    using I simD(1) [OF Cons.prems(1,3)] by (simp add: cluster_inv_def)
  then have "push_str E 64 (node_id (idle (d_node d))) = n"
    using serde_ok_heapless [OF E] by (simp add: member_ok_def push_str_fits)
  with Cons.prems(4) have en: "enabled E c (idle (d_node d)) (Deliver env)" by (simp add: enabled_def)
  have "event_typed (Deliver env)" using simD(3) [OF Cons.prems(1)] Cons.prems(4) by (simp add: event_typed_def)
  note step = sim_event [OF E Cons.prems(1-3) en this refl]
  have "set envs \<subseteq> {env \<in> set (cluster.sent ?c). env_to env = n}"
    using Cons.prems(4) by (auto simp: act_def Let_def)
  moreover have "daemons ?\<sigma> n = Some ?d" by simp
  ultimately obtain c' where "reachable E c'" "set (cluster.sent ?c) \<subseteq> set (cluster.sent c')"
    "sim W cfgs (?\<sigma>\<lparr>daemons := (daemons ?\<sigma>)(n \<mapsto>
       ?d\<lparr>d_node := fold (\<lambda>env. step_event E (Deliver env)) envs (d_node ?d)\<rparr>)\<rparr>) c'"
    using Cons.IH [OF step] by blast
  then show ?case
    by (intro exI [of _ c']) (simp add: act_def Let_def del: fun_upd_apply)
qed

text \<open>The bytes a reader gets are messages for it that have been sent, and a rest that waits.\<close>

lemma read_messages:
  fixes E :: "'e serde_scheme"
  assumes wa: "well_addressed route cfgs" and st: "addressed cfgs p (remote st)" "stream_for W S p st"
    and n: "route (remote st) = Some n"
    and conn: "inbound_ok W conn" and pre: "prefix (taken conn @ bs) (stream.sent st)"
  shows "\<exists>envs tail. set envs \<subseteq> {env \<in> S. env_to env = n} \<and> list_all (payload_ok W) envs \<and>
    buffered conn @ bs = bytes_of W envs @ tail \<and> process_frames W E tail = ret (Some tail) \<and>
    (\<exists>all. set all \<subseteq> {env \<in> S. env_to env = n \<and> payload_ok W env} \<and> prefix (taken conn @ bs) (bytes_of W all))"
proof -
  have "p = n" using wa st(1) n unfolding well_addressed_def addressed_def by metis
  with st(2) obtain envs where envs: "set envs \<subseteq> {env \<in> S. env_to env = n \<and> payload_ok W env}"
    "prefix (stream.sent st) (bytes_of W envs)"
    by (auto simp: stream_for_def)
  from conn obtain old where old: "list_all (payload_ok W) old" "taken conn = bytes_of W old @ buffered conn"
    by (auto simp: inbound_ok_def)
  have ok: "list_all (payload_ok W) envs" using envs(1) by (auto simp: list_all_iff)
  have "prefix (bytes_of W old @ buffered conn @ bs) (bytes_of W envs)"
    using pre envs(2) old(2) by (simp add: prefix_order.trans)
  from parsed_prefix [OF old(1) ok this] obtain k where k: "prefix (buffered conn @ bs) (bytes_of W (drop k envs))" ..
  have okk: "list_all (payload_ok W) (drop k envs)" using ok set_drop_subset [of k envs] by (auto simp: list_all_iff)
  from split_part [OF okk k] obtain j tail where
    j: "buffered conn @ bs = bytes_of W (take j (drop k envs)) @ tail" "process_frames W E tail = ret (Some tail)"
    by blast
  have sub: "set (take j (drop k envs)) \<subseteq> set envs" by (meson set_drop_subset set_take_subset subset_trans)
  show ?thesis
    using j sub envs prefix_order.trans [OF pre envs(2)]
    by (intro exI [of _ "take j (drop k envs)"] exI [of _ tail] conjI exI [of _ envs]) (auto simp: list_all_iff)
qed

lemma bytes_of_append: "bytes_of W (xs @ ys) = bytes_of W xs @ bytes_of W ys"
  by (simp add: bytes_of_def map_filter_def)

lemma read_step_outcome:
  fixes E :: "'e serde_scheme"
  assumes "wire_ok W" "inbound_ok W conn" "list_all (payload_ok W) envs"
    and "buffered conn @ bs = bytes_of W envs @ tail" "process_frames W E tail = ret (Some tail)" "bs \<noteq> []"
  shows "\<exists>k x. read_step W E i conn bs d =
      d\<lparr>d_node := fold (\<lambda>env. step_event E (Deliver env)) (take k envs) (d_node d), d_inbound := (d_inbound d)[i := x]\<rparr> \<and>
    (\<forall>conn'. x = Some conn' \<longrightarrow> inbound_ok W conn' \<and> taken conn' = taken conn @ bs)"
proof -
  let ?run = "for_each envs (\<lambda>env. logged (handle_message E env))"
  have p: "process_frames W E (buffered conn @ bs) = seq ?run (ret (Some tail))"
    using process_encoded [OF assms(1,3), of E tail] assms(4,5) by simp
  from handled_prefix [where envs = envs and E = E and s = "d_node d"] obtain k where k:
    "snd (?run (d_node d)) = fold (\<lambda>env. step_event E (Deliver env)) (take k envs) (d_node d)" ..
  from assms(2) obtain old where old: "list_all (payload_ok W) old" "taken conn = bytes_of W old @ buffered conn"
    by (auto simp: inbound_ok_def)
  have new: "inbound_ok W \<lparr>taken = taken conn @ bs, buffered = tail\<rparr>"
    unfolding inbound_ok_def using old assms(3,4) by (intro exI [of _ "old @ envs"]) (simp add: bytes_of_append)
  obtain r s' where run: "?run (d_node d) = (r, s')" by (cases "?run (d_node d)")
  with k have s': "s' = fold (\<lambda>env. step_event E (Deliver env)) (take k envs) (d_node d)" by simp
  show ?thesis
  proof (cases r)
    case (Ret x)
    with run s' p assms(6) new show ?thesis
      by (intro exI [of _ k] exI [of _ "Some \<lparr>taken = taken conn @ bs, buffered = tail\<rparr>"])
        (simp add: read_step_def bind_def ret_def)
  qed (use run s' p assms(6) in \<open>auto simp: read_step_def bind_def intro!: exI [of _ k] exI [of _ None]\<close>)
qed

lemma sim_inbound:
  assumes "sim W cfgs \<sigma> c" "daemons \<sigma> n = Some d" "\<forall>conn. x = Some conn \<longrightarrow> inbound_for W (set (cluster.sent c)) n conn"
    and "\<sigma>' = \<sigma>\<lparr>daemons := (daemons \<sigma>)(n \<mapsto> d\<lparr>d_inbound := (d_inbound d)[i := x]\<rparr>)\<rparr>"
  shows "sim W cfgs \<sigma>' c"
proof (rule sim_stutter [OF assms(1,2)])
  show "daemon_ok W (set (cluster.sent c)) cfgs n (d\<lparr>d_inbound := (d_inbound d)[i := x]\<rparr>)"
    using simD(2) [OF assms(1,2)] assms(3) set_update_subset_insert [of "d_inbound d" i x]
    unfolding daemon_ok_def by auto
qed (simp_all add: assms(4))

lemma sim_read:
  fixes E :: "'e serde_scheme"
  assumes E: "serde_ok E" and W: "wire_ok W" and wa: "well_addressed route cfgs"
    and S: "sim W cfgs \<sigma> c" and r: "reachable E c" and d: "daemons \<sigma> n = Some d"
    and i: "i < length (d_inbound d)" "d_inbound d ! i = Some conn"
    and st: "stream_to route \<sigma> n st"
    and pre: "prefix (taken conn @ bs) (stream.sent st)"
  shows "\<exists>c'. reachable E c' \<and> sim W cfgs (\<sigma>\<lparr>daemons := (daemons \<sigma>)(n \<mapsto> read_step W E i conn bs d)\<rparr>) c'"
proof (cases "bs = []")
  case True
  then show ?thesis
    using r sim_inbound [OF S d, of None] by (auto simp: read_step_def simp del: fun_upd_apply)
next
  case False
  note ok = simD(2) [OF S d, unfolded daemon_ok_def]
  have conn: "inbound_ok W conn" using ok nth_mem [OF i(1)] i(2) unfolding inbound_for_def by metis
  have rem: "route (remote st) = Some n" using st by (simp add: stream_to_def)
  have "\<exists>p. addressed cfgs p (remote st) \<and> stream_for W (set (cluster.sent c)) p st"
    using st simD(2) [OF S] simD(4) [OF S] unfolding stream_to_def daemon_ok_def net_ok_def by blast
  then obtain p where p: "addressed cfgs p (remote st)" "stream_for W (set (cluster.sent c)) p st" by blast
  from read_messages [OF wa p rem conn pre, where E = E] obtain envs tail all where envs:
    "set envs \<subseteq> {env \<in> set (cluster.sent c). env_to env = n}" "list_all (payload_ok W) envs"
    "buffered conn @ bs = bytes_of W envs @ tail" "process_frames W E tail = ret (Some tail)"
    "set all \<subseteq> {env \<in> set (cluster.sent c). env_to env = n \<and> payload_ok W env}"
    "prefix (taken conn @ bs) (bytes_of W all)" by blast
  from read_step_outcome [OF W conn envs(2-4) False, of i d] obtain k x where k:
    "read_step W E i conn bs d =
      d\<lparr>d_node := fold (\<lambda>env. step_event E (Deliver env)) (take k envs) (d_node d), d_inbound := (d_inbound d)[i := x]\<rparr>"
    "\<forall>conn'. x = Some conn' \<longrightarrow> inbound_ok W conn' \<and> taken conn' = taken conn @ bs" by blast
  have "set (take k envs) \<subseteq> {env \<in> set (cluster.sent c). env_to env = n}" using envs(1) set_take_subset [of k envs] by blast
  from sim_deliveries [OF E S r d this] obtain c' where c': "reachable E c'"
    "set (cluster.sent c) \<subseteq> set (cluster.sent c')" "sim W cfgs (\<sigma>\<lparr>daemons := (daemons \<sigma>)(n \<mapsto>
       d\<lparr>d_node := fold (\<lambda>env. step_event E (Deliver env)) (take k envs) (d_node d)\<rparr>)\<rparr>) c'" by blast
  have in': "\<forall>conn'. x = Some conn' \<longrightarrow> inbound_for W (set (cluster.sent c')) n conn'"
    unfolding inbound_for_def
  proof (intro allI impI conjI)
    fix conn' assume x: "x = Some conn'"
    with k(2) show "inbound_ok W conn'" by simp
    have "set all \<subseteq> {env \<in> set (cluster.sent c'). env_to env = n \<and> payload_ok W env}"
      using envs(5) c'(2) by blast
    with x k(2) envs(6) show "\<exists>envs. set envs \<subseteq> {env \<in> set (cluster.sent c'). env_to env = n \<and> payload_ok W env} \<and>
        prefix (taken conn') (bytes_of W envs)" by (intro exI [of _ all]) simp
  qed
  have "sim W cfgs (\<sigma>\<lparr>daemons := (daemons \<sigma>)(n \<mapsto> read_step W E i conn bs d)\<rparr>) c'"
    by (rule sim_inbound [OF c'(3) _ in', where i = i and
          d = "d\<lparr>d_node := fold (\<lambda>env. step_event E (Deliver env)) (take k envs) (d_node d)\<rparr>"]) (simp_all add: k(1))
  with c'(1) show ?thesis by blast
qed

section \<open>The refinement\<close>

lemma synced_node_typed:
  assumes "serde_ok E" "new_node E cfg d now = Inr s" "synced E (log s)"
  shows "node_typed s"
proof -
  have "log_typed (log s)"
    using synced_entry_ok [OF assms(3)] assms(3) by (auto simp: log_typed_def synced_def)
  moreover have "peers s = initial_peers E cfg" "machine s = new_state_machine" "outgoing s = []"
    using assms(2) by (auto simp: new_node_def split: prod.splits res.splits)
  ultimately show ?thesis
    using initial_peers_typed [OF serde_ok_heapless [OF assms(1)]]
    by (simp add: node_typed_def sm_typed_def new_state_machine_def sm_wf_def)
qed

lemma start_daemon_node: "start_daemon E c dir up now = Inr d \<Longrightarrow> new_node E c dir now = Inr (d_node d)"
  by (cases "new_node E c dir now") (auto simp: start_daemon_def)

lemma start_daemon_ok:
  assumes "serde_ok E" "start_daemon E c dir up now = Inr d" "synced E (log (d_node d))" "cfgs n = Some c"
  shows "new_node E c dir now = Inr (d_node d)" "idle (d_node d) = d_node d" "daemon_ok W S cfgs n d"
proof -
  from assms(2) obtain s where s: "new_node E c dir now = Inr s"
    "d = \<lparr>d_node = s, d_network = main_network c up, d_inbound = []\<rparr>"
    by (auto simp: start_daemon_def split: sum.splits)
  then show n: "new_node E c dir now = Inr (d_node d)" by simp
  from s have o: "outgoing (d_node d) = []" "config (d_node d) = c"
    by (auto simp: new_node_def split: prod.splits res.splits)
  then show "idle (d_node d) = d_node d" by (cases "d_node d") simp
  show "daemon_ok W S cfgs n d"
    using o s(2) synced_node_typed [OF assms(1) n assms(3)] net_ok_main [where cfgs = cfgs, OF assms(4)] assms(4)
    by (simp add: daemon_ok_def)
qed

lemma sim_send:
  assumes W: "wire_fits W" and S: "sim W cfgs \<sigma> c" and d: "daemons \<sigma> n = Some d"
  shows "sim W cfgs (\<sigma>\<lparr>daemons := (daemons \<sigma>)(n \<mapsto> send_step W d)\<rparr>) c"
proof (rule sim_stutter [OF S d])
  note ok = simD(2) [OF S d, unfolded daemon_ok_def]
  show "idle (d_node (send_step W d)) = idle (d_node d)" by (simp add: send_step_def split: list.split)
  show "daemon_ok W (set (cluster.sent c)) cfgs n (send_step W d)"
  proof (cases "outgoing (d_node d)")
    case Nil
    with simD(2) [OF S d] show ?thesis by (simp add: send_step_def)
  next
    case (Cons env q)
    then have e: "env \<in> set (cluster.sent c)" using ok by auto
    have "net_ok W (set (cluster.sent c)) (addressed cfgs) (snd (send_message W (env_to env) env (d_network d)))"
      using ok simD(3) [OF S e] W e by (intro net_ok_send) (auto simp: wire_fits_def)
    with ok Cons show ?thesis
      by (simp add: daemon_ok_def send_step_def net_step_def) (simp add: node_typed_def)
  qed
qed simp_all

lemma sim_initial:
  assumes E: "serde_ok E" and wa: "well_addressed route cfgs" and i: "initial_system E cfgs \<sigma>"
  shows "\<exists>c. reachable E c \<and> sim W cfgs \<sigma> c"
proof -
  let ?c = "\<lparr>members = (\<lambda>n. map_option (\<lambda>d. idle (d_node d)) (daemons \<sigma> n)), sent = []\<rparr> :: cluster"
  have one: "\<exists>cf now. cfgs n = Some cf \<and> new_node E cf no_files now = Inr (idle (d_node d)) \<and>
      daemon_ok W {} cfgs n d" if "daemons \<sigma> n = Some d" for n d
  proof -
    from i that obtain cf up now where d: "cfgs n = Some cf" "start_daemon E cf no_files up now = Inr d"
      unfolding initial_system_def by blast
    have "log s = fresh_log" if "new_node E cf no_files now = Inr s" for s
      using that by (auto simp: new_node_def no_files_def new_raft_log_fresh)
    moreover have "new_node E cf no_files now = Inr (d_node d)"
      by (rule start_daemon_node [OF d(2)])
    ultimately have "log (d_node d) = fresh_log" by blast
    then have "synced E (log (d_node d))" by (simp add: fresh_log_synced)
    note ok = start_daemon_ok [where cfgs = cfgs and n = n, OF E d(2) this d(1)]
    have "new_node E cf no_files now = Inr (idle (d_node d))" using ok(1,2) by simp
    with ok(3) d(1) show ?thesis by blast
  qed
  have "initial_cluster E ?c"
    unfolding initial_cluster_def
  proof (intro conjI allI impI)
    fix n s assume "members ?c n = Some s"
    then have "map_option (\<lambda>d. idle (d_node d)) (daemons \<sigma> n) = Some s" unfolding cluster.select_convs .
    then have "\<exists>d. daemons \<sigma> n = Some d \<and> idle (d_node d) = s" by (rule map_option_eq_Some [THEN iffD1])
    then obtain d where d: "daemons \<sigma> n = Some d" "idle (d_node d) = s" by blast
    obtain cf now where cf: "cfgs n = Some cf" "new_node E cf no_files now = Inr (idle (d_node d))"
      using one [OF d(1)] by blast
    note cf = cf [unfolded d(2)]
    show "length n \<le> 64" using wa cf(1) by (simp add: well_addressed_def)
    show "\<exists>cfg now. cfg_node_id (cfg_server cfg) = n \<and> new_node E cfg no_files now = Inr s"
      using wa cf by (intro exI [of _ cf] exI [of _ now]) (simp add: well_addressed_def)
  qed simp
  moreover have "sim W cfgs \<sigma> ?c"
    using one i unfolding sim_def initial_system_def by auto
  ultimately show ?thesis by (blast intro: reachable.start)
qed

lemma sim_restart:
  assumes E: "serde_ok E" and S: "sim W cfgs \<sigma> c" and r: "reachable E c" and d: "daemons \<sigma> n = Some d"
    and d': "start_daemon E (config (d_node d)) (data_dir (log (d_node d))) up now = Inr d'"
  shows "\<exists>c'. reachable E c' \<and>
    sim W cfgs (\<sigma>\<lparr>daemons := (daemons \<sigma>)(n \<mapsto> d'), old_streams := old_streams \<sigma> @ streams (d_network d)\<rparr>) c'"
proof -
  have m: "members c n = Some (idle (d_node d))" by (rule simD(1) [OF S d])
  have cfg: "cfgs n = Some (config (d_node d))" using simD(2) [OF S d] by (simp add: daemon_ok_def)
  have "member_ok E n (idle (d_node d))" using inv_reachable [OF r E] m by (simp add: cluster_inv_def)
  then have sy: "synced E (log (d_node d))" by (simp add: member_ok_def)
  note n = start_daemon_node [OF d']
  note ok = start_daemon_ok [where cfgs = cfgs and n = n, OF E d' new_node_synced(1) [OF E sy n] cfg]
  let ?c = "c\<lparr>members := (members c)(n \<mapsto> d_node d')\<rparr>"
  have "cluster_step E c ?c" using cluster_step.crash_restart [OF m, of E now "d_node d'"] n by simp
  with r have "reachable E ?c" by (rule reachable.step)
  moreover have "sim W cfgs (\<sigma>\<lparr>daemons := (daemons \<sigma>)(n \<mapsto> d'), old_streams := old_streams \<sigma> @ streams (d_network d)\<rparr>) ?c"
    by (rule sim_update [OF S d]) (use ok in simp_all)
  ultimately show ?thesis by blast
qed

lemma sim_step:
  assumes E: "serde_ok E" and W: "wire_ok W" "wire_fits W" and wa: "well_addressed route cfgs"
    and S: "sim W cfgs \<sigma> c" and r: "reachable E c" and st: "system_step E W route \<sigma> \<sigma>'"
  shows "\<exists>c'. reachable E c' \<and> sim W cfgs \<sigma>' c'"
  using st
proof (cases rule: system_step.cases)
  case (timer_or_client n d ev)
  then have "enabled E c (idle (d_node d)) ev" "event_typed ev"
    by (auto simp: enabled_def local_ok_def event_typed_def split: node_event.splits)
  from sim_event [OF E S r timer_or_client(2) this] timer_or_client(1) show ?thesis by (auto simp: local_step_def)
next
  case (time_passes n d now)
  let ?c = "c\<lparr>members := (members c)(n \<mapsto> (idle (d_node d))\<lparr>clock := now\<rparr>)\<rparr>"
  have i: "idle ((d_node d)\<lparr>clock := now\<rparr>) = (idle (d_node d))\<lparr>clock := now\<rparr>" by simp
  have "reachable E ?c"
    using reachable.step [OF r cluster_step.time_passes [OF simD(1) [OF S time_passes(2)]]] .
  moreover have "sim W cfgs \<sigma>' ?c"
    by (rule sim_update [OF S time_passes(2)])
      (use simD(2) [OF S time_passes(2)] time_passes(1) in \<open>simp_all add: daemon_ok_def node_typed_def i del: fun_upd_apply\<close>)
  ultimately show ?thesis by blast
next
  case (send n d)
  with sim_send [OF W(2) S send(2)] r show ?thesis by auto
next
  case (environment n d nev)
  have "sim W cfgs \<sigma>' c"
    by (rule sim_stutter [OF S environment(2)])
      (use simD(2) [OF S environment(2)] environment(1,3) net_ok_environment in \<open>simp_all add: daemon_ok_def\<close>)
  with r show ?thesis by blast
next
  case (accept n d)
  have "inbound_for W S n \<lparr>taken = [], buffered = []\<rparr>" for S n
    by (auto simp: inbound_for_def inbound_ok_def intro!: exI [of _ "[]"])
  then have "sim W cfgs \<sigma>' c"
    by (intro sim_stutter [OF S accept(2), where d' = "accept_step d"])
      (use simD(2) [OF S accept(2)] accept(1) in \<open>auto simp: accept_step_def daemon_ok_def\<close>)
  with r show ?thesis by blast
next
  case (read n d i conn st bs)
  from sim_read [OF E W(1) wa S r read(2-6)] read(1) show ?thesis by simp
next
  case (crash_restart n d up now d')
  from sim_restart [OF E S r crash_restart(2,3)] crash_restart(1) show ?thesis by simp
qed

end
