(* ===== verification/Daemon_Properties.thy ===== *)
theory Daemon_Properties
  imports Daemon_Refinement
begin

text \<open>
  What the simulation gives: the daemons implement the cluster, with a run of two daemons in which a
  request for a vote goes over the wire.  And the start of a daemon on the directory of an earlier one.
\<close>

section \<open>The daemons implement the cluster\<close>

text \<open>
  C4: the daemons implement the cluster.  Suppose that every envelope within the source's containers
  fits a frame, and that an address configured for a peer leads to that peer or to no daemon of the
  system.  Then whatever a system of daemons does, its nodes are those of a reachable cluster, every
  message in a channel is one that this cluster has sent, every stream carries, frame after frame, sent
  messages for the one node that its address can lead to (the last one may be cut off when the
  connection has failed), and what a connection has taken in is the start of sent messages for the
  node that reads it.  So framing, the connection cache, reads of any size, failing connections and
  restarts neither invent a message nor bring one to another node.
\<close>

theorem daemons_refine_cluster:
  assumes "serde_ok E" "wire_ok W" "wire_fits W" "well_addressed route cfgs" "system_reachable E W route cfgs \<sigma>"
  shows "\<exists>c. reachable E c \<and> (\<forall>n. members c n = map_option (\<lambda>d. (d_node d)\<lparr>outgoing := []\<rparr>) (daemons \<sigma> n)) \<and>
    (\<forall>n d. daemons \<sigma> n = Some d \<longrightarrow> set (outgoing (d_node d)) \<subseteq> set (cluster.sent c) \<and>
      (\<forall>conn. Some conn \<in> set (d_inbound d) \<longrightarrow> inbound_for W (set (cluster.sent c)) n conn)) \<and>
    (\<forall>st. st \<in> set (old_streams \<sigma>) \<or> (\<exists>n d. daemons \<sigma> n = Some d \<and> st \<in> set (streams (d_network d))) \<longrightarrow>
      (\<exists>p. stream_for W (set (cluster.sent c)) p st \<and> (\<forall>m. route (remote st) = Some m \<longrightarrow> m = p)))"
proof -
  have "\<exists>c. reachable E c \<and> sim W cfgs \<sigma> c"
    using assms(5)
  proof (induction rule: system_reachable.induct)
    case (start \<sigma>)
    with sim_initial [OF assms(1,4)] show ?case by blast
  next
    case (step \<sigma> \<sigma>')
    with sim_step [OF assms(1-4)] show ?case by blast
  qed
  then obtain c where c: "reachable E c" "sim W cfgs \<sigma> c" by blast
  have to: "m = p" if "addressed cfgs p a" "route a = Some m" for p a m
    using assms(4) that unfolding well_addressed_def addressed_def by blast
  note D = simD(2) [OF c(2), unfolded daemon_ok_def net_ok_def]
  have st: "\<exists>p. stream_for W (set (cluster.sent c)) p st \<and> (\<forall>m. route (remote st) = Some m \<longrightarrow> m = p)"
    if "st \<in> set (old_streams \<sigma>) \<or> (\<exists>n d. daemons \<sigma> n = Some d \<and> st \<in> set (streams (d_network d)))" for st
    using that D simD(4) [OF c(2)] to by meson
  have "members c n = map_option (\<lambda>d. (d_node d)\<lparr>outgoing := []\<rparr>) (daemons \<sigma> n)" for n
    using c(2) by (simp add: sim_def)
  with c(1) D st show ?thesis by blast
qed

section \<open>Two daemons\<close>

definition pair_config :: "string \<Rightarrow> string \<Rightarrow> string \<Rightarrow> string \<Rightarrow> config" where
  "pair_config n address other other_address =
     \<lparr>cfg_server = \<lparr>cfg_node_id = n, cfg_listen_addr = address, cfg_data_dir = default_data_dir,
                     cfg_log_level = default_log_level\<rparr>,
      cfg_timing = default_timing, cfg_peers = [\<lparr>pc_id = other, pc_address = other_address\<rparr>],
      cfg_ebpf = default_ebpf\<rparr>"

text \<open>Both listen on all interfaces, as in the repository's files, and are dialled by their own address.\<close>

abbreviation "config_a \<equiv> pair_config ''a'' ''0.0.0.0:5555'' ''b'' ''h:2''"
abbreviation "config_b \<equiv> pair_config ''b'' ''0.0.0.0:5555'' ''a'' ''h:1''"

definition pair_route :: routing where
  "pair_route = [''h:1'' \<mapsto> ''a'', ''h:2'' \<mapsto> ''b'']"

definition pair_configs :: "string \<rightharpoonup> config" where
  "pair_configs = [''a'' \<mapsto> config_a, ''b'' \<mapsto> config_b]"

definition pair_node :: "config \<Rightarrow> node" where
  "pair_node c = \<lparr>node_id = cfg_node_id (cfg_server c), config = c, role = Follower, log = grown_log [],
     machine = new_state_machine, commit_index = 0, last_applied = 0, leader_id = None,
     peers = initial_peers serde_ref c, next_index = [], match_index = [], votes_received = [],
     last_heartbeat = 0, outgoing = [], pending_requests = [], log_locked = False, clock = 0, replies = []\<rparr>"

definition pair_daemon :: "config \<Rightarrow> string list \<Rightarrow> daemon" where
  "pair_daemon c up = \<lparr>d_node = pair_node c, d_network = main_network c up, d_inbound = []\<rparr>"

lemma pair_start: "start_daemon serde_ref c no_files up 0 = Inr (pair_daemon c up)"
  by (simp add: start_daemon_def new_node_def no_files_def new_raft_log_fresh pair_daemon_def pair_node_def fresh_grown)

definition pair_vote :: message_envelope where
  "pair_vote = vote_req ''a'' ''b'' 1 0 0"

definition pair_wire :: wire where
  "pair_wire = wire_of [pair_vote]"

lemma pair_addressed: "well_addressed pair_route pair_configs"
  by (auto simp: well_addressed_def pair_configs_def pair_config_def pair_route_def split: if_splits)

lemma pair_wire: "wire_ok pair_wire" "wire_fits pair_wire" "envelope_to_json pair_wire pair_vote = Some [0]"
  by (simp_all add: pair_wire_def wire_of_ok) (auto simp: wire_of_def wire_fits_def MAX_MESSAGE_SIZE_def)

text \<open>The daemons of the run: \<open>a\<close> times out and sends its request, \<open>b\<close> accepts and reads it.\<close>

definition "daemon_a = pair_daemon config_a [''h:2'']"
definition "daemon_b = pair_daemon config_b [''h:1'']"
definition "daemon_a1 = daemon_a\<lparr>d_node := (d_node daemon_a)\<lparr>clock := 1000\<rparr>\<rparr>"
definition "daemon_a2 = local_step serde_ref (ElectionTimer 150) daemon_a1"
definition "daemon_a3 = send_step pair_wire daemon_a2"
definition "daemon_b1 = accept_step daemon_b"
definition "daemon_b2 = read_step pair_wire serde_ref 0 \<lparr>taken = [], buffered = []\<rparr> [0, 0, 0, 1, 0] daemon_b1"

lemma pair_election: "outgoing (d_node daemon_a2) = [pair_vote]" "d_network daemon_a2 = main_network config_a [''h:2'']"
  by (simp_all add: daemon_a2_def daemon_a1_def local_step_def daemon_a_def pair_daemon_def)
    (simp add: pair_node_def pair_config_def initial_peers_def run_defs msg_defs pair_vote_def)

lemma pair_frame: "frame [0] = [0, 0, 0, 1, 0]"
  by (simp add: frame_def to_be_bytes_def)

lemma pair_sent: "streams (d_network daemon_a3) = [\<lparr>remote = ''h:2'', sent = [0, 0, 0, 1, 0], room = None\<rparr>]"
proof -
  have "hm_get (peer_addresses (main_network config_a [''h:2''])) ''b'' = Some ''h:2''"
    by (simp add: pair_config_def main_network_def register_peer_def new_network_def hm_simps)
  moreover have "hm_get [] ''b'' = None" by (simp add: hm_get_def)
  moreover have "env_to pair_vote = ''b''" by (simp add: pair_vote_def vote_req_def)
  ultimately have "send_message pair_wire (env_to pair_vote) pair_vote (main_network config_a [''h:2'']) =
    write_all 0 (frame [0]) ((main_network config_a [''h:2''])
      \<lparr>streams := [\<lparr>remote = ''h:2'', sent = [], room = None\<rparr>],
       connections := hm_insert ''b'' 0 []\<rparr>)"
    using send_new [of "main_network config_a [''h:2'']" "''b''" "''h:2''" pair_wire pair_vote "[0]"] pair_wire(3) by simp
  then show ?thesis
    by (simp add: daemon_a3_def send_step_def pair_election net_step_def write_all_alive pair_frame)
qed

lemma pair_voted: "log_voted_for (log (d_node daemon_b2)) = Some ''a''"
proof -
  have b: "[] @ [0, 0, 0, 1, 0] = bytes_of pair_wire [pair_vote] @ []"
    using pair_wire(3) by (simp add: bytes_of_Cons pair_frame)
  have "process_frames pair_wire serde_ref ([] @ [0, 0, 0, 1, 0]) =
      seq (for_each [pair_vote] (\<lambda>env. logged (handle_message serde_ref env))) (ret (Some []))"
    unfolding b
    using process_encoded [OF pair_wire(1), of "[pair_vote]" serde_ref "[]"] pair_wire(3)
    by (simp add: payload_ok_def MAX_MESSAGE_SIZE_def)
  then show ?thesis
    by (simp add: daemon_b2_def daemon_b1_def accept_step_def daemon_b_def pair_daemon_def read_step_def
        pair_node_def pair_config_def initial_peers_def pair_vote_def logged_def run_defs msg_defs)
qed

definition pair_system :: "daemon \<Rightarrow> daemon \<Rightarrow> system" where
  "pair_system x y = \<lparr>daemons = [''a'' \<mapsto> x, ''b'' \<mapsto> y], old_streams = []\<rparr>"

lemma pair_update:
  "(pair_system x y)\<lparr>daemons := (daemons (pair_system x y))(''a'' \<mapsto> z)\<rparr> = pair_system z y"
  "(pair_system x y)\<lparr>daemons := (daemons (pair_system x y))(''b'' \<mapsto> z)\<rparr> = pair_system x z"
  "daemons (pair_system x y) ''a'' = Some x" "daemons (pair_system x y) ''b'' = Some y"
  by (auto simp: pair_system_def)

lemma pair_run: "system_reachable serde_ref pair_wire pair_route pair_configs (pair_system daemon_a3 daemon_b2)"
proof -
  let ?R = "system_reachable serde_ref pair_wire pair_route pair_configs"
  note go = system_reachable.step [where E = serde_ref and W = pair_wire and route = pair_route and cfgs = pair_configs]
  have "?R (pair_system daemon_a daemon_b)"
  proof (rule system_reachable.start)
    have "\<exists>c up now. pair_configs n = Some c \<and> start_daemon serde_ref c no_files up now = Inr d"
      if "daemons (pair_system daemon_a daemon_b) n = Some d" for n d
      using that pair_start
      by (auto simp: pair_system_def pair_configs_def daemon_a_def daemon_b_def split: if_splits)
    then show "initial_system serde_ref pair_configs (pair_system daemon_a daemon_b)"
      by (simp add: initial_system_def) (simp add: pair_system_def)
  qed
  from go [OF this system_step.time_passes [OF pair_update(3), where now = 1000]]
  have "?R (pair_system daemon_a1 daemon_b)" by (simp add: pair_update daemon_a1_def)
  moreover have "local_ok (d_node daemon_a1) (ElectionTimer 150)"
    by (simp add: local_ok_def daemon_a1_def daemon_a_def pair_daemon_def pair_node_def run_defs)
  ultimately have "?R (pair_system daemon_a2 daemon_b)"
    using go [OF _ system_step.timer_or_client [OF pair_update(3)]] by (simp add: pair_update daemon_a2_def)
  from go [OF this system_step.send [OF pair_update(3)]]
  have "?R (pair_system daemon_a3 daemon_b)" by (simp add: pair_update daemon_a3_def)
  from go [OF this system_step.accept [OF pair_update(4)]]
  have r: "?R (pair_system daemon_a3 daemon_b1)" by (simp add: pair_update daemon_b1_def)
  have i: "0 < length (d_inbound daemon_b1)" "d_inbound daemon_b1 ! 0 = Some \<lparr>taken = [], buffered = []\<rparr>"
    by (simp_all add: daemon_b1_def accept_step_def daemon_b_def pair_daemon_def)
  have "stream_to pair_route (pair_system daemon_a3 daemon_b1) ''b'' \<lparr>remote = ''h:2'', sent = [0, 0, 0, 1, 0], room = None\<rparr>"
    using pair_sent by (auto simp: stream_to_def pair_system_def pair_route_def)
  from go [OF r system_step.read [OF pair_update(4) i this, where bs = "[0, 0, 0, 1, 0]"]]
  show ?thesis by (simp add: pair_update daemon_b2_def)
qed

lemma daemons_refine_cluster_witness:
  "\<exists>c s. reachable serde_ref c \<and> members c ''b'' = Some s \<and> log_voted_for (log s) = Some ''a'' \<and>
     system_reachable serde_ref pair_wire pair_route pair_configs (pair_system daemon_a3 daemon_b2) \<and>
     stream_for pair_wire (set (cluster.sent c)) ''b'' \<lparr>remote = ''h:2'', sent = [0, 0, 0, 1, 0], room = None\<rparr>"
proof -
  let ?st = "\<lparr>remote = ''h:2'', sent = [0, 0, 0, 1, 0], room = None\<rparr> :: stream"
  obtain c where c: "reachable serde_ref c"
    "\<forall>n. members c n = map_option (\<lambda>d. (d_node d)\<lparr>outgoing := []\<rparr>) (daemons (pair_system daemon_a3 daemon_b2) n)"
    "\<forall>st. (\<exists>n d. daemons (pair_system daemon_a3 daemon_b2) n = Some d \<and> st \<in> set (streams (d_network d))) \<longrightarrow>
      (\<exists>p. stream_for pair_wire (set (cluster.sent c)) p st \<and> (\<forall>m. pair_route (remote st) = Some m \<longrightarrow> m = p))"
    using daemons_refine_cluster [OF serde_ref_ok pair_wire(1,2) pair_addressed pair_run] by blast
  have "?st \<in> set (streams (d_network daemon_a3))" "pair_route (remote ?st) = Some ''b''"
    using pair_sent by (simp_all add: pair_route_def)
  with c(3) pair_update(3) have "stream_for pair_wire (set (cluster.sent c)) ''b'' ?st" by blast
  moreover have "members c ''b'' = Some ((d_node daemon_b2)\<lparr>outgoing := []\<rparr>)"
    using c(2) [rule_format, of "''b''"] by (simp add: pair_update)
  ultimately show ?thesis using c(1) pair_voted pair_run by (intro exI [of _ c]) auto
qed

section \<open>Restart\<close>

lemma peer_address_of:
  "hm_get (peer_addresses (main_network c up)) p =
     map_of (rev (map (\<lambda>pc. (pc_id pc, pc_address pc)) (cfg_peers c))) p"
proof -
  have r: "hm_get (peer_addresses (fold (\<lambda>pc. register_peer (pc_id pc) (pc_address pc)) ps net)) p =
      (case map_of (rev (map (\<lambda>pc. (pc_id pc, pc_address pc)) ps)) p of
         None \<Rightarrow> hm_get (peer_addresses net) p | Some a \<Rightarrow> Some a)" for ps net
    by (induction ps arbitrary: net)
      (auto simp: register_peer_def hm_simps map_add_def split: option.splits)
  show ?thesis by (simp add: main_network_def r new_network_def split: option.split)
qed

text \<open>
  C35: a daemon that is started again with its configuration file, on the directory an earlier run has
  left, comes up as a follower with the earlier log, term and vote; it will dial every configured peer at
  the address the file gives for it (the last one, if the file names a peer twice) and no other node; its
  socket is named after its identifier; the commit index is zero and the key-value map is empty until a
  leader commits again.
\<close>

theorem daemon_restarts:
  assumes "serde_ok E" "synced E l" "load_config parse_toml read_file path = Some c" "dirs (node_data_dir c) = data_dir l"
  shows "\<exists>d. main_daemon E parse_toml read_file dirs path up now = Inr (d, ''/tmp/raft-'' @ cfg_node_id (cfg_server c) @ ''.sock'') \<and>
    log_view (log (d_node d)) = log_view l \<and> role (d_node d) = Follower \<and> commit_index (d_node d) = 0 \<and>
    machine (d_node d) = new_state_machine \<and>
    (\<forall>p. hm_get (peer_addresses (d_network d)) p =
       map_of (rev (map (\<lambda>pc. (pc_id pc, pc_address pc)) (cfg_peers c))) p)"
proof -
  from new_raft_log_synced [OF assms(1,2)] obtain l' where l': "new_raft_log E (data_dir l) = (Ret (), l')"
    "log_view l' = log_view l" by blast
  then obtain s where s: "new_node E c (data_dir l) now = Inr s" "log s = l'" "role s = Follower"
    "commit_index s = 0" "machine s = new_state_machine"
    by (auto simp: new_node_def)
  then have "start_daemon E c (dirs (node_data_dir c)) up now = Inr \<lparr>d_node = s, d_network = main_network c up, d_inbound = []\<rparr>"
    by (simp add: start_daemon_def assms(4))
  with s l'(2) assms(3) show ?thesis
    by (intro exI [of _ "\<lparr>d_node = s, d_network = main_network c up, d_inbound = []\<rparr>"])
      (simp add: main_daemon_def ipc_socket_path_def peer_address_of)
qed

definition pair_doc :: config_doc where
  "pair_doc = \<lparr>doc_server = Some \<lparr>doc_node_id = Some ''a'', doc_listen_addr = Some ''0.0.0.0:5555'', doc_data_dir = None, doc_log_level = None\<rparr>,
     doc_timing = None,
     doc_peers = Some [\<lparr>doc_peer_id = Some ''b'', doc_peer_address = Some ''h:2''\<rparr>], doc_ebpf = None\<rparr>"

lemma daemon_restarts_witness:
  "\<exists>d. main_daemon serde_ref (\<lambda>t. Some pair_doc) (\<lambda>p. Some ''text'')
      ((\<lambda>p. no_files)(''/var/lib/raft/a'' := data_dir two_terms)) ''node.toml'' [] 7 = Inr (d, ''/tmp/raft-a.sock'') \<and>
    entries (log (d_node d)) 2 = Some \<lparr>index = 2, entry_term = 1, command = Noop\<rparr> \<and>
    hm_get (peer_addresses (d_network d)) ''b'' = Some ''h:2'' \<and> hm_get (peer_addresses (d_network d)) ''c'' = None"
proof -
  have c: "load_config (\<lambda>t. Some pair_doc) (\<lambda>p. Some ''text'') ''node.toml'' = Some config_a"
    by (simp add: load_config_def config_of_doc_def pair_doc_def server_of_doc_def peer_of_doc_def default_or_def
        pair_config_def)
  have "node_data_dir config_a = ''/var/lib/raft/a''"
    by (simp add: node_data_dir_def path_join_def pair_config_def default_data_dir_def)
  then have "((\<lambda>p. no_files)(''/var/lib/raft/a'' := data_dir two_terms)) (node_data_dir config_a) = data_dir two_terms"
    by simp
  from daemon_restarts [where dirs = "(\<lambda>p. no_files)(''/var/lib/raft/a'' := data_dir two_terms)" and up = "[]" and now = 7,
      OF serde_ref_ok two_terms(1) c this] obtain d where d:
    "main_daemon serde_ref (\<lambda>t. Some pair_doc) (\<lambda>p. Some ''text'')
      ((\<lambda>p. no_files)(''/var/lib/raft/a'' := data_dir two_terms)) ''node.toml'' [] 7 = Inr (d, ''/tmp/raft-a.sock'')"
    "log_view (log (d_node d)) = log_view two_terms"
    "\<forall>p. hm_get (peer_addresses (d_network d)) p =
       map_of (rev (map (\<lambda>pc. (pc_id pc, pc_address pc)) (cfg_peers config_a))) p"
    by (auto simp: pair_config_def)
  from d(3) have "hm_get (peer_addresses (d_network d)) ''b'' = Some ''h:2''"
    "hm_get (peer_addresses (d_network d)) ''c'' = None" by (simp_all add: pair_config_def)
  with d(1) log_of_view [OF d(2) [unfolded two_terms(2)]] show ?thesis by (intro exI [of _ d]) simp
qed

text \<open>Two daemons of one host with different identifiers share neither directory nor socket.\<close>

lemma own_paths:
  assumes "cfg_node_id (cfg_server c) \<noteq> cfg_node_id (cfg_server d)" "cfg_data_dir (cfg_server c) = cfg_data_dir (cfg_server d)"
    and "take 1 (cfg_node_id (cfg_server c)) \<noteq> ''/''" "take 1 (cfg_node_id (cfg_server d)) \<noteq> ''/''"
  shows "node_data_dir c \<noteq> node_data_dir d" "ipc_socket_path c \<noteq> ipc_socket_path d"
proof -
  have "path_join a b = (if a = [] \<or> List.last a = CHR ''/'' then a @ b else a @ ''/'' @ b)" if "take 1 b \<noteq> ''/''" for a b
    using that by (cases b) (auto simp: path_join_def split: char.splits bool.splits)
  with assms show "node_data_dir c \<noteq> node_data_dir d" by (simp add: node_data_dir_def)
  show "ipc_socket_path c \<noteq> ipc_socket_path d" using assms(1) by (simp add: ipc_socket_path_def)
qed

end
