(* ===== verification/Locks.thy ===== *)
theory Locks
  imports Prelude
begin

text \<open>
  The order in which tasks of one node take its locks.  \<open>Node\<close> runs a handler as one operation; here the
  methods of \<open>raft/src/node.rs\<close> are the sequences of their lock operations, one for every way through the
  method, and tasks interleave at every \<open>await\<close>.  A guard that is a local variable is held to its
  \<open>drop\<close> or to the end of its block; a temporary of a statement or of a condition only that long; a
  temporary of a method's final expression is released after the local variables.  The log, the state
  machine and the pending requests are mutexes, the others are read-write locks; the locks of \<open>tokio\<close> are
  fair: who asks while another waits is queued behind it, also a reader behind a writer.
\<close>

datatype lock = LogLock | StateMachineLock | PendingLock | RoleLock | CommitIndexLock | LastAppliedLock
  | LeaderIdLock | PeersLock | NextIndexLock | MatchIndexLock | VotesLock | HeartbeatLock

datatype lock_mode = Shared | Exclusive

datatype lock_action = Acquire lock lock_mode | ReleaseLock lock

section \<open>Interleaving\<close>

text \<open>The tasks' remaining actions; the guards, who holds which lock how; who waits, oldest first.\<close>

record lock_state =
  tasks :: "lock_action list list"
  guards :: "(nat \<times> lock \<times> lock_mode) list"
  waiters :: "(nat \<times> lock) list"

definition compatible :: "lock_mode \<Rightarrow> lock_mode \<Rightarrow> bool" where
  "compatible a b \<longleftrightarrow> a = Shared \<and> b = Shared"

definition free_for :: "lock \<Rightarrow> lock_mode \<Rightarrow> lock_state \<Rightarrow> bool" where
  "free_for l m st \<longleftrightarrow> list_all (\<lambda>(_, l', m'). l' = l \<longrightarrow> compatible m m') (guards st)"

definition may_enter :: "nat \<Rightarrow> lock \<Rightarrow> lock_mode \<Rightarrow> lock_state \<Rightarrow> bool" where
  "may_enter i l m st \<longleftrightarrow> free_for l m st \<and>
     (case find (\<lambda>w. snd w = l) (waiters st) of None \<Rightarrow> True | Some w \<Rightarrow> fst w = i)"

definition next_action :: "lock_state \<Rightarrow> nat \<Rightarrow> lock_action option" where
  "next_action st i = (if i < length (tasks st) then
     (case tasks st ! i of [] \<Rightarrow> None | a # _ \<Rightarrow> Some a) else None)"

text \<open>A task can take its next action, or it can queue for the lock it asks for.\<close>

definition ready :: "lock_state \<Rightarrow> nat \<Rightarrow> bool" where
  "ready st i \<longleftrightarrow> (case next_action st i of
       None \<Rightarrow> False
     | Some (Acquire l m) \<Rightarrow> may_enter i l m st \<or> (i, l) \<notin> set (waiters st)
     | Some (ReleaseLock l) \<Rightarrow> True)"

definition pop_task :: "nat \<Rightarrow> lock_state \<Rightarrow> lock_state" where
  "pop_task i st = st\<lparr>tasks := (tasks st)[i := tl (tasks st ! i)]\<rparr>"

definition advance :: "nat \<Rightarrow> lock_state \<Rightarrow> lock_state" where
  "advance i st = (case next_action st i of
       None \<Rightarrow> st
     | Some (Acquire l m) \<Rightarrow>
         if may_enter i l m st then
           (pop_task i st)\<lparr>guards := (i, l, m) # guards st, waiters := filter (\<lambda>w. w \<noteq> (i, l)) (waiters st)\<rparr>
         else if (i, l) \<in> set (waiters st) then st
         else st\<lparr>waiters := waiters st @ [(i, l)]\<rparr>
     | Some (ReleaseLock l) \<Rightarrow>
         (pop_task i st)\<lparr>guards := filter (\<lambda>(j, l', _). \<not> (j = i \<and> l' = l)) (guards st)\<rparr>)"

definition start_tasks :: "lock_action list list \<Rightarrow> lock_state" where
  "start_tasks ts = \<lparr>tasks = ts, guards = [], waiters = []\<rparr>"

definition run_schedule :: "nat list \<Rightarrow> lock_state \<Rightarrow> lock_state" where
  "run_schedule is st = fold advance is st"

definition finished :: "lock_state \<Rightarrow> bool" where
  "finished st \<longleftrightarrow> list_all (\<lambda>t. t = []) (tasks st)"

definition deadlocked :: "lock_state \<Rightarrow> bool" where
  "deadlocked st \<longleftrightarrow> \<not> finished st \<and> list_all (\<lambda>i. \<not> ready st i) [0..<length (tasks st)]"

lemma advance_not_ready: "\<not> ready st i \<Longrightarrow> advance i st = st"
  by (auto simp: ready_def advance_def split: option.splits lock_action.splits)

lemma not_ready_beyond: "length (tasks st) \<le> i \<Longrightarrow> \<not> ready st i"
  by (simp add: ready_def next_action_def)

lemma deadlocked_ready: "deadlocked st \<Longrightarrow> \<not> ready st i"
  using not_ready_beyond [of st i] by (cases "i < length (tasks st)") (auto simp: deadlocked_def list_all_iff)

lemma deadlocked_stays: "deadlocked st \<Longrightarrow> run_schedule is st = st"
  by (induction "is") (simp_all add: run_schedule_def advance_not_ready deadlocked_ready)

lemma run_schedule_Cons: "run_schedule (i # is) st = run_schedule is (advance i st)"
  by (simp add: run_schedule_def)

lemma run_schedule_append: "run_schedule (is @ js) st = run_schedule js (run_schedule is st)"
  by (simp add: run_schedule_def)

section \<open>The methods\<close>

definition touch :: "lock \<Rightarrow> lock_mode \<Rightarrow> lock_action list" where
  "touch l m = [Acquire l m, ReleaseLock l]"

definition guarding :: "lock \<Rightarrow> lock_mode \<Rightarrow> lock_action list \<Rightarrow> lock_action list" where
  "guarding l m body = Acquire l m # body @ [ReleaseLock l]"

text \<open>A sequence of parts, each with its alternatives.\<close>

definition ways :: "lock_action list list list \<Rightarrow> lock_action list list" where
  "ways parts = map concat (product_lists parts)"

definition maybe :: "lock_action list \<Rightarrow> lock_action list list" where
  "maybe p = [[], p]"

definition apply_committed_entries_locks :: "lock_action list" where
  "apply_committed_entries_locks =
     touch CommitIndexLock Shared @
     guarding LastAppliedLock Exclusive (guarding LogLock Exclusive (guarding StateMachineLock Exclusive []))"

definition get_status_locks :: "lock_action list" where
  "get_status_locks =
     [Acquire LogLock Exclusive, Acquire PeersLock Shared,
      Acquire RoleLock Shared, Acquire CommitIndexLock Shared, Acquire LastAppliedLock Shared,
      Acquire LeaderIdLock Shared,
      ReleaseLock PeersLock, ReleaseLock LogLock,
      ReleaseLock LeaderIdLock, ReleaseLock LastAppliedLock, ReleaseLock CommitIndexLock, ReleaseLock RoleLock]"

definition send_heartbeats_locks :: "lock_action list list" where
  "send_heartbeats_locks =
     [touch RoleLock Shared,
      touch RoleLock Shared @
      guarding LogLock Exclusive
        (touch CommitIndexLock Shared @ guarding PeersLock Shared (guarding NextIndexLock Shared []))]"

definition try_advance_commit_index_locks :: "lock_action list list" where
  "try_advance_commit_index_locks =
     [touch RoleLock Shared,
      touch RoleLock Shared @
      guarding LogLock Exclusive
        (touch CommitIndexLock Shared @ guarding MatchIndexLock Shared (guarding PeersLock Shared [])),
      touch RoleLock Shared @
      [Acquire LogLock Exclusive] @ touch CommitIndexLock Shared @
      [Acquire MatchIndexLock Shared, Acquire PeersLock Shared,
       ReleaseLock MatchIndexLock, ReleaseLock PeersLock, ReleaseLock LogLock] @
      touch CommitIndexLock Exclusive @ apply_committed_entries_locks @ touch PendingLock Exclusive]"

definition become_leader_locks :: "lock_action list list" where
  "become_leader_locks = ways
     [[touch RoleLock Exclusive @ touch LeaderIdLock Exclusive @ touch LogLock Exclusive @
       [Acquire PeersLock Shared, Acquire NextIndexLock Exclusive, Acquire MatchIndexLock Exclusive,
        ReleaseLock NextIndexLock, ReleaseLock MatchIndexLock, ReleaseLock PeersLock]],
      send_heartbeats_locks]"

text \<open>
  \<open>handle_append_entries\<close>: what both rejections do, which send the answer while they hold the log, and
  the other ways, ends by a failing system call included.
\<close>

definition rejected_append_locks :: "lock_action list list" where
  "rejected_append_locks = ways
     [[[Acquire LogLock Exclusive]],
      [] # ways [maybe (touch RoleLock Exclusive), [touch HeartbeatLock Exclusive @ touch LeaderIdLock Exclusive]],
      [touch LogLock Exclusive @ [ReleaseLock LogLock]]]"

definition handle_append_entries_locks :: "lock_action list list" where
  "handle_append_entries_locks =
     guarding LogLock Exclusive [] #
     ways
       [[[Acquire LogLock Exclusive]],
        maybe (touch RoleLock Exclusive),
        [touch HeartbeatLock Exclusive @ touch LeaderIdLock Exclusive],
        [ReleaseLock LogLock] #
        ways
          [[touch CommitIndexLock Shared],
           maybe (touch CommitIndexLock Exclusive),
           [[ReleaseLock LogLock] @ apply_committed_entries_locks @ touch LogLock Exclusive]]]"

definition step_down_locks :: "lock_action list list" where
  "step_down_locks =
     [guarding LogLock Exclusive (touch RoleLock Shared) @ guarding LogLock Exclusive [],
      guarding LogLock Exclusive (touch RoleLock Shared) @ guarding LogLock Exclusive (touch RoleLock Exclusive)]"

definition handle_append_entries_response_locks :: "lock_action list list" where
  "handle_append_entries_response_locks =
     [guarding LogLock Exclusive (touch RoleLock Shared)] @ step_down_locks @
     ways
       [[[Acquire LogLock Exclusive] @ touch RoleLock Shared @
         [Acquire NextIndexLock Exclusive, Acquire MatchIndexLock Exclusive,
          ReleaseLock NextIndexLock, ReleaseLock MatchIndexLock, ReleaseLock LogLock]],
        try_advance_commit_index_locks] @
     [guarding LogLock Exclusive (touch RoleLock Shared @ guarding NextIndexLock Exclusive [])]"

definition handle_request_vote_locks :: "lock_action list list" where
  "handle_request_vote_locks =
     ways [[[Acquire LogLock Exclusive]], maybe (touch RoleLock Exclusive), maybe (touch HeartbeatLock Exclusive),
       [[ReleaseLock LogLock]]]"

text \<open>The ways of an election are given apart: those on which the node does not win, and those on which it does.\<close>

definition handle_request_vote_response_locks :: "lock_action list list" where
  "handle_request_vote_response_locks =
     [guarding LogLock Exclusive (touch RoleLock Shared)] @ step_down_locks @
     [guarding LogLock Exclusive (touch RoleLock Shared @ guarding VotesLock Exclusive (guarding PeersLock Shared []))]"

definition winning_vote_locks :: "lock_action list list" where
  "winning_vote_locks = ways
     [[[Acquire LogLock Exclusive] @ touch RoleLock Shared @
       [Acquire VotesLock Exclusive, Acquire PeersLock Shared,
        ReleaseLock VotesLock, ReleaseLock PeersLock, ReleaseLock LogLock]],
      become_leader_locks]"

definition campaign_locks :: "lock_action list" where
  "campaign_locks = touch RoleLock Exclusive @ touch VotesLock Exclusive @ touch HeartbeatLock Exclusive"

definition start_election_locks :: "lock_action list list" where
  "start_election_locks =
     [guarding LogLock Exclusive [],
      guarding LogLock Exclusive (campaign_locks @ guarding PeersLock Shared [])]"

definition lone_election_locks :: "lock_action list list" where
  "lone_election_locks = ways
     [[guarding LogLock Exclusive (campaign_locks @ guarding PeersLock Shared [])], become_leader_locks]"

definition propose_locks :: "lock_action list list" where
  "propose_locks =
     [touch RoleLock Shared @ touch LeaderIdLock Shared,
      touch RoleLock Shared @ guarding LogLock Exclusive []] @
     ways [[touch RoleLock Shared @ touch LogLock Exclusive @ touch PendingLock Exclusive], send_heartbeats_locks]"

definition add_peer_locks :: "lock_action list list" where
  "add_peer_locks = ways
     [[touch PeersLock Exclusive @ touch RoleLock Shared],
      maybe (guarding LogLock Exclusive (touch NextIndexLock Exclusive @ touch MatchIndexLock Exclusive))]"

definition remove_peer_locks :: "lock_action list" where
  "remove_peer_locks = touch PeersLock Exclusive @ touch NextIndexLock Exclusive @ touch MatchIndexLock Exclusive"

text \<open>The getters: \<open>current_term\<close>, \<open>role\<close>, \<open>time_since_heartbeat\<close>, \<open>get_value\<close> and \<open>get_messages\<close>.\<close>

definition getter_locks :: "lock_action list list" where
  "getter_locks = [touch LogLock Exclusive, touch RoleLock Shared, touch HeartbeatLock Shared,
     touch StateMachineLock Exclusive]"

text \<open>Every way through a method of a node without a status request, a rejected request or a won election.\<close>

definition regular_locks :: "lock_action list list" where
  "regular_locks = handle_append_entries_locks @ handle_append_entries_response_locks @ handle_request_vote_locks @
     handle_request_vote_response_locks @ start_election_locks @ send_heartbeats_locks @ propose_locks @
     add_peer_locks @ [remove_peer_locks] @ getter_locks"

lemmas path_defs = touch_def guarding_def ways_def maybe_def apply_committed_entries_locks_def get_status_locks_def
  send_heartbeats_locks_def try_advance_commit_index_locks_def become_leader_locks_def rejected_append_locks_def
  handle_append_entries_locks_def step_down_locks_def handle_append_entries_response_locks_def
  handle_request_vote_locks_def handle_request_vote_response_locks_def winning_vote_locks_def campaign_locks_def
  start_election_locks_def lone_election_locks_def propose_locks_def add_peer_locks_def remove_peer_locks_def
  getter_locks_def regular_locks_def

section \<open>Deadlocks\<close>

lemma schedule_to_deadlock:
  assumes "deadlocked (run_schedule is st)"
  shows "run_schedule (is @ later) st = run_schedule is st"
  by (simp add: run_schedule_append deadlocked_stays [OF assms])

text \<open>
  C34: A status request that arrives while entries are applied can stop the node for good: the request
  holds the log and waits for the last applied index, the apply holds that index and waits for the log,
  and no schedule moves either task again.  Each task alone runs to its end.
\<close>
theorem status_deadlocks_apply:
  "\<exists>schedule. \<forall>later. run_schedule (schedule @ later) (start_tasks [get_status_locks, apply_committed_entries_locks]) =
       run_schedule schedule (start_tasks [get_status_locks, apply_committed_entries_locks]) \<and>
     tasks (run_schedule schedule (start_tasks [get_status_locks, apply_committed_entries_locks])) =
       [drop 4 get_status_locks, drop 3 apply_committed_entries_locks] \<and>
     finished (run_schedule (replicate 12 0) (start_tasks [get_status_locks])) \<and>
     finished (run_schedule (replicate 8 0) (start_tasks [apply_committed_entries_locks]))"
proof (intro exI [of _ "[0, 0, 0, 1, 1, 1, 0, 0, 1]"] allI conjI)
  let ?st = "run_schedule [0, 0, 0, 1, 1, 1, 0, 0, 1] (start_tasks [get_status_locks, apply_committed_entries_locks])"
  have "deadlocked ?st" by code_simp
  then show "run_schedule ([0, 0, 0, 1, 1, 1, 0, 0, 1] @ later) (start_tasks [get_status_locks, apply_committed_entries_locks]) = ?st"
    for later by (rule schedule_to_deadlock)
  show "tasks ?st = [drop 4 get_status_locks, drop 3 apply_committed_entries_locks]" by code_simp
  show "finished (run_schedule (replicate 12 0) (start_tasks [get_status_locks]))" by code_simp
  show "finished (run_schedule (replicate 8 0) (start_tasks [apply_committed_entries_locks]))" by code_simp
qed

end
