(* ===== verification/Deadlock.thy ===== *)
theory Deadlock
  imports Locks
begin

text \<open>
  Which methods of a node can run beside each other.  The log acts as a gate: a task that waits while it
  holds a lock holds the log (or only the last applied index, and waits for the log).  Tasks that keep to
  this never block each other for good, in whatever order they take the locks behind the gate.
\<close>

section \<open>The discipline\<close>

definition admits :: "lock list \<Rightarrow> lock \<Rightarrow> lock_mode \<Rightarrow> bool" where
  "admits held l m \<longleftrightarrow> l \<notin> set held \<and> (l = LogLock \<longrightarrow> m = Exclusive) \<and>
     (held = [] \<or> (LogLock \<in> set held \<and> l \<noteq> LastAppliedLock) \<or> (held = [LastAppliedLock] \<and> l = LogLock))"

fun gated :: "lock list \<Rightarrow> lock_action list \<Rightarrow> bool" where
  "gated held [] \<longleftrightarrow> held = []"
| "gated held (Acquire l m # as) \<longleftrightarrow> admits held l m \<and> gated (l # held) as"
| "gated held (ReleaseLock l # as) \<longleftrightarrow> l \<in> set held \<and> gated (filter (\<lambda>x. x \<noteq> l) held) as"

lemma gated_append: "gated held p \<Longrightarrow> gated [] q \<Longrightarrow> gated held (p @ q)"
  by (induction held p rule: gated.induct) auto

lemma gated_concat: "\<forall>p \<in> set ps. gated [] p \<Longrightarrow> gated [] (concat ps)"
  by (induction ps) (simp_all add: gated_append)

lemma regular_gated: "list_all (gated []) regular_locks"
  by code_simp

section \<open>What holds in every state\<close>

definition held_by :: "lock_state \<Rightarrow> nat \<Rightarrow> lock list" where
  "held_by st i = map (\<lambda>(_, l, _). l) (filter (\<lambda>(j, _). j = i) (guards st))"

definition gate_inv :: "lock_state \<Rightarrow> bool" where
  "gate_inv st \<longleftrightarrow>
     (\<forall>i < length (tasks st). gated (held_by st i) (tasks st ! i)) \<and>
     (\<forall>i l m. (i, l, m) \<in> set (guards st) \<longrightarrow> i < length (tasks st)) \<and>
     (\<forall>i j m m'. (i, LogLock, m) \<in> set (guards st) \<longrightarrow> (j, LogLock, m') \<in> set (guards st) \<longrightarrow> i = j) \<and>
     (\<forall>i l. (i, l) \<in> set (waiters st) \<longrightarrow> i < length (tasks st) \<and> (\<exists>m as. tasks st ! i = Acquire l m # as))"

lemma next_action_some:
  "next_action st i = Some a \<longleftrightarrow> i < length (tasks st) \<and> (\<exists>as. tasks st ! i = a # as)"
  by (auto simp: next_action_def split: list.splits)

lemma in_held_by: "l \<in> set (held_by st i) \<longleftrightarrow> (\<exists>m. (i, l, m) \<in> set (guards st))"
  by (force simp: held_by_def)

lemma held_by_simps [simp]:
  "held_by (pop_task i st) j = held_by st j"
  "held_by (st\<lparr>guards := (i, l, m) # gs\<rparr>) j = (if j = i then [l] else []) @ held_by (st\<lparr>guards := gs\<rparr>) j"
  "held_by (st\<lparr>waiters := ws\<rparr>) j = held_by st j"
  by (simp_all add: held_by_def pop_task_def)

lemma held_by_release:
  "held_by (st\<lparr>guards := filter (\<lambda>(j, l', _). \<not> (j = i \<and> l' = l)) (guards st)\<rparr>) k =
     (if k = i then filter (\<lambda>x. x \<noteq> l) (held_by st k) else held_by st k)"
  by (auto simp: held_by_def filter_map comp_def intro!: arg_cong [where f = "map _"] filter_cong)

lemma start_gate_inv: "\<forall>t \<in> set ts. gated [] t \<Longrightarrow> gate_inv (start_tasks ts)"
  by (simp add: gate_inv_def start_tasks_def held_by_def)

lemma enter_gate_inv:
  assumes inv: "gate_inv st" and a: "next_action st i = Some (Acquire l m)" and free: "free_for l m st"
  shows "gate_inv ((pop_task i st)\<lparr>guards := (i, l, m) # guards st, waiters := filter (\<lambda>w. w \<noteq> (i, l)) (waiters st)\<rparr>)"
proof -
  from a obtain as where i: "i < length (tasks st)" and t: "tasks st ! i = Acquire l m # as"
    by (auto simp: next_action_some)
  from inv i have "gated (held_by st i) (tasks st ! i)" by (simp add: gate_inv_def)
  with t have ad: "admits (held_by st i) l m" and g: "gated (l # held_by st i) as" by auto
  have alone: "\<not> (j, LogLock, m') \<in> set (guards st)" if "l = LogLock" for j m'
    using ad free that by (auto simp: admits_def free_for_def compatible_def list_all_iff)
  let ?st' = "(pop_task i st)\<lparr>guards := (i, l, m) # guards st, waiters := filter (\<lambda>w. w \<noteq> (i, l)) (waiters st)\<rparr>"
  have h: "held_by ?st' k = (if k = i then l # held_by st k else held_by st k)" for k
    by (simp add: held_by_def)
  have "gated (held_by ?st' k) (tasks ?st' ! k)" if "k < length (tasks ?st')" for k
    using inv i g that unfolding h by (auto simp: gate_inv_def pop_task_def t nth_list_update)
  moreover have "k < length (tasks ?st') \<and> (\<exists>m as. tasks ?st' ! k = Acquire l' m # as)"
    if "(k, l') \<in> set (waiters ?st')" for k l'
  proof -
    from that inv have k: "k < length (tasks st)" "\<exists>m as. tasks st ! k = Acquire l' m # as" and n: "(k, l') \<noteq> (i, l)"
      by (auto simp: gate_inv_def)
    with t have "k \<noteq> i" by auto
    with k show ?thesis by (simp add: pop_task_def)
  qed
  moreover have "\<forall>i l m. (i, l, m) \<in> set (guards ?st') \<longrightarrow> i < length (tasks ?st')"
    using inv i by (auto simp: gate_inv_def pop_task_def)
  moreover have "j = k" if "(j, LogLock, n) \<in> set (guards ?st')" "(k, LogLock, n') \<in> set (guards ?st')" for j k n n'
    using that alone inv unfolding gate_inv_def by (cases "l = LogLock") (simp; blast)+
  ultimately show ?thesis unfolding gate_inv_def by blast
qed

lemma release_gate_inv:
  assumes inv: "gate_inv st" and a: "next_action st i = Some (ReleaseLock l)"
  shows "gate_inv ((pop_task i st)\<lparr>guards := filter (\<lambda>(j, l', _). \<not> (j = i \<and> l' = l)) (guards st)\<rparr>)" (is "gate_inv ?st'")
proof -
  from a obtain as where i: "i < length (tasks st)" and t: "tasks st ! i = ReleaseLock l # as"
    by (auto simp: next_action_some)
  from inv i have "gated (held_by st i) (tasks st ! i)" by (simp add: gate_inv_def)
  with t have g: "gated (filter (\<lambda>x. x \<noteq> l) (held_by st i)) as" by auto
  have h: "held_by ?st' k = (if k = i then filter (\<lambda>x. x \<noteq> l) (held_by st k) else held_by st k)" for k
    using held_by_release [where st = st and i = i and l = l] by (simp add: held_by_def pop_task_def)
  have "gated (held_by ?st' k) (tasks ?st' ! k)" if "k < length (tasks ?st')" for k
    using inv i g that unfolding h by (auto simp: gate_inv_def pop_task_def t nth_list_update)
  moreover have "k < length (tasks ?st') \<and> (\<exists>m as. tasks ?st' ! k = Acquire l' m # as)"
    if "(k, l') \<in> set (waiters ?st')" for k l'
  proof -
    from that inv have k: "k < length (tasks st)" "\<exists>m as. tasks st ! k = Acquire l' m # as"
      by (auto simp: gate_inv_def pop_task_def)
    with t have "k \<noteq> i" by auto
    with k show ?thesis by (simp add: pop_task_def)
  qed
  moreover have "\<forall>i j m m'. (i, LogLock, m) \<in> set (guards ?st') \<longrightarrow> (j, LogLock, m') \<in> set (guards ?st') \<longrightarrow> i = j"
    "\<forall>i l m. (i, l, m) \<in> set (guards ?st') \<longrightarrow> i < length (tasks ?st')"
    using inv by (auto simp: gate_inv_def pop_task_def)
  ultimately show ?thesis unfolding gate_inv_def by blast
qed

lemma queue_gate_inv:
  assumes "gate_inv st" "next_action st i = Some (Acquire l m)"
  shows "gate_inv (st\<lparr>waiters := waiters st @ [(i, l)]\<rparr>)"
  using assms by (auto simp: gate_inv_def next_action_some)

lemma advance_gate_inv: "gate_inv st \<Longrightarrow> gate_inv (advance i st)"
  using enter_gate_inv [of st i] release_gate_inv [of st i] queue_gate_inv [of st i]
  unfolding advance_def may_enter_def by (cases "next_action st i") (auto split: lock_action.split)

lemma run_gate_inv: "gate_inv st \<Longrightarrow> gate_inv (run_schedule is st)"
  by (induction "is" arbitrary: st) (simp_all add: run_schedule_def advance_gate_inv)

section \<open>No deadlock\<close>

lemma waits_on_holder:
  assumes inv: "gate_inv st" and d: "deadlocked st" and i: "i < length (tasks st)" and t: "tasks st ! i = Acquire l m # as"
  shows "\<exists>j. l \<in> set (held_by st j) \<and> j < length (tasks st) \<and> (\<exists>l' m' as'. tasks st ! j = Acquire l' m' # as')"
proof -
  have stuck: "\<not> may_enter k l' m' st \<and> (k, l') \<in> set (waiters st)"
    if "k < length (tasks st)" "tasks st ! k = Acquire l' m' # as'" for k l' m' as'
    using deadlocked_ready [OF d, of k] that by (simp add: ready_def next_action_def)
  have "(i, l) \<in> set (waiters st)" using stuck [OF i t] ..
  then have "find (\<lambda>w. snd w = l) (waiters st) \<noteq> None" by (auto simp: find_None_iff)
  then obtain w where w: "find (\<lambda>w. snd w = l) (waiters st) = Some w" by blast
  then have "snd w = l" by (auto simp: find_Some_iff)
  with w obtain h where h: "find (\<lambda>w. snd w = l) (waiters st) = Some (h, l)" by (metis prod.collapse)
  then have "(h, l) \<in> set (waiters st)" by (auto simp: find_Some_iff)
  with inv obtain m' as' where "h < length (tasks st)" "tasks st ! h = Acquire l m' # as'"
    unfolding gate_inv_def by blast
  then have "\<not> may_enter h l m' st" using stuck by blast
  with h have "\<not> free_for l m' st" by (simp add: may_enter_def)
  then obtain j m'' where j: "(j, l, m'') \<in> set (guards st)" by (auto simp: free_for_def list_all_iff)
  then have hl: "l \<in> set (held_by st j)" by (auto simp: in_held_by)
  from j inv have jl: "j < length (tasks st)" unfolding gate_inv_def by blast
  with inv have "gated (held_by st j) (tasks st ! j)" by (simp add: gate_inv_def)
  moreover have "\<not> ready st j" using d by (rule deadlocked_ready)
  ultimately have "\<exists>l' m' as'. tasks st ! j = Acquire l' m' # as'"
    using hl jl by (auto simp: ready_def next_action_def gated.simps split: list.splits lock_action.splits)
  with hl jl show ?thesis by blast
qed

lemma gate_no_deadlock:
  assumes inv: "gate_inv st"
  shows "\<not> deadlocked st"
proof
  assume d: "deadlocked st"
  have ad: "admits (held_by st k) l m" if "k < length (tasks st)" "tasks st ! k = Acquire l m # as" for k l m as
    using inv that by (auto simp: gate_inv_def)
  have open_gate: False if "LogLock \<in> set (held_by st p)" "p < length (tasks st)" "tasks st ! p = Acquire l m # as" for p l m as
  proof -
    from ad [OF that(2,3)] that(1) have l: "l \<notin> set (held_by st p)" "l \<noteq> LastAppliedLock" "l \<noteq> LogLock"
      by (auto simp: admits_def)
    from waits_on_holder [OF inv d that(2,3)] obtain q l' m' as' where q: "l \<in> set (held_by st q)"
      "q < length (tasks st)" "tasks st ! q = Acquire l' m' # as'" by blast
    with ad [OF q(2,3)] l have "LogLock \<in> set (held_by st q)" by (auto simp: admits_def)
    with that(1) inv have "q = p" unfolding gate_inv_def in_held_by by blast
    with q(1) l(1) show False by simp
  qed
  from d obtain i where i: "i < length (tasks st)" "tasks st ! i \<noteq> []"
    by (auto simp: deadlocked_def finished_def list_all_iff in_set_conv_nth)
  with deadlocked_ready [OF d, of i] obtain l m as where t: "tasks st ! i = Acquire l m # as"
    by (cases "tasks st ! i") (auto simp: ready_def next_action_def split: lock_action.splits)
  from waits_on_holder [OF inv d i(1) t] obtain j l' m' as' where j: "l \<in> set (held_by st j)"
    "j < length (tasks st)" "tasks st ! j = Acquire l' m' # as'" by blast
  show False
  proof (cases "LogLock \<in> set (held_by st j)")
    case True
    from open_gate [OF True j(2,3)] show False .
  next
    case False
    with ad [OF j(2,3)] j(1) have "l' = LogLock" by (auto simp: admits_def)
    with waits_on_holder [OF inv d j(2,3)] open_gate show False by blast
  qed
qed

section \<open>Progress\<close>

text \<open>Twice the actions left to a task, less one while it is queued: each step of a ready task lowers it.\<close>

definition work :: "lock_state \<Rightarrow> nat \<Rightarrow> nat" where
  "work st i = 2 * length (tasks st ! i) - (if i \<in> fst ` set (waiters st) then 1 else 0)"

definition work_left :: "lock_state \<Rightarrow> nat" where
  "work_left st = (\<Sum>i<length (tasks st). work st i)"

lemma length_advance [simp]: "length (tasks (advance i st)) = length (tasks st)"
  by (simp add: advance_def pop_task_def split: option.split lock_action.split)

lemma work_other: "k \<noteq> i \<Longrightarrow> work (advance i st) k = work st k"
  by (force simp: advance_def work_def pop_task_def split: option.split lock_action.split)

lemma work_less:
  assumes inv: "gate_inv st" and r: "ready st i"
  shows "work (advance i st) i < work st i"
proof -
  from r obtain a as where i: "i < length (tasks st)" and t: "tasks st ! i = a # as"
    by (auto simp: ready_def next_action_def split: option.splits if_splits list.splits)
  then have n: "next_action st i = Some a" by (simp add: next_action_def)
  have pop: "2 * length as < work st i" using t by (simp add: work_def)
  show ?thesis
  proof (cases a)
    case (ReleaseLock l)
    with n i t pop show ?thesis by (auto simp: advance_def pop_task_def work_def)
  next
    case (Acquire l m)
    show ?thesis
    proof (cases "may_enter i l m st")
      case True
      with Acquire n i t pop show ?thesis
        by (auto simp: advance_def pop_task_def work_def)
    next
      case False
      with r n Acquire have w: "(i, l) \<notin> set (waiters st)" by (simp add: ready_def)
      have "l' = l" if "(i, l') \<in> set (waiters st)" for l'
        using inv that t Acquire unfolding gate_inv_def by fastforce
      with w have "i \<notin> fst ` set (waiters st)" by auto
      with False w Acquire n t show ?thesis by (simp add: advance_def work_def)
    qed
  qed
qed

lemma work_left_less:
  assumes "gate_inv st" "ready st i"
  shows "work_left (advance i st) < work_left st"
proof -
  have "i < length (tasks st)" using assms(2) not_ready_beyond not_le by blast
  moreover have "work (advance i st) k \<le> work st k" for k
    using work_less [OF assms] work_other [of k i st] by (cases "k = i") simp_all
  ultimately show ?thesis unfolding work_left_def length_advance
    using work_less [OF assms] by (intro sum_strict_mono_ex1) auto
qed

lemma work_left_run: "gate_inv st \<Longrightarrow> work_left (run_schedule is st) \<le> work_left st"
proof (induction "is" arbitrary: st)
  case Nil
  then show ?case by (simp add: run_schedule_def)
next
  case (Cons i "is")
  have "work_left (advance i st) \<le> work_left st"
    using work_left_less [OF Cons.prems, of i] advance_not_ready [of st i] by (cases "ready st i") simp_all
  with Cons.IH [OF advance_gate_inv [OF Cons.prems], of i] show ?case by (simp add: run_schedule_Cons)
qed

lemma round_works:
  assumes "gate_inv st" "ready st i" "i \<in> set r"
  shows "work_left (run_schedule r st) < work_left st"
  using assms
proof (induction r)
  case Nil
  then show ?case by simp
next
  case (Cons j js)
  show ?case
  proof (cases "ready st j")
    case True
    from work_left_run [OF advance_gate_inv [OF Cons.prems(1)]] work_left_less [OF Cons.prems(1) True]
    show ?thesis by (simp add: run_schedule_def) (meson le_less_trans)
  next
    case False
    with Cons.prems(2,3) have "i \<in> set js" by auto
    with Cons False show ?thesis by (simp add: run_schedule_def advance_not_ready)
  qed
qed

lemma length_run [simp]: "length (tasks (run_schedule is st)) = length (tasks st)"
  by (induction "is" arbitrary: st) (simp_all add: run_schedule_def)

lemma finished_stays: "finished st \<Longrightarrow> run_schedule is st = st"
proof (induction "is")
  case Nil
  then show ?case by (simp add: run_schedule_def)
next
  case (Cons i "is")
  then have "\<not> ready st i" by (auto simp: finished_def ready_def next_action_def list_all_length)
  with Cons show ?case by (simp add: run_schedule_def advance_not_ready)
qed

lemma rounds_finish:
  assumes "gate_inv st" "work_left st \<le> length rounds" "\<forall>r \<in> set rounds. {0..<length (tasks st)} \<subseteq> set r"
  shows "finished (run_schedule (concat rounds) st)"
  using assms
proof (induction rounds arbitrary: st)
  case Nil
  have "tasks st ! i = []" if "i < length (tasks st)" for i
  proof -
    from Nil that have "work st i = 0" by (simp add: work_left_def)
    then show ?thesis by (cases "tasks st ! i") (simp_all add: work_def split: if_splits)
  qed
  then show ?case by (simp add: finished_def list_all_length run_schedule_def)
next
  case (Cons r rounds)
  show ?case
  proof (cases "finished st")
    case True
    then show ?thesis by (simp add: finished_stays)
  next
    case False
    with gate_no_deadlock [OF Cons.prems(1)] obtain i where i: "i < length (tasks st)" "ready st i"
      by (auto simp: deadlocked_def list_all_iff)
    with Cons.prems(3) have "i \<in> set r" by auto
    with round_works [OF Cons.prems(1) i(2)] Cons.prems(2) have "work_left (run_schedule r st) \<le> length rounds" by fastforce
    with Cons.IH [OF run_gate_inv [OF Cons.prems(1)]] Cons.prems(3) show ?thesis by (simp add: run_schedule_append)
  qed
qed

lemma work_left_start: "work_left (start_tasks ts) = 2 * length (concat ts)"
  by (simp add: work_left_def work_def start_tasks_def length_concat sum_distrib_left [symmetric] sum_list_sum_nth atLeast0LessThan)

section \<open>Theorems\<close>

text \<open>
  C31: Tasks that run any methods of a node one after the other, apart from status requests, rejected
  append requests and the taking of leadership, never block each other for good: whatever has happened
  so far, once every task has had its turn often enough all of them are done.
\<close>
theorem methods_run_to_end:
  assumes "\<forall>t \<in> set ts. \<exists>ps. set ps \<subseteq> set regular_locks \<and> t = concat ps"
    and "2 * length (concat ts) \<le> length rounds" "\<forall>r \<in> set rounds. {0..<length ts} \<subseteq> set r"
  shows "finished (run_schedule (past @ concat rounds) (start_tasks ts))"
proof -
  have "gated [] t" if "t \<in> set ts" for t
    using assms(1) that regular_gated by (fastforce simp: list_all_iff intro: gated_concat)
  then have inv: "gate_inv (start_tasks ts)" by (simp add: start_gate_inv)
  let ?st = "run_schedule past (start_tasks ts)"
  have "work_left ?st \<le> length rounds"
    using work_left_run [OF inv, of past] assms(2) by (simp add: work_left_start)
  with assms(3) have "finished (run_schedule (concat rounds) ?st)"
    by (intro rounds_finish run_gate_inv inv) (simp_all add: start_tasks_def)
  then show ?thesis by (simp add: run_schedule_append)
qed

lemma methods_run_to_end_witness:
  "finished (run_schedule ([0, 1, 1, 2] @ concat (replicate 100 [0, 1, 2]))
     (start_tasks [remove_peer_locks, getter_locks ! 0 @ getter_locks ! 1, add_peer_locks ! 1]))"
proof (rule methods_run_to_end)
  have r: "remove_peer_locks \<in> set regular_locks" "getter_locks ! 0 \<in> set regular_locks" "getter_locks ! 1 \<in> set regular_locks"
    "add_peer_locks ! 1 \<in> set regular_locks"
    by (simp_all add: regular_locks_def getter_locks_def add_peer_locks_def ways_def maybe_def)
  show "\<forall>t \<in> set [remove_peer_locks, getter_locks ! 0 @ getter_locks ! 1, add_peer_locks ! 1].
      \<exists>ps. set ps \<subseteq> set regular_locks \<and> t = concat ps"
    using r by (auto intro: exI [of _ "[remove_peer_locks]"] exI [of _ "[getter_locks ! 0, getter_locks ! 1]"]
        exI [of _ "[add_peer_locks ! 1]"])
  show "2 * length (concat [remove_peer_locks, getter_locks ! 0 @ getter_locks ! 1, add_peer_locks ! 1]) \<le> length (replicate 100 [0::nat, 1, 2])"
    by code_simp
qed auto

text \<open>
  C32: The order of the two index tables and the peers is not the same everywhere, and with fair locks
  three tasks can stop for good: a node that takes the lead holds the peers and waits for the match
  table, a response that arrives late holds the match table and waits for the peers, behind a peer that
  is being added and waits for the first.  The log stays locked, so no handler of the node ends again.
\<close>
theorem leadership_deadlocks:
  "\<exists>schedule. \<forall>later.
     let start = start_tasks [winning_vote_locks ! 1, handle_append_entries_response_locks ! 4, add_peer_locks ! 1];
         st = run_schedule schedule start
     in run_schedule (schedule @ later) start = st \<and>
        map (\<lambda>t. List.hd t) (tasks st) = [Acquire MatchIndexLock Exclusive, Acquire PeersLock Shared, Acquire PeersLock Exclusive] \<and>
        (1, LogLock, Exclusive) \<in> set (guards st)"
proof -
  let ?start = "start_tasks [winning_vote_locks ! 1, handle_append_entries_response_locks ! 4, add_peer_locks ! 1]"
  let ?schedule = "replicate 15 0 @ replicate 14 1 @ [2, 1, 0, 0]"
  let ?st = "run_schedule ?schedule ?start"
  have d: "deadlocked ?st" by code_simp
  have "map (\<lambda>t. List.hd t) (tasks ?st) = [Acquire MatchIndexLock Exclusive, Acquire PeersLock Shared, Acquire PeersLock Exclusive]"
    "(1, LogLock, Exclusive) \<in> set (guards ?st)"
    by code_simp+
  then show ?thesis
    using schedule_to_deadlock [OF d] by (intro exI [of _ ?schedule] allI) (simp add: Let_def)
qed

end
