(* ===== verification/Ipc.thy ===== *)
theory Ipc
  imports Node
begin

text \<open>
  The IPC server of \<open>raft/src/ipc.rs\<close>: requests of the command-line client, their wire form, and the
  reply each gets.  JSON values are a datatype; printing and reading JSON text, UTF-8 decoding and
  the text of an error are parameters.  The wire form of requests and responses is what the \<open>serde\<close>
  attributes of the source say, written on JSON values.

  A proposal waits up to five seconds for the node's answer.  What the other tasks of the daemon do in
  that time is an argument (\<open>meanwhile\<close>); the wait ends with a value of the channel, with the channel
  closed because the node has dropped the sender, or with the timeout.
\<close>

section \<open>JSON values\<close>

datatype json =
    JNull
  | JBool bool
  | JNum nat
  | JStr string
  | JArr "json list"
  | JObj "(string \<times> json) list"

text \<open>\<open>Value::get\<close>, \<open>as_str\<close>, \<open>as_u64\<close>, \<open>as_array\<close> and \<open>is_null\<close>.\<close>

fun j_get :: "json \<Rightarrow> string \<Rightarrow> json option" where
  "j_get (JObj fs) k = map_of fs k"
| "j_get _ k = None"

fun as_str :: "json \<Rightarrow> string option" where
  "as_str (JStr s) = Some s"
| "as_str _ = None"

fun as_u64 :: "json \<Rightarrow> nat option" where
  "as_u64 (JNum n) = (if n < 2 ^ 64 then Some n else None)"
| "as_u64 _ = None"

fun as_array :: "json \<Rightarrow> json list option" where
  "as_array (JArr js) = Some js"
| "as_array _ = None"

fun as_bool :: "json \<Rightarrow> bool option" where
  "as_bool (JBool b) = Some b"
| "as_bool _ = None"

definition is_null :: "json \<Rightarrow> bool" where
  "is_null j \<longleftrightarrow> j = JNull"

section \<open>Requests and responses\<close>

datatype ipc_request =
    Join string string
  | Leave string
  | Status
  | Propose string "string option"
  | Get string
  | Send string
  | Messages "u64 option" "u64 option"

record ipc_response =
  resp_success :: bool
  resp_message :: string
  resp_data :: "json option"

text \<open>
  The wire form: a variant without fields is its name, another an object from the name to the
  fields; a missing or \<open>null\<close> field is \<open>None\<close>; \<open>data\<close> is left out when there is none.
\<close>

definition str_field :: "json \<Rightarrow> string \<Rightarrow> string option" where
  "str_field j k = Option.bind (j_get j k) as_str"

definition opt_field :: "(json \<Rightarrow> 'a option) \<Rightarrow> json \<Rightarrow> string \<Rightarrow> 'a option option" where
  "opt_field f j k = (case j_get j k of
       None \<Rightarrow> Some None
     | Some v \<Rightarrow> if is_null v then Some None else map_option Some (f v))"

definition u64_of_json :: "json \<Rightarrow> u64 option" where
  "u64_of_json j = map_option word_of_nat (as_u64 j)"

definition request_of_json :: "json \<Rightarrow> ipc_request option" where
  "request_of_json j = (case j of
       JStr s \<Rightarrow> if s = ''Status'' then Some Status else None
     | JObj [(v, fs)] \<Rightarrow>
         if v = ''Join'' then Option.bind (str_field fs ''node_id'') (\<lambda>n.
           Option.bind (str_field fs ''address'') (\<lambda>a. Some (Join n a)))
         else if v = ''Leave'' then Option.bind (str_field fs ''node_id'') (\<lambda>n. Some (Leave n))
         else if v = ''Propose'' then Option.bind (str_field fs ''key'') (\<lambda>k.
           Option.bind (opt_field as_str fs ''value'') (\<lambda>w. Some (Propose k w)))
         else if v = ''Get'' then Option.bind (str_field fs ''key'') (\<lambda>k. Some (Get k))
         else if v = ''Send'' then Option.bind (str_field fs ''message'') (\<lambda>m. Some (Send m))
         else if v = ''Messages'' then Option.bind (opt_field u64_of_json fs ''limit'') (\<lambda>l.
           Option.bind (opt_field u64_of_json fs ''since_index'') (\<lambda>i. Some (Messages l i)))
         else None
     | _ \<Rightarrow> None)"

definition response_json :: "ipc_response \<Rightarrow> json" where
  "response_json r = JObj ([(''success'', JBool (resp_success r)), (''message'', JStr (resp_message r))] @
     (case resp_data r of None \<Rightarrow> [] | Some d \<Rightarrow> [(''data'', d)]))"

text \<open>What the code takes from other crates and the standard library's text functions.\<close>

record ipc_env =
  value_to_text :: "json \<Rightarrow> string"
  value_from_text :: "string \<Rightarrow> json option"
  utf8_lossy :: "u8 list \<Rightarrow> string"
  err_text :: "err \<Rightarrow> string"
  json_err_text :: "string \<Rightarrow> string"

definition as_bytes :: "string \<Rightarrow> u8 list" where
  "as_bytes s = map of_char s"

definition value_from_slice :: "ipc_env \<Rightarrow> u8 list \<Rightarrow> json option" where
  "value_from_slice J b = value_from_text J (map (\<lambda>x. char_of (unat x)) b)"

section \<open>Commands\<close>

definition propose_command :: "'e heapless_scheme \<Rightarrow> string \<Rightarrow> string option \<Rightarrow> command" where
  "propose_command E key v = (case v of
       Some text \<Rightarrow> Put (push_str E 256 key) (push_bytes E 1024 (as_bytes text))
     | None \<Rightarrow> Delete (push_str E 256 key))"

text \<open>
  \<open>json!\<close> takes the time, a \<open>u128\<close> of milliseconds, only below \<open>2 ^ 64\<close> and panics otherwise; \<open>message_json\<close>
  is the value for a time that it takes, and the request is guarded by \<open>json_number\<close>.
\<close>

definition json_number :: "nat \<Rightarrow> bool" where
  "json_number n \<longleftrightarrow> n < 2 ^ 64"

definition message_json :: "string \<Rightarrow> nat \<Rightarrow> string \<Rightarrow> json" where
  "message_json from now text =
     JObj [(''from'', JStr from), (''timestamp'', JNum now), (''message'', JStr text)]"

definition send_command :: "'e heapless_scheme \<Rightarrow> ipc_env \<Rightarrow> string \<Rightarrow> nat \<Rightarrow> string \<Rightarrow> command" where
  "send_command E J from now text =
     Put (push_str E 256 (''_msg:'' @ dec now))
         (push_bytes E 1024 (as_bytes (value_to_text J (message_json from now text))))"

section \<open>Waiting for the node\<close>

datatype outcome = Received propose_result | ChannelClosed | TimedOut

text \<open>
  The first value sent to the channel; without one, the channel is open as long as the node keeps the
  sender with a pending request.
\<close>

definition outcome_of :: "nat \<Rightarrow> node \<Rightarrow> outcome" where
  "outcome_of tx s = (case map_of (replies s) tx of
       Some r \<Rightarrow> Received r
     | None \<Rightarrow> if tx \<in> snd ` set (pending_requests s) then TimedOut else ChannelClosed)"

definition attempt :: "unit node_op \<Rightarrow> err option node_op" where
  "attempt m s = (case m s of
       (Ret _, s') \<Rightarrow> (Ret None, s')
     | (Fail e, s') \<Rightarrow> (Ret (Some e), s')
     | (Hang, s') \<Rightarrow> (Hang, s'))"

definition failure :: "string \<Rightarrow> ipc_response" where
  "failure text = \<lparr>resp_success = False, resp_message = text, resp_data = None\<rparr>"

definition leader_hint :: "string option \<Rightarrow> json option" where
  "leader_hint l = map_option (\<lambda>i. JObj [(''leader_id'', JStr i)]) l"

definition submit ::
    "'e serde_scheme \<Rightarrow> ipc_env \<Rightarrow> unit node_op \<Rightarrow> nat \<Rightarrow> command \<Rightarrow> string \<Rightarrow>
     (outcome \<Rightarrow> ipc_response) \<Rightarrow> ipc_response node_op" where
  "submit E J meanwhile tx c failed answer =
     bind (attempt (propose E c tx)) (\<lambda>r. case r of
       Some e \<Rightarrow> ret (failure (failed @ err_text J e))
     | None \<Rightarrow>
         seq meanwhile (
         bind (gets (outcome_of tx)) (\<lambda>out. ret (answer out))))"

definition propose_response :: "outcome \<Rightarrow> ipc_response" where
  "propose_response out = (case out of
       Received (Success i) \<Rightarrow>
         \<lparr>resp_success = True, resp_message = ''Committed at index '' @ dec (unat i), resp_data = None\<rparr>
     | Received (NotLeader l) \<Rightarrow>
         \<lparr>resp_success = False, resp_message = ''Not leader'', resp_data = leader_hint l\<rparr>
     | Received (Failed reason) \<Rightarrow> failure reason
     | ChannelClosed \<Rightarrow> failure ''Channel closed''
     | TimedOut \<Rightarrow> failure ''Timeout waiting for commit'')"

definition send_response :: "outcome \<Rightarrow> ipc_response" where
  "send_response out = (case out of
       Received (Success i) \<Rightarrow>
         \<lparr>resp_success = True, resp_message = ''Message sent (index '' @ dec (unat i) @ '')'',
          resp_data = Some (JObj [(''index'', JNum (unat i))])\<rparr>
     | Received (NotLeader l) \<Rightarrow>
         \<lparr>resp_success = False, resp_message = ''Not leader - send to leader node'',
          resp_data = leader_hint l\<rparr>
     | Received (Failed reason) \<Rightarrow> failure reason
     | ChannelClosed \<Rightarrow> failure ''Channel closed''
     | TimedOut \<Rightarrow> failure ''Timeout waiting for replication'')"

section \<open>Status\<close>

record status_response =
  sr_node_id :: string
  sr_role :: string
  sr_current_term :: u64
  sr_commit_index :: u64
  sr_last_applied :: u64
  sr_leader_id :: "string option"
  sr_peers :: "string list"

fun role_text :: "node_role \<Rightarrow> string" where
  "role_text Follower = ''Follower''"
| "role_text Candidate = ''Candidate''"
| "role_text Leader = ''Leader''"

definition status_response_from :: "node_status \<Rightarrow> status_response" where
  "status_response_from s =
     \<lparr>sr_node_id = st_node_id s, sr_role = role_text (st_role s), sr_current_term = st_current_term s,
      sr_commit_index = st_commit_index s, sr_last_applied = st_last_applied s,
      sr_leader_id = st_leader_id s, sr_peers = st_peers s\<rparr>"

definition status_json :: "status_response \<Rightarrow> json" where
  "status_json r = JObj
     [(''node_id'', JStr (sr_node_id r)), (''role'', JStr (sr_role r)),
      (''current_term'', JNum (unat (sr_current_term r))), (''commit_index'', JNum (unat (sr_commit_index r))),
      (''last_applied'', JNum (unat (sr_last_applied r))),
      (''leader_id'', case sr_leader_id r of None \<Rightarrow> JNull | Some l \<Rightarrow> JStr l),
      (''peers'', JArr (map JStr (sr_peers r)))]"

section \<open>Requests\<close>

text \<open>
  The arguments: the clock in milliseconds since 1970, the channel of the request, and what the other tasks
  do while it waits.  A panic ends the task of the connection, as an error that leaves it does.
\<close>

definition process_request ::
    "'e serde_scheme \<Rightarrow> ipc_env \<Rightarrow> nat \<Rightarrow> nat \<Rightarrow> unit node_op \<Rightarrow> ipc_request \<Rightarrow> ipc_response node_op" where
  "process_request E J now tx meanwhile req = (case req of
       Join n a \<Rightarrow>
         seq (add_peer E n a)
         (ret \<lparr>resp_success = True, resp_message = ''Added peer '' @ n @ '' at '' @ a, resp_data = None\<rparr>)
     | Leave n \<Rightarrow>
         seq (remove_peer n)
         (ret \<lparr>resp_success = True, resp_message = ''Removed peer '' @ n, resp_data = None\<rparr>)
     | Status \<Rightarrow>
         bind get_status (\<lambda>s.
         ret \<lparr>resp_success = True, resp_message = ''OK'',
              resp_data = Some (status_json (status_response_from s))\<rparr>)
     | Propose key v \<Rightarrow> submit E J meanwhile tx (propose_command E key v) ''Propose failed: '' propose_response
     | Get key \<Rightarrow>
         bind (gets (get_value key)) (\<lambda>v.
         ret \<lparr>resp_success = True, resp_message = ''OK'',
              resp_data = Some (JObj [(''key'', JStr key),
                (''value'', case v of None \<Rightarrow> JNull | Some b \<Rightarrow> JStr (utf8_lossy J b))])\<rparr>)
     | Send text \<Rightarrow>
         bind (gets node_id) (\<lambda>from.
         if \<not> json_number now then fail Panicked
         else submit E J meanwhile tx (send_command E J from now text) ''Send failed: '' send_response)
     | Messages limit since \<Rightarrow>
         bind (gets (get_messages (value_from_slice J) (default_or 10 limit) (default_or 0 since))) (\<lambda>msgs.
         bind get_status (\<lambda>s.
         ret \<lparr>resp_success = True, resp_message = ''OK'',
              resp_data = Some (JObj [(''messages'', JArr msgs),
                (''last_applied'', JNum (unat (st_last_applied s)))])\<rparr>)))"

section \<open>Connections\<close>

text \<open>
  One connection: each line is a request, each gets one line in reply.  A line carries its own clock,
  channel and interleaving.  A line that is no request is answered and the connection goes on.
\<close>

record turn =
  turn_line :: string
  turn_now :: nat
  turn_tx :: nat
  turn_meanwhile :: "unit node_op"

definition response_line :: "ipc_env \<Rightarrow> ipc_response \<Rightarrow> string" where
  "response_line J r = value_to_text J (response_json r) @ [LF]"

definition serve_line :: "'e serde_scheme \<Rightarrow> ipc_env \<Rightarrow> turn \<Rightarrow> ipc_response node_op" where
  "serve_line E J t = (case Option.bind (value_from_text J (turn_line t)) request_of_json of
       None \<Rightarrow> ret (failure (''Invalid request: '' @ json_err_text J (turn_line t)))
     | Some req \<Rightarrow> process_request E J (turn_now t) (turn_tx t) (turn_meanwhile t) req)"

fun handle_ipc_connection :: "'e serde_scheme \<Rightarrow> ipc_env \<Rightarrow> turn list \<Rightarrow> string list node_op" where
  "handle_ipc_connection E J [] = ret []"
| "handle_ipc_connection E J (t # ts) =
     bind (serve_line E J t) (\<lambda>r.
     bind (handle_ipc_connection E J ts) (\<lambda>out. ret (response_line J r # out)))"

end
