(* ===== verification/Ipc_Properties.thy ===== *)
theory Ipc_Properties
  imports Ipc Commit_Properties
begin

text \<open>
  What the IPC server's clients can rely on: how a proposal is answered, that a write which was
  answered with success is read back, and where the fixed-size keys and values break that.
\<close>

declare monad [simp]

section \<open>Samples\<close>

text \<open>An instance of the text functions that knows two messages, a short one and one that is too long.\<close>

definition short_message :: json where "short_message = message_json ''a'' 5 ''hi''"

definition sample_ipc :: ipc_env where
  "sample_ipc =
     \<lparr>value_to_text = (\<lambda>j. if j = short_message then ''m'' else replicate 1025 CHR ''x''),
      value_from_text = (\<lambda>s. if s = ''m'' then Some short_message else None),
      utf8_lossy = map (\<lambda>x. char_of (unat x)), err_text = (\<lambda>e. ''io error''), json_err_text = (\<lambda>s. ''bad json'')\<rparr>"

lemma sample_messages: "stamped_messages parse new_state_machine = []"
  by (simp add: stamped_messages_def new_state_machine_def map_filter_simps)

section \<open>Answers\<close>

lemma attempt_Ret: "m s = (Ret (), s') \<Longrightarrow> attempt m s = (Ret None, s')"
  by (simp add: attempt_def)

lemma submit_Ret:
  assumes "propose E c tx s = (Ret (), s')"
  shows "submit E J meanwhile tx c failed answer s =
    seq meanwhile (gets (\<lambda>t. answer (outcome_of tx t))) s'"
  using attempt_Ret [of "propose E c tx" s s', OF assms] by (simp add: submit_def bind_def gets_def ret_def split: prod.splits res.splits)

lemma length_as_bytes [simp]: "length (as_bytes s) = length s"
  by (simp add: as_bytes_def)

lemma propose_command_fits:
  assumes "heapless_ok E" "length key \<le> 256" "length text \<le> 1024"
  shows "propose_command E key (Some text) = Put key (as_bytes text)"
  using assms by (simp add: propose_command_def push_str_fits push_bytes_take)

lemma propose_command_ok:
  assumes "heapless_ok E"
  shows "command_ok (propose_command E key v)"
  using push_str_cap [OF assms]
  by (simp add: propose_command_def push_bytes_take [OF assms] MAX_KEY_SIZE_def MAX_VALUE_SIZE_def
      split: option.split)

text \<open>
  A node that is not leader answers a proposal at once with "Not leader" and the leader it knows,
  and stores nothing; nothing that happens afterwards changes the answer.
\<close>
theorem proposal_redirected:
  assumes "role s \<noteq> Leader" "tx \<notin> fst ` set (replies s)"
    and "meanwhile (s\<lparr>replies := replies s @ [(tx, NotLeader (leader_id s))]\<rparr>) = (Ret (), s')"
    and "replies s' = replies s @ (tx, NotLeader (leader_id s)) # later"
  shows "process_request E J now tx meanwhile (Propose key v) s =
    (Ret \<lparr>resp_success = False, resp_message = ''Not leader'', resp_data = leader_hint (leader_id s)\<rparr>, s')"
proof -
  have "map_of (replies s') tx = Some (NotLeader (leader_id s))"
    using assms(2,4) by (simp add: map_add_def map_of_eq_None_iff [THEN iffD2] split: option.splits)
  then have "seq meanwhile (gets (\<lambda>t. propose_response (outcome_of tx t)))
      (s\<lparr>replies := replies s @ [(tx, NotLeader (leader_id s))]\<rparr>) =
    (Ret \<lparr>resp_success = False, resp_message = ''Not leader'', resp_data = leader_hint (leader_id s)\<rparr>, s')"
    using assms(3) by (simp add: bind_def gets_def outcome_of_def propose_response_def)
  then show ?thesis
    by (simp add: process_request_def submit_Ret [OF propose_redirect [OF assms(1)]])
qed

lemma proposal_redirected_witness:
  "process_request serde_ref sample_ipc 0 1 (ret ()) (Propose ''k'' None) (idle_node ''a'' [''b''] fresh_log) =
    (Ret \<lparr>resp_success = False, resp_message = ''Not leader'', resp_data = leader_hint None\<rparr>,
     (idle_node ''a'' [''b''] fresh_log)\<lparr>replies := [(1, NotLeader None)]\<rparr>)"
  using proposal_redirected [of "idle_node ''a'' [''b''] fresh_log" 1 "ret ()"
      "(idle_node ''a'' [''b''] fresh_log)\<lparr>replies := [(1, NotLeader None)]\<rparr>" "[]"
      serde_ref sample_ipc 0 "''k''" None]
  by (simp add: ret_def)

lemma entries_between_snoc:
  assumes "a \<le> b" "b \<noteq> - 1" "m (b + 1) = Some e"
  shows "entries_between m a (b + 1) = entries_between m a b @ [e]"
proof -
  have "m (word_of_nat (Suc (unat b))) = Some e" using assms(3) by (simp add: add.commute)
  with assms(1,2) show ?thesis
    by (simp add: entries_between_def unat_plus_one word_le_nat_alt map_filter_def del: of_nat_Suc)
qed

lemma map_of_unique:
  assumes "(k, v) \<in> set xs" "\<And>w. (k, w) \<in> set xs \<Longrightarrow> w = v"
  shows "map_of xs k = Some v"
  using assms by (metis map_of_SomeD weak_map_of_SomeI)


section \<open>Writing and reading back\<close>

text \<open>The state of a leader that has taken a proposal and hears of its replication from a peer.\<close>

lemma apply_new_put:
  assumes "log_wf (log s)" "sm_wf (machine s)" "sm_last_applied (machine s) \<le> last_applied s"
    and "last_applied s \<le> n" "n \<noteq> - 1" "entries (log s) (n + 1) = Some e" "command e = Put k v"
  shows "get_value k (apply_result_of (s\<lparr>commit_index := n + 1\<rparr>)) = Some v"
proof -
  let ?es = "entries_between (entries (log s)) (last_applied s) (n + 1)"
  have "sorted_wrt (<) (last_applied s # map index ?es)"
    using assms(1) by (intro entries_between_sorted) (auto dest: log_wf_index)
  then have so: "sorted_wrt (<) (sm_last_applied (machine s) # map index ?es)"
    using assms(3) by (auto intro: le_less_trans)
  have "?es = entries_between (entries (log s)) (last_applied s) n @ [e]"
    using assms(4-6) by (rule entries_between_snoc)
  with sm_abs_fold [OF assms(2) so] assms(7) show ?thesis
    by (simp add: get_value_def sm_get_def sm_abs_def apply_result_of_eq)
qed

lemma commit_candidate_last:
  assumes "commit_index s < last_index (log s)" "majority s \<le> ack_count s (last_index (log s))"
    and "term_at (log s) (last_index (log s)) = Some (node_term s)"
  shows "commit_candidate s = Some (last_index (log s))"
proof -
  have "unat (commit_index s + 1) = Suc (unat (commit_index s))"
    using assms(1) by (rule unat_plus_one_less)
  then have "Suc (unat (commit_index s)) \<le> unat (last_index (log s))"
    using assms(1) by (simp add: word_less_nat_alt)
  then have "rev (range_incl (commit_index s + 1) (last_index (log s))) =
      last_index (log s) # rev (map word_of_nat [Suc (unat (commit_index s))..<unat (last_index (log s))])"
    using \<open>unat (commit_index s + 1) = _\<close> by (simp add: range_incl_def)
  with assms(2,3) show ?thesis by (simp add: commit_candidate_def)
qed


lemma outcome_committed:
  assumes "hm_wf (pending_requests q)" "hm_get (pending_requests q) i = Some tx"
    and "tx \<notin> fst ` set (replies q)" "\<And>j. hm_get (pending_requests q) j = Some tx \<Longrightarrow> j = i"
  shows "outcome_of tx (committed_at i q) = Received (Success i)"
proof -
  have r: "replies (committed_at i q) = replies q @ map (success_of (pending_requests q)) (pending_up_to q i)"
    by (simp add: committed_at_def notified_def apply_result_of_eq pending_up_to_def)
  have "map_of (replies (committed_at i q)) tx = Some (Success i)"
  proof (rule map_of_unique)
    have "i \<in> set (pending_up_to q i)" by (simp add: pending_up_to_def hm.set_keys assms(2))
    moreover have "success_of (pending_requests q) i = (tx, Success i)" by (simp add: success_of_def assms(2))
    ultimately show "(tx, Success i) \<in> set (replies (committed_at i q))" by (force simp: r)
  next
    fix w assume "(tx, w) \<in> set (replies (committed_at i q))"
    with assms(3) obtain j where j: "j \<in> set (pending_up_to q i)" "(tx, w) = success_of (pending_requests q) j"
      by (force simp: r)
    then obtain t where "hm_get (pending_requests q) j = Some t" by (auto simp: pending_up_to_def hm.set_keys)
    with j(2) have "hm_get (pending_requests q) j = Some tx" "w = Success j" by (simp_all add: success_of_def)
    with assms(4) show "w = Success i" by blast
  qed
  then show ?thesis by (simp add: outcome_of_def)
qed

lemma proposed_put:
  fixes s :: node and tx :: nat and c :: command and E :: "'e serde_scheme"
  assumes "node_ok E s" "role s = Leader" "last_index (log s) \<noteq> - 1" "command_ok c"
  defines "p \<equiv> proposed E c tx s" and "i \<equiv> last_index (log s) + 1"
  shows "propose E c tx s = (Ret (), broadcast E p)" "\<not> log_locked p" "role p = Leader" "node_term p = node_term s"
    "peers p = peers s" "match_index p = match_index s" "commit_index p = commit_index s"
    "last_applied p = last_applied s" "machine p = machine s" "replies p = replies s"
    "last_index (log p) = i" "entries (log p) i = Some \<lparr>index = i, entry_term = node_term s, command = c\<rparr>"
    "pending_requests p = hm_insert i tx (pending_requests s)" "log_wf (log p)"
proof -
  have P: "propose E c tx s = (Ret (), broadcast E p)" "synced E (log p)"
    using propose_leader [OF assms(1-4), of tx] by (simp_all add: p_def)
  have lt: "last_index (log s) < i" using less_plus_one_iff [OF assms(3)] by (auto simp: i_def)
  show "propose E c tx s = (Ret (), broadcast E p)" by (rule P)
  show "\<not> log_locked p" "role p = Leader" "node_term p = node_term s"
    "peers p = peers s" "match_index p = match_index s" "commit_index p = commit_index s"
    "last_applied p = last_applied s" "machine p = machine s" "replies p = replies s"
    "last_index (log p) = i" "entries (log p) i = Some \<lparr>index = i, entry_term = node_term s, command = c\<rparr>"
    "pending_requests p = hm_insert i tx (pending_requests s)" "log_wf (log p)"
    using assms(1,2) P(2) lt
    by (simp_all add: p_def proposed_def Let_def log_current_term_def insert_entry_def max_def synced_def
        node_ok_def i_def)
qed

lemma recorded_ack_counts: "2 \<le> ack_count (record_match from i s) i"
proof -
  have "(from, i) \<in> set (match_index (record_match from i s))"
    using hm.get_ins [of "from" i "match_index s" "from"]
    by (auto simp: record_match_def hm_get_def dest: map_of_SomeD)
  then have "(from, i) \<in> set (filter (\<lambda>(p, j). i \<le> j) (match_index (record_match from i s)))" by simp
  then have "0 < length (filter (\<lambda>(p, j). i \<le> j) (match_index (record_match from i s)))"
    by (rule length_pos_if_in_set)
  then show ?thesis unfolding ack_count_def by linarith
qed

lemma acknowledged_commits:
  assumes "\<not> log_locked x" "role x = Leader" "hm_wf (pending_requests x)" "length (hm_keys (peers x)) \<le> 2"
    and "commit_index x < last_index (log x)" "term_at (log x) (last_index (log x)) = Some (node_term x)"
    and "aer_term resp \<le> node_term x" "success resp" "aer_last_log_index resp = last_index (log x)"
  shows "handle_append_entries_response E from resp x =
    (Ret (), committed_at (last_index (log x)) (record_match from (last_index (log x)) x))"
proof -
  let ?q = "record_match from (last_index (log x)) x"
  have "majority ?q \<le> ack_count ?q (last_index (log x))"
    using recorded_ack_counts [of "from" "last_index (log x)" x] assms(4) by (simp add: majority_def)
  with assms(5,6) have "commit_candidate ?q = Some (last_index (log x))"
    using commit_candidate_last [of ?q] by simp
  with append_response_success [OF assms(1,2,7,8,3), of E "from"] assms(9) show ?thesis
    by (simp add: advanced_def)
qed




section \<open>Keys and values that do not fit\<close>

text \<open>
  A key longer than 256 bytes is not rejected: the command that is proposed carries another key
  (and at most 1024 bytes of the value), so the write or delete that the client is told is committed
  does not change what the client reads under its key.
\<close>
theorem overlong_key_lost:
  assumes "heapless_ok E" "256 < length key" "sm_wf sm"
  shows "(\<exists>k. length k \<le> 256 \<and> k \<noteq> key \<and>
      propose_command E key (Some text) = Put k (take 1024 (as_bytes text)) \<and>
      propose_command E key None = Delete k) \<and>
    sm_get (sm_step \<lparr>index = i, entry_term = t, command = propose_command E key v\<rparr> sm) key = sm_get sm key"
proof -
  have k: "push_str E 256 key \<noteq> key" "length (push_str E 256 key) \<le> 256"
    using assms push_str_overflow push_str_cap by blast+
  then have "sm_get (sm_step \<lparr>index = i, entry_term = t, command = propose_command E key v\<rparr> sm) key = sm_get sm key"
    using assms(3)
    by (auto simp: sm_step_def apply_entry_def propose_command_def sm_get_def sm_wf_def hm_simps split: option.splits)
  with k push_bytes_take [OF assms(1)] show ?thesis
    by (simp add: propose_command_def)
qed

lemma overlong_key_lost_witness:
  "(\<exists>k. length k \<le> 256 \<and> k \<noteq> replicate 257 CHR ''k'' \<and>
      propose_command serde_ref (replicate 257 CHR ''k'') (Some ''v'') = Put k (take 1024 (as_bytes ''v'')) \<and>
      propose_command serde_ref (replicate 257 CHR ''k'') None = Delete k) \<and>
    sm_get (sm_step \<lparr>index = 1, entry_term = 1,
        command = propose_command serde_ref (replicate 257 CHR ''k'') (Some ''v'')\<rparr> new_state_machine)
      (replicate 257 CHR ''k'') = sm_get new_state_machine (replicate 257 CHR ''k'')"
  by (rule overlong_key_lost [OF serde_ok_heapless [OF serde_ref_ok]]) simp_all

section \<open>Messages\<close>

lemma sort_key_new_least:
  assumes "\<forall>b \<in> set (xs @ ys). f a < f b"
  shows "sort_key f (xs @ a # ys) = a # sort_key f (xs @ ys)"
  using assms
proof (induction xs)
  case Nil
  then show ?case by (simp add: insort_is_Cons less_imp_le)
next
  case (Cons x xs)
  then have "f a < f x" by simp
  then have "\<not> f x \<le> f a" by (simp add: not_le)
  with Cons show ?case by simp
qed

lemma hm_insert_cases:
  obtains xs ys where "hm_insert k v m = xs @ (k, v) # ys" "m = xs @ ys"
  | xs ys w where "hm_insert k v m = xs @ (k, v) # ys" "m = xs @ (k, w) # ys"
proof -
  have "\<exists>xs ys. AList.update k v m = xs @ (k, v) # ys \<and> (m = xs @ ys \<or> (\<exists>w. m = xs @ (k, w) # ys))"
  proof (induction m)
    case Nil
    then show ?case by (metis append_Nil update.simps(1))
  next
    case (Cons p m)
    obtain j u where p: "p = (j, u)" by (cases p)
    show ?case
    proof (cases "j = k")
      case True
      then show ?thesis using p by (intro exI [of _ "[]"] exI [of _ m]) auto
    next
      case False
      from Cons obtain xs ys where "AList.update k v m = xs @ (k, v) # ys"
        "m = xs @ ys \<or> (\<exists>w. m = xs @ (k, w) # ys)" by blast
      with False p show ?thesis by (intro exI [of _ "p # xs"] exI [of _ ys]) auto
    qed
  qed
  then show ?thesis using that unfolding hm_insert_def by blast
qed

lemma parse_digits_append:
  "parse_digits a (xs @ ys) = Option.bind (parse_digits a xs) (\<lambda>b. parse_digits b ys)"
  by (induction xs arbitrary: a) (auto simp: Let_def split: option.splits)

lemma digit_of_char: "d < 10 \<Longrightarrow> digit_of (digit_char d) = Some d"
  by (simp add: digit_of_def digit_char_def Let_def)

lemma parse_digits_dec: "n < 2 ^ 128 \<Longrightarrow> parse_digits 0 (dec n) = Some n"
proof (induction n rule: dec.induct)
  case (1 n)
  show ?case
  proof (cases "n < 10")
    case True
    then show ?thesis using 1(2) by (simp add: dec.simps [of n] digit_of_char)
  next
    case False
    then have "parse_digits 0 (dec (n div 10)) = Some (n div 10)" using 1 by simp
    with False 1(2) show ?thesis
      by (simp add: dec.simps [of n] parse_digits_append digit_of_char Let_def)
  qed
qed

lemma dec_Cons: "\<exists>d ds. dec n = digit_char d # ds \<and> d < 10"
proof (induction n rule: dec.induct)
  case (1 n)
  then show ?case by (cases "n < 10") (auto simp: dec.simps [of n])
qed

lemma length_dec: "0 < k \<Longrightarrow> n < 10 ^ k \<Longrightarrow> length (dec n) \<le> k"
proof (induction k arbitrary: n)
  case 0
  then show ?case by simp
next
  case (Suc k)
  show ?case
  proof (cases "n < 10")
    case True
    then show ?thesis by (simp add: dec.simps [of n])
  next
    case False
    with Suc.prems have "0 < k" by (cases k) auto
    moreover have "n div 10 < 10 ^ k" using Suc.prems by (simp add: div_less_iff_less_mult mult.commute)
    ultimately show ?thesis using Suc.IH False by (simp add: dec.simps [of n])
  qed
qed

lemma parse_dec: "n < 2 ^ 128 \<Longrightarrow> parse_u128 (dec n) = Some n"
proof -
  assume n: "n < 2 ^ 128"
  from dec_Cons [of n] obtain d ds where d: "dec n = digit_char d # ds" "d < 10" by blast
  then have "digit_char d \<noteq> CHR ''+''"
    using digit_of_char [of d] by (auto simp: digit_of_def Let_def split: if_splits)
  with d parse_digits_dec [OF n] show ?thesis by (simp add: parse_u128_def)
qed


text \<open>What \<open>serde_json\<close> documents: the text of a value is read back as the value.\<close>

definition reads_back :: "ipc_env \<Rightarrow> json \<Rightarrow> bool" where
  "reads_back J j \<longleftrightarrow> value_from_text J (value_to_text J j) = Some j"

lemma value_from_bytes: "reads_back J j \<Longrightarrow> value_from_slice J (as_bytes (value_to_text J j)) = Some j"
proof -
  assume "reads_back J j"
  moreover have "(\<lambda>c. char_of (unat (of_char c :: u8))) = (\<lambda>c. c)"
    by (rule ext) (simp add: unat_of_char)
  ultimately show ?thesis by (simp add: value_from_slice_def as_bytes_def reads_back_def comp_def)
qed

lemma message_key_fits:
  assumes "heapless_ok E" "now < 2 ^ 128"
  shows "push_str E 256 (msg_prefix @ dec now) = msg_prefix @ dec now"
proof -
  have "length (dec now) \<le> 39" using assms(2) by (intro length_dec) auto
  then have "length (msg_prefix @ dec now) \<le> 256" by (simp add: msg_prefix_def)
  with assms(1) show ?thesis by (rule push_str_fits)
qed

lemma send_command_fits:
  assumes "heapless_ok E" "now < 2 ^ 128"
  shows "send_command E J from now text =
    Put (msg_prefix @ dec now) (take 1024 (as_bytes (value_to_text J (message_json from now text))))"
proof -
  have "''_msg:'' @ dec now = msg_prefix @ dec now" by (simp add: msg_prefix_def)
  then show ?thesis
    unfolding send_command_def using message_key_fits [OF assms] push_bytes_take [OF assms(1)] by metis
qed

lemma read_message_key:
  "now < 2 ^ 128 \<Longrightarrow> read_message parse (msg_prefix @ dec now, b) = map_option (Pair now) (parse b)"
  by (cases "parse b") (simp_all add: read_message_def strip_prefix_def starts_with_def parse_dec)

text \<open>What a new entry under the key of a time does to the list of messages.\<close>

definition readable :: "(u8 list \<Rightarrow> 'j option) \<Rightarrow> (string, u8 list) hmap \<Rightarrow> (nat \<times> 'j) list" where
  "readable parse m = List.map_filter (read_message parse) (filter (\<lambda>kv. starts_with (fst kv) msg_prefix) m)"

lemma readable_append [simp]: "readable parse (xs @ ys) = readable parse xs @ readable parse ys"
  by (simp add: readable_def map_filter_def)

lemma readable_Cons:
  "readable parse (kv # m) =
     (case read_message parse kv of None \<Rightarrow> readable parse m | Some p \<Rightarrow> p # readable parse m)"
  by (auto simp: readable_def map_filter_simps read_message_def strip_prefix_def split: option.splits)

lemma stamped_readable: "stamped_messages parse sm = sort_key (\<lambda>p. - int (fst p)) (readable parse (sm_data sm))"
  by (simp add: stamped_messages_def readable_def)

lemma readable_insert:
  assumes "now < 2 ^ 128" "now \<notin> fst ` set (readable parse m)"
  obtains xs ys where "readable parse m = xs @ ys"
    "readable parse (hm_insert (msg_prefix @ dec now) b m) =
       xs @ (case parse b of None \<Rightarrow> [] | Some j \<Rightarrow> [(now, j)]) @ ys"
proof (cases rule: hm_insert_cases [of "msg_prefix @ dec now" b m])
  case (1 xs ys)
  then show ?thesis
    using that [of "readable parse xs" "readable parse ys"] assms(1)
    by (simp add: readable_Cons read_message_key split: option.splits)
next
  case (2 xs ys w)
  with assms have "parse w = None"
    by (auto simp: readable_Cons read_message_key split: option.splits)
  with 2 show ?thesis
    using that [of "readable parse xs" "readable parse ys"] assms(1)
    by (simp add: readable_Cons read_message_key split: option.splits)
qed

lemma send_applied:
  assumes "heapless_ok E" "now < 2 ^ 128" "sm_last_applied sm < i"
  shows "sm_data (sm_step \<lparr>index = i, entry_term = t, command = send_command E J from now text\<rparr> sm) =
    hm_insert (msg_prefix @ dec now)
      (take 1024 (as_bytes (value_to_text J (message_json from now text)))) (sm_data sm)"
proof -
  have "\<not> i \<le> sm_last_applied sm" using assms(3) by simp
  then show ?thesis using assms(1,2) by (simp add: sm_step_def apply_entry_def send_command_fits)
qed

text \<open>
  C38: A message whose JSON text is at most 1024 bytes, sent later than every message the machine
  holds, is the first one a Messages request returns once its entry is applied, exactly as it was
  sent; the others follow as before.
\<close>
theorem sent_message_listed:
  assumes "heapless_ok E" "reads_back J (message_json from now text)" "now < 2 ^ 128" "sm_last_applied sm < i"
    and "length (value_to_text J (message_json from now text)) \<le> 1024"
    and "fst ` set (stamped_messages (value_from_slice J) sm) \<subseteq> {..<now}" "0 < limit"
  shows "sm_get_messages (value_from_slice J)
      (sm_step \<lparr>index = i, entry_term = t, command = send_command E J from now text\<rparr> sm) limit =
    message_json from now text # sm_get_messages (value_from_slice J) sm (limit - 1)"
proof -
  let ?parse = "value_from_slice J" and ?j = "message_json from now text"
  have old: "fst ` set (readable ?parse (sm_data sm)) \<subseteq> {..<now}"
    using assms(6) by (simp add: stamped_readable)
  then have new: "now \<notin> fst ` set (readable ?parse (sm_data sm))" by auto
  from assms(3) new obtain xs ys where
    m: "readable ?parse (sm_data sm) = xs @ ys" and
    n: "readable ?parse (hm_insert (msg_prefix @ dec now) (as_bytes (value_to_text J ?j)) (sm_data sm)) =
      xs @ (now, ?j) # ys"
    by (rule readable_insert [where b = "as_bytes (value_to_text J ?j)"])
      (simp_all add: value_from_bytes [OF assms(2)])
  have "sort_key (\<lambda>p. - int (fst p)) (xs @ (now, ?j) # ys) =
      (now, ?j) # sort_key (\<lambda>p. - int (fst p)) (xs @ ys)"
    using old by (intro sort_key_new_least) (auto simp: m)
  moreover have "unat limit = Suc (unat (limit - 1))" using assms(7) by (simp add: unat_minus_one unat_gt_0)
  ultimately show ?thesis
    using assms(5) send_applied [OF assms(1,3,4), of t J "from" "text"]
    by (simp add: sm_get_messages_def stamped_readable m n)
qed

lemma sent_message_listed_witness:
  "sm_get_messages (value_from_slice sample_ipc)
      (sm_step \<lparr>index = 1, entry_term = 1, command = send_command serde_ref sample_ipc ''a'' 5 ''hi''\<rparr>
        new_state_machine) 3 =
    message_json ''a'' 5 ''hi'' # sm_get_messages (value_from_slice sample_ipc) new_state_machine (3 - 1)"
  by (rule sent_message_listed [OF serde_ok_heapless [OF serde_ref_ok]])
    (simp_all add: sample_ipc_def short_message_def reads_back_def new_state_machine_def
      sample_messages [unfolded new_state_machine_def])

text \<open>
  A message whose JSON text is longer than 1024 bytes is stored cut off; what is left is not JSON,
  so once applied it is not among the messages, although its sender was told that it was sent.
\<close>
theorem long_message_lost:
  assumes "heapless_ok E" "now < 2 ^ 128" "sm_last_applied sm < i"
    and "1024 < length (value_to_text J (message_json from now text))"
    and "value_from_slice J (take 1024 (as_bytes (value_to_text J (message_json from now text)))) = None"
    and "now \<notin> fst ` set (stamped_messages (value_from_slice J) sm)"
  shows "sm_get_messages (value_from_slice J)
      (sm_step \<lparr>index = i, entry_term = t, command = send_command E J from now text\<rparr> sm) limit =
    sm_get_messages (value_from_slice J) sm limit"
proof -
  have "now \<notin> fst ` set (readable (value_from_slice J) (sm_data sm))"
    using assms(6) by (simp add: stamped_readable)
  from assms(2) this have "readable (value_from_slice J) (hm_insert (msg_prefix @ dec now)
      (take 1024 (as_bytes (value_to_text J (message_json from now text)))) (sm_data sm)) =
    readable (value_from_slice J) (sm_data sm)"
    by (rule readable_insert [where b = "take 1024 (as_bytes (value_to_text J (message_json from now text)))"])
      (simp add: assms(5))
  then show ?thesis
    using send_applied [OF assms(1-3), of t J "from" "text"]
    by (simp add: sm_get_messages_def stamped_readable)
qed

lemma long_message_lost_witness:
  "sm_get_messages (value_from_slice sample_ipc)
      (sm_step \<lparr>index = 1, entry_term = 1, command = send_command serde_ref sample_ipc ''a'' 5 ''ho''\<rparr>
        new_state_machine) 3 =
    sm_get_messages (value_from_slice sample_ipc) new_state_machine 3"
proof (rule long_message_lost [OF serde_ok_heapless [OF serde_ref_ok]])
  have x: "value_to_text sample_ipc (message_json ''a'' 5 ''ho'') = replicate 1025 CHR ''x''"
    by (simp add: sample_ipc_def short_message_def message_json_def)
  then show "1024 < length (value_to_text sample_ipc (message_json ''a'' 5 ''ho''))" by simp
  have "length (map f (take 1024 (as_bytes (replicate 1025 CHR ''x'')))) \<noteq> length ''m''" for f :: "u8 \<Rightarrow> char"
    by (simp add: as_bytes_def)
  then have "map f (take 1024 (as_bytes (replicate 1025 CHR ''x''))) \<noteq> ''m''" for f :: "u8 \<Rightarrow> char"
    by metis
  then show "value_from_slice sample_ipc
      (take 1024 (as_bytes (value_to_text sample_ipc (message_json ''a'' 5 ''ho'')))) = None"
    unfolding x by (simp add: value_from_slice_def sample_ipc_def del: replicate.simps take_replicate take_map)
  show "5 \<notin> fst ` set (stamped_messages (value_from_slice sample_ipc) new_state_machine)"
    by (simp add: sample_messages)
qed (simp_all add: new_state_machine_def)

text \<open>
  Two messages taken by the leader in the same millisecond have the same key: once both are applied
  the list is the same as if the first had never been sent, although both senders were told that their
  message was sent.
\<close>
theorem same_millisecond_lost:
  assumes "heapless_ok E" "now < 2 ^ 128" "sm_last_applied sm < i" "i < j"
  shows "sm_get_messages parse
      (sm_step \<lparr>index = j, entry_term = u, command = send_command E J from now second\<rparr>
        (sm_step \<lparr>index = i, entry_term = t, command = send_command E J from now first\<rparr> sm)) limit =
    sm_get_messages parse
      (sm_step \<lparr>index = j, entry_term = u, command = send_command E J from now second\<rparr> sm) limit"
proof -
  have "sm_last_applied (sm_step \<lparr>index = i, entry_term = t, command = send_command E J from now first\<rparr> sm) < j"
    "sm_last_applied sm < j"
    using assms(3,4) by (simp_all add: sm_last_applied_step)
  then show ?thesis
    by (simp add: sm_get_messages_def stamped_messages_def send_applied [OF assms(1,2)] assms(3) hm_insert_def)
qed

lemma same_millisecond_lost_witness:
  "sm_get_messages (value_from_slice sample_ipc)
      (sm_step \<lparr>index = 2, entry_term = 1, command = send_command serde_ref sample_ipc ''a'' 5 ''hi''\<rparr>
        (sm_step \<lparr>index = 1, entry_term = 1, command = send_command serde_ref sample_ipc ''a'' 5 ''ho''\<rparr>
          new_state_machine)) 3 =
    sm_get_messages (value_from_slice sample_ipc)
      (sm_step \<lparr>index = 2, entry_term = 1, command = send_command serde_ref sample_ipc ''a'' 5 ''hi''\<rparr>
        new_state_machine) 3"
  by (rule same_millisecond_lost [OF serde_ok_heapless [OF serde_ref_ok]]) (simp_all add: new_state_machine_def)

end
