(* ===== verification/Propose_Race.thy ===== *)
theory Propose_Race
  imports Ipc_Properties
begin

text \<open>
  \<open>propose\<close> of \<open>raft/src/node.rs\<close> releases the log between appending an entry and noting who waits for
  it.  Here it is cut at that point, so that other tasks of the node can run in between.
\<close>

section \<open>The two parts\<close>

definition propose_append :: "'e serde_scheme \<Rightarrow> command \<Rightarrow> nat \<Rightarrow> u64 option node_op" where
  "propose_append E c tx = scope (
     bind (gets role) (\<lambda>r.
     if r \<noteq> Leader then bind (gets leader_id) (\<lambda>l. seq (reply_to tx (NotLeader l)) (ret None))
     else
     seq lock_log (
     bind (gets node_term) (\<lambda>t.
     bind (on_log (log_append E t c)) (\<lambda>i.
     seq drop_log (ret (Some i)))))))"

definition propose_register :: "'e serde_scheme \<Rightarrow> nat \<Rightarrow> u64 \<Rightarrow> unit node_op" where
  "propose_register E tx i =
     seq (modify (\<lambda>s. s\<lparr>pending_requests := hm_insert i tx (pending_requests s)\<rparr>)) (send_heartbeats E)"

definition propose_interleaved :: "'e serde_scheme \<Rightarrow> command \<Rightarrow> nat \<Rightarrow> unit node_op \<Rightarrow> unit node_op" where
  "propose_interleaved E c tx between =
     bind (propose_append E c tx) (\<lambda>r. case r of
       None \<Rightarrow> ret ()
     | Some i \<Rightarrow> seq between (propose_register E tx i))"

text \<open>When nothing runs in between, the parts are the method.\<close>

lemma propose_parts: "propose_interleaved E c tx (ret ()) s = propose E c tx s"
proof (cases "role s = Leader \<and> \<not> log_locked s")
  case True
  obtain r l where a: "log_append E (node_term s) c (log s) = (r, l)" by force
  let ?s = "\<lambda>i. s\<lparr>log := l, pending_requests := hm_insert i tx (pending_requests s)\<rparr>"
  have h: "send_heartbeats E (?s i) = (Ret (), broadcast E (?s i))"
    "(broadcast E (?s i))\<lparr>log_locked := False\<rparr> = broadcast E (?s i)" for i
    using True send_heartbeats_leader [of "?s i" E] by (simp_all add: broadcast_def)
  have "s\<lparr>log := l, log_locked := False\<rparr> = s\<lparr>log := l\<rparr>" "s\<lparr>log_locked := True, log := l, log_locked := False\<rparr> = s\<lparr>log := l\<rparr>"
    using True by simp_all
  with True a h show ?thesis
    by (cases r) (simp_all add: propose_interleaved_def propose_append_def propose_register_def propose_def
        scope_def bind_def gets_def lock_log_free on_log_run drop_log_def modify_def ret_def)
next
  case False
  then show ?thesis
    by (auto simp: propose_interleaved_def propose_append_def propose_def scope_def bind_def gets_def
        lock_log_held reply_to_def modify_def ret_def)
qed

section \<open>The race\<close>

text \<open>The heartbeat task's turn, and the answer of a peer.\<close>

definition beat_and_ack :: "'e serde_scheme \<Rightarrow> string \<Rightarrow> append_entries_response \<Rightarrow> unit node_op" where
  "beat_and_ack E from resp = seq (send_heartbeats E) (handle_append_entries_response E from resp)"

text \<open>
  C33: A client can be told that its write timed out although it is committed and can be read.  On a
  leader of two or three nodes, if the heartbeat task runs between the two parts of the proposal and a
  peer's acknowledgement comes back, the entry is committed and applied while nobody is registered for
  it; the proposal is registered afterwards and waits.  The same events after the proposal answer it.
\<close>
theorem commit_before_registration:
  fixes s :: node
  assumes "node_ok E s" "role s = Leader" "sm_wf (machine s)"
    and "hm_wf (pending_requests s)" "length (hm_keys (peers s)) \<le> 2" "commit_index s \<le> last_index (log s)"
    and "last_applied s \<le> commit_index s" "sm_last_applied (machine s) \<le> last_applied s"
    and "last_index (log s) \<noteq> - 1" "command_ok (Put key v)"
    and "tx \<notin> fst ` set (replies s)" "tx \<notin> snd ` set (pending_requests s)"
    and "aer_term resp \<le> node_term s" "success resp" "aer_last_log_index resp = last_index (log s) + 1"
  shows "\<exists>s' s''. propose_interleaved E (Put key v) tx (beat_and_ack E from resp) s = (Ret (), s') \<and>
    commit_index s' = last_index (log s) + 1 \<and> get_value key s' = Some v \<and>
    propose_response (outcome_of tx s') = failure ''Timeout waiting for commit'' \<and>
    seq (propose E (Put key v) tx) (beat_and_ack E from resp) s = (Ret (), s'') \<and>
    outcome_of tx s'' = Received (Success (last_index (log s) + 1))"
proof -
  let ?i = "last_index (log s) + 1" and ?c = "Put key v"
  define p where "p = proposed E ?c tx s"
  note ps = proposed_put [OF assms(1,2,9,10), of tx, folded p_def]
  define a where "a = p\<lparr>pending_requests := pending_requests s\<rparr>"
  define fin where "fin = (\<lambda>x. committed_at ?i (record_match from ?i (broadcast E x)))"
  have lt: "commit_index s < ?i" using assms(6) less_plus_one_iff [OF assms(9)] by simp
  have ack: "beat_and_ack E from resp x = (Ret (), fin x)"
    if "role x = Leader" "\<not> log_locked x" "log x = log p" "peers x = peers s" "commit_index x = commit_index s"
      "hm_wf (pending_requests x)" for x
  proof -
    have "handle_append_entries_response E from resp (broadcast E x) = (Ret (), fin x)"
      using acknowledged_commits [of "broadcast E x" resp E "from"] that lt assms(5,13-15) ps
      by (simp add: fin_def term_at_def log_current_term_def)
    moreover have "send_heartbeats E x = (Ret (), broadcast E x)"
      using send_heartbeats_leader [OF that(1,2), of E] by (simp add: broadcast_def)
    ultimately show ?thesis by (simp add: beat_and_ack_def bind_def)
  qed
  have E: "serde_ok E" "synced E (log s)" "\<not> log_locked s" using assms(1) by (simp_all add: node_ok_def)
  have "a = s\<lparr>log_locked := True, log := log p, log_locked := False\<rparr>"
    using E(3) by (cases s) (simp add: a_def p_def proposed_def Let_def)
  moreover have "log_append E (node_term s) ?c (log s) = (Ret ?i, log p)"
    using synced_log_append(1) [OF E(1,2) assms(9,10)] by (simp add: p_def proposed_def Let_def)
  ultimately have append: "propose_append E ?c tx s = (Ret (Some ?i), a)"
    using assms(2) E(3)
    by (simp add: propose_append_def scope_def bind_def gets_def lock_log_free on_log_run drop_log_def modify_def ret_def)
  have late: "beat_and_ack E from resp a = (Ret (), fin a)"
    using ps assms(4) by (intro ack) (simp_all add: a_def)
  have early: "beat_and_ack E from resp (broadcast E p) = (Ret (), fin (broadcast E p))"
    using ps assms(4) by (intro ack) (simp_all add: hm.wf_ins)
  define f where "f = fin a"
  have fs: "role f = Leader" "\<not> log_locked f" "commit_index f = ?i" "pending_requests f = fold hm_remove (pending_up_to a ?i) (pending_requests s)"
    "replies f = replies s @ map (success_of (pending_requests s)) (pending_up_to a ?i)"
    "get_value key f = get_value key (apply_result_of ((record_match from ?i (broadcast E a))\<lparr>commit_index := ?i\<rparr>))"
    using ps by (simp_all add: f_def fin_def committed_at_def notified_def apply_result_of_eq record_match_def
        broadcast_def a_def pending_up_to_def get_value_def)
  let ?g = "f\<lparr>pending_requests := hm_insert ?i tx (pending_requests f)\<rparr>"
  let ?s' = "broadcast E ?g"
  have "propose_register E tx ?i f = (Ret (), ?s')"
    using fs(1,2) send_heartbeats_leader [of ?g E]
    by (simp add: propose_register_def bind_def modify_def broadcast_def)
  with append late [folded f_def] have "propose_interleaved E ?c tx (beat_and_ack E from resp) s = (Ret (), ?s')"
    by (simp add: propose_interleaved_def bind_def)
  moreover have "commit_index ?s' = ?i" using fs(3) by simp
  moreover have "get_value key ?s' = Some v"
  proof -
    have "get_value key f = Some v"
      unfolding fs(6)
      by (rule apply_new_put [OF _ _ _ _ assms(9), where e = "\<lparr>index = ?i, entry_term = node_term s, command = ?c\<rparr>"])
        (use assms ps in \<open>simp_all add: a_def record_match_def\<close>)
    then show ?thesis by (simp add: get_value_def broadcast_def)
  qed
  moreover have "outcome_of tx ?s' = TimedOut"
  proof -
    have "tx \<notin> fst ` set (map (success_of (pending_requests s)) (pending_up_to a ?i))"
      using assms(12) by (auto simp: success_of_def pending_up_to_def a_def hm.set_keys)
        (metis hm_get_def image_eqI map_of_SomeD snd_conv)
    with assms(11) have "map_of (replies f) tx = None" by (simp add: fs(5) map_of_eq_None_iff image_Un)
    moreover have "(?i, tx) \<in> set (hm_insert ?i tx (pending_requests f))"
      using hm.get_ins [of ?i tx "pending_requests f" ?i] by (simp add: hm_get_def map_of_SomeD)
    then have "tx \<in> snd ` set (hm_insert ?i tx (pending_requests f))" by force
    ultimately show ?thesis by (simp add: outcome_of_def broadcast_def)
  qed
  moreover have "outcome_of tx (fin (broadcast E p)) = Received (Success ?i)"
    unfolding fin_def
  proof (rule outcome_committed)
    show "j = ?i" if "hm_get (pending_requests (record_match from ?i (broadcast E (broadcast E p)))) j = Some tx" for j
      using that assms(12) ps(13) by (auto simp: hm_simps split: if_splits)
        (metis hm_get_def image_eqI map_of_SomeD snd_conv)
  qed (use ps assms(4,11) in \<open>simp_all add: record_match_def broadcast_def hm.wf_ins hm_simps\<close>)
  ultimately show ?thesis
    using early ps(1) by (intro exI [of _ ?s'] exI [of _ "fin (broadcast E p)"]) (simp add: bind_def propose_response_def)
qed

lemma commit_before_registration_witness:
  "\<exists>s' s''. propose_interleaved serde_ref (Put ''x'' [1]) 8 (beat_and_ack serde_ref ''b''
        \<lparr>aer_term = 2, success = True, aer_last_log_index = 3, aer_node_id = ''b''\<rparr>) leader_of_two = (Ret (), s') \<and>
    commit_index s' = 3 \<and> get_value ''x'' s' = Some [1] \<and>
    propose_response (outcome_of 8 s') = failure ''Timeout waiting for commit'' \<and> outcome_of 8 s'' = Received (Success 3)"
proof -
  have n: "node_ok serde_ref leader_of_two"
    using lead_log(1) leader_of_two_facts by (simp add: node_ok_def serde_ref_ok)
  have i: "last_index lead_log = 2" by (simp add: log_of_view [OF lead_log(2)])
  have m: "machine leader_of_two = new_state_machine" "last_applied leader_of_two = 0"
    by (simp_all add: leader_of_two_def)
  show ?thesis
    using commit_before_registration [OF n, of "''x''" "[1]" 8
        "\<lparr>aer_term = 2, success = True, aer_last_log_index = 3, aer_node_id = ''b''\<rparr>" "''b''"]
    by (auto simp: leader_of_two_facts i m lead_term new_state_machine_def hm_wf_def sm_wf_def MAX_KEY_SIZE_def MAX_VALUE_SIZE_def)
qed

section \<open>A leader overtaken\<close>

text \<open>
  The role is read before the log is waited for, so the same method cut at that point: \<open>between\<close> is what
  the holders of the log do before it is given to the proposal.
\<close>

definition propose_locked :: "'e serde_scheme \<Rightarrow> command \<Rightarrow> nat \<Rightarrow> unit node_op" where
  "propose_locked E c tx = scope (
     seq lock_log (
     bind (gets node_term) (\<lambda>t.
     bind (on_log (log_append E t c)) (\<lambda>i.
     seq drop_log (propose_register E tx i)))))"

definition propose_overtaken :: "'e serde_scheme \<Rightarrow> command \<Rightarrow> nat \<Rightarrow> unit node_op \<Rightarrow> unit node_op" where
  "propose_overtaken E c tx between =
     bind (gets role) (\<lambda>r.
     if r \<noteq> Leader then bind (gets leader_id) (\<lambda>l. reply_to tx (NotLeader l))
     else seq between (propose_locked E c tx))"

lemma propose_overtaken_parts: "propose_overtaken E c tx (ret ()) s = propose E c tx s"
  by (simp add: propose_overtaken_def propose_locked_def propose_register_def propose_def scope_def bind_def
      gets_def ret_def reply_to_def modify_def)

lemma propose_locked_free:
  assumes "node_ok E s" "role s \<noteq> Leader" "last_index (log s) \<noteq> - 1" "command_ok c"
  shows "propose_locked E c tx s = (Ret (), proposed E c tx s) \<and> node_ok E (proposed E c tx s)"
proof -
  have E: "serde_ok E" "synced E (log s)" "\<not> log_locked s" using assms(1) by (simp_all add: node_ok_def)
  note a = synced_log_append [OF E(1,2) assms(3,4), of "node_term s"]
  have "s\<lparr>log_locked := False\<rparr> = s" using E(3) by simp
  then show ?thesis
    using a E assms(2)
    by (auto simp: propose_locked_def propose_register_def scope_def bind_def lock_log_free gets_def on_log_run
        drop_log_def modify_def send_heartbeats_idle proposed_def Let_def node_ok_def)
qed

text \<open>A heartbeat that brings no entry and no commit.\<close>

lemma bare_heartbeat:
  assumes "node_ok E s" "node_term s \<le> ae_term req"
    and "prev_log_index req = 0 \<or> has_entry (log s) (prev_log_index req) (prev_log_term req)"
    and "ae_entries req = []" "leader_commit req \<le> commit_index s" "last_applied s = commit_index s"
  shows "\<exists>s'. handle_append_entries E from req s = (Ret (), s') \<and> node_ok E s' \<and>
    role s' = (if node_term s < ae_term req then Follower else role s) \<and> node_term s' = ae_term req \<and>
    entries (log s') = entries (log s) \<and> last_index (log s') = last_index (log s) \<and>
    commit_index s' = commit_index s \<and> last_applied s' = commit_index s \<and> machine s' = machine s \<and>
    node_id s' = node_id s \<and> message (last (outgoing s')) = AppendEntriesResponse
      \<lparr>aer_term = node_term s, success = True, aer_last_log_index = last_index (log s),
       aer_node_id = push_str E 64 (node_id s)\<rparr>"
proof -
  have f: "apply_result_of (follower_state l req s) = follower_state l req s" for l
    using assms(5,6) by (simp add: apply_result_of_eq follower_state_def entries_between_empty not_less)
  obtain l where l: "handle_append_entries E from req s = (Ret (), (follower_state l req s)
        \<lparr>outgoing := outgoing s @ [append_entries_reply E (follower_state l req s) from (node_term s) True]\<rparr>)"
    "synced E l" "entries l = entries (log s)" "last_index l = last_index (log s)" "log_current_term l = ae_term req"
    using append_entries_accept [OF assms(1-3), of "from"] assms(4) f by auto
  show ?thesis
    using l(2-5) assms(1,5,6)
    by (auto simp: l(1) not_less [symmetric] follower_state_def node_ok_def append_entries_reply_def new_envelope_def)
qed

text \<open>What a leader that believes a peer to be level sends it.\<close>

lemma level_heartbeat:
  fixes E :: "'e serde_scheme"
  assumes "hm_get (next_index s) p = Some (last_index (log s) + 1)" "last_index (log s) \<noteq> - 1"
  defines "req \<equiv> append_entries_for E s p"
  shows "ae_term req = node_term s" "prev_log_index req = last_index (log s)"
    "prev_log_term req = default_or 0 (term_at (log s) (last_index (log s)))"
    "ae_entries req = []" "leader_commit req = commit_index s"
proof -
  have i: "saturating_sub (last_index (log s) + 1) 1 = last_index (log s)"
    "unat (last_index (log s) + 1) = Suc (unat (last_index (log s)))"
    using less_plus_one_iff [OF assms(2), of 0] unat_plus_one [OF assms(2)]
    by (simp_all add: saturating_sub_def word_le_nat_alt word_less_nat_alt word_unat_eq_iff)
  show "ae_term req = node_term s" "prev_log_index req = last_index (log s)"
    "prev_log_term req = default_or 0 (term_at (log s) (last_index (log s)))"
    "ae_entries req = []" "leader_commit req = commit_index s"
    using assms(1) i
    by (simp_all add: req_def append_entries_for_def Let_def default_or_def get_entries_def range_incl_def map_filter_simps)
qed

lemma get_value_committed:
  "get_value key (committed_at i x) = get_value key (apply_result_of (x\<lparr>commit_index := i\<rparr>))"
  by (simp add: committed_at_def notified_def apply_result_of_eq get_value_def)

text \<open>
  C8: A leader that is overtaken while it waits for the log breaks the safety of the cluster.  Two nodes
  hold the same entries; the first, a leader of an older term, takes a client's Put and, before it gets
  the log, a heartbeat of the second, the new leader.  It then appends the Put as a follower in the new
  term, answers the next heartbeat with that index, and the new leader takes this for its own entry of
  the same index: both commit the index, and the two nodes then read different values.
\<close>
theorem overtaken_proposal_diverges:
  fixes s t :: node
  assumes "node_ok E s" "role s = Leader" "sm_wf (machine s)" "last_applied s = commit_index s"
    and "commit_index s \<le> last_index (log s)" "sm_last_applied (machine s) \<le> last_applied s"
    and "node_ok E t" "role t = Leader" "sm_wf (machine t)" "last_applied t \<le> commit_index t"
    and "sm_last_applied (machine t) \<le> last_applied t" "hm_wf (pending_requests t)" "length (hm_keys (peers t)) \<le> 2"
    and "commit_index t \<le> commit_index s" "node_term s < node_term t" "last_index (log s) < - 2"
    and "entries (log t) = entries (log s)" "last_index (log t) = last_index (log s)"
    and "hm_get (next_index t) (node_id s) = Some (last_index (log t) + 1)"
    and "last_index (log s) = 0 \<or> entries (log s) (last_index (log s)) \<noteq> None"
    and "command_ok (Put key v)" "command_ok (Put key w)"
  defines "hears \<equiv> \<lambda>ldr. handle_append_entries E (node_id t) (append_entries_for E ldr (node_id s))"
    and "i \<equiv> last_index (log s) + 1"
  shows "\<exists>s1 s2 s3 resp t1 t2.
    propose_overtaken E (Put key v) tx (hears t) s = (Ret (), s1) \<and> role s1 = Follower \<and>
    hears t s1 = (Ret (), s2) \<and> message (last (outgoing s2)) = AppendEntriesResponse resp \<and>
    propose E (Put key w) tx' t = (Ret (), t1) \<and>
    handle_append_entries_response E (node_id s) resp t1 = (Ret (), t2) \<and>
    hears t2 s2 = (Ret (), s3) \<and>
    commit_index t2 = i \<and> get_value key t2 = Some w \<and> commit_index s3 = i \<and> get_value key s3 = Some v"
proof -
  let ?n = "last_index (log s)" and ?me = "node_id s"
  have n: "?n \<noteq> - 1" "i \<noteq> - 1" "?n < i" "i \<noteq> 0"
  proof -
    show a: "?n \<noteq> - 1" using assms(16) by auto
    show "?n < i" using less_plus_one_iff [OF a, of ?n] by (simp add: i_def)
    then show "i \<noteq> 0" by auto
    have "i = - 1 \<Longrightarrow> ?n = - 2" by (simp add: i_def eq_diff_eq [symmetric])
    then show "i \<noteq> - 1" using assms(16) by auto
  qed
  define req where "req = append_entries_for E t ?me"
  have r: "ae_term req = node_term t" "prev_log_index req = ?n" "ae_entries req = []" "leader_commit req = commit_index t"
    "?n = 0 \<or> (\<exists>e. entries (log s) ?n = Some e \<and> entry_term e = prev_log_term req)"
    using level_heartbeat [of t ?me E] assms(17-20) n(1)
    by (auto simp: req_def default_or_def term_at_def)
  define e where "e = \<lparr>index = i, entry_term = node_term t, command = Put key v\<rparr>"
  have "prev_log_index req = 0 \<or> has_entry (log s) (prev_log_index req) (prev_log_term req)"
    using r by (auto simp: has_entry_def)
  from bare_heartbeat [OF assms(1) _ this r(3) _ assms(4), of "node_id t"]
  obtain a where a: "hears t s = (Ret (), a)" "node_ok E a" "role a = Follower" "node_term a = node_term t"
    "entries (log a) = entries (log s)" "last_index (log a) = ?n" "commit_index a = commit_index s"
    "last_applied a = commit_index s" "machine a = machine s" "node_id a = ?me"
    using r assms(14,15) by (force simp: hears_def req_def [symmetric])
  define s1 where "s1 = proposed E (Put key v) tx a"
  have "last_index (log a) \<noteq> - 1" "role a \<noteq> Leader" using a n by simp_all
  from propose_locked_free [OF a(2) this(2,1) assms(21), of tx]
  have s1: "propose_locked E (Put key v) tx a = (Ret (), s1)" "node_ok E s1"
    "role s1 = Follower" "node_term s1 = node_term t" "entries (log s1) = (entries (log s))(i \<mapsto> e)"
    "last_index (log s1) = i" "commit_index s1 = commit_index s" "last_applied s1 = commit_index s1"
    "machine s1 = machine s" "node_id s1 = ?me"
    using a n(3) by (auto simp: s1_def proposed_def Let_def log_current_term_def insert_entry_def max_def i_def [symmetric] e_def)
  have "prev_log_index req = 0 \<or> has_entry (log s1) (prev_log_index req) (prev_log_term req)"
    using r n(3) by (auto simp: has_entry_def s1(5))
  from bare_heartbeat [OF s1(2) _ this r(3) _ s1(8), of "node_id t"]
  obtain s2 where s2: "hears t s1 = (Ret (), s2)" "node_ok E s2" "node_term s2 = node_term t"
    "entries (log s2) = (entries (log s))(i \<mapsto> e)" "last_index (log s2) = i" "commit_index s2 = commit_index s"
    "last_applied s2 = commit_index s" "machine s2 = machine s"
    "message (last (outgoing s2)) = AppendEntriesResponse
      \<lparr>aer_term = node_term t, success = True, aer_last_log_index = i, aer_node_id = push_str E 64 ?me\<rparr>"
    using s1 r(1,4) assms(14) by (force simp: hears_def req_def [symmetric])
  define p where "p = proposed E (Put key w) tx' t"
  have L: "last_index (log t) \<noteq> - 1" "last_index (log t) + 1 = i" using assms(18) n(1) by (simp_all add: i_def)
  note ps = proposed_put [OF assms(7,8) L(1) assms(22), of tx', folded p_def, unfolded L(2)]
  let ?x = "record_match ?me i (broadcast E p)"
  define t2 where "t2 = committed_at i ?x"
  have ack: "handle_append_entries_response E ?me
      \<lparr>aer_term = node_term t, success = True, aer_last_log_index = i, aer_node_id = push_str E 64 ?me\<rparr> (broadcast E p) = (Ret (), t2)"
    using acknowledged_commits [of "broadcast E p" _ E ?me] ps assms(5,12-14) n(3)
    by (simp add: t2_def term_at_def log_current_term_def hm.wf_ins)
  have w: "get_value key t2 = Some w"
    unfolding t2_def get_value_committed i_def
    by (rule apply_new_put [OF _ _ _ _ n(1), where e = "\<lparr>index = i, entry_term = node_term t, command = Put key w\<rparr>"])
      (use assms(5,9-11,14) ps in \<open>simp_all add: record_match_def i_def\<close>)
  have ts: "last_index (log t2) = i" "entries (log t2) i = Some \<lparr>index = i, entry_term = node_term t, command = Put key w\<rparr>"
    "node_term t2 = node_term t" "commit_index t2 = i" "hm_get (next_index t2) ?me = Some (i + 1)"
    using ps by (simp_all add: t2_def committed_at_def notified_def apply_result_of_eq record_match_def hm_simps log_current_term_def)
  define req3 where "req3 = append_entries_for E t2 ?me"
  have r3: "ae_term req3 = node_term t" "prev_log_index req3 = i" "prev_log_term req3 = node_term t" "ae_entries req3 = []"
    "leader_commit req3 = i"
    using level_heartbeat [of t2 ?me E] ts n(2) by (simp_all add: req3_def default_or_def term_at_def)
  have "has_entry (log s2) (prev_log_index req3) (prev_log_term req3)"
    by (simp add: has_entry_def s2(4) r3 e_def)
  with append_entries_accept [OF s2(2), of req3 "node_id t"] s2 r3 obtain l where l:
    "handle_append_entries E (node_id t) req3 s2 = (Ret (), (apply_result_of (follower_state l req3 s2))
        \<lparr>outgoing := outgoing s2 @ [append_entries_reply E (follower_state l req3 s2) (node_id t) (node_term s2) True]\<rparr>)"
    "synced E l" "entries l = (entries (log s))(i \<mapsto> e)" "last_index l = i"
    by auto
  let ?f = "follower_state l req3 s2"
  have "commit_index s < i" using assms(5) n(3) by simp
  then have c: "commit_index ?f = i" "?f\<lparr>commit_index := ?n + 1\<rparr> = ?f"
    by (simp_all add: follower_state_def s2 r3 l i_def)
  have "get_value key (apply_result_of (?f\<lparr>commit_index := ?n + 1\<rparr>)) = Some v"
    by (rule apply_new_put [OF _ _ _ _ n(1), where e = e])
      (use assms(3-6) s2 l in \<open>simp_all add: follower_state_def e_def synced_def i_def\<close>)
  then have v: "get_value key (apply_result_of ?f) = Some v" using c by simp
  have over: "propose_overtaken E (Put key v) tx (hears t) s = (Ret (), s1)"
    using a(1) s1(1) assms(2) by (simp add: propose_overtaken_def bind_def gets_def)
  let ?s3 = "(apply_result_of ?f)
    \<lparr>outgoing := outgoing s2 @ [append_entries_reply E ?f (node_id t) (node_term s2) True]\<rparr>"
  have "hears t2 s2 = (Ret (), ?s3)" using l(1) by (simp add: hears_def req3_def)
  moreover have "commit_index ?s3 = i" "get_value key ?s3 = Some v"
    using c(1) v by (simp_all add: apply_result_of_eq get_value_def)
  ultimately show ?thesis
    using over s1(3) s2(1,9) ps(1) ack ts(4) w by blast
qed

text \<open>The run on two nodes of three: \<open>a\<close> leads term 2, \<open>b\<close> term 3.\<close>

definition next_log :: raft_log where
  "next_log = grown_log [SetTerm 2, AppendCmd 1 (Put ''k'' [1]), AppendCmd 2 (Put ''k'' [2]), SetTerm 3]"

lemma next_log: "synced serde_ref next_log"
    "log_view next_log = (entries lead_log, \<lparr>current_term = 3, voted_for = None\<rparr>, 2)"
proof -
  have "all_ok (view_op serde_ref) view_ok fresh_view
      [SetTerm 2, AppendCmd 1 (Put ''k'' [1]), AppendCmd 2 (Put ''k'' [2]), SetTerm 3]"
    by (simp add: fresh_view_def MAX_KEY_SIZE_def MAX_VALUE_SIZE_def)
  from grown_log [OF this] show "synced serde_ref next_log"
    "log_view next_log = (entries lead_log, \<lparr>current_term = 3, voted_for = None\<rparr>, 2)"
    by (simp_all add: next_log_def fresh_view_def default_persistent_state_def log_of_view [OF lead_log(2)])
qed

definition next_leader :: node where
  "next_leader = (idle_node ''b'' [''a'', ''c''] next_log)
     \<lparr>role := Leader, next_index := [(''a'', 3), (''c'', 3)], match_index := [(''a'', 0), (''c'', 0)]\<rparr>"

lemma overtaken_proposal_diverges_witness:
  "\<exists>s1 s2 s3 resp t1 t2.
    propose_overtaken serde_ref (Put ''x'' [1]) 8
      (handle_append_entries serde_ref ''b'' (append_entries_for serde_ref next_leader ''a'')) leader_of_two = (Ret (), s1) \<and>
    handle_append_entries serde_ref ''b'' (append_entries_for serde_ref next_leader ''a'') s1 = (Ret (), s2) \<and>
    message (last (outgoing s2)) = AppendEntriesResponse resp \<and>
    propose serde_ref (Put ''x'' [2]) 9 next_leader = (Ret (), t1) \<and>
    handle_append_entries_response serde_ref ''a'' resp t1 = (Ret (), t2) \<and>
    handle_append_entries serde_ref ''b'' (append_entries_for serde_ref t2 ''a'') s2 = (Ret (), s3) \<and>
    commit_index t2 = 3 \<and> get_value ''x'' t2 = Some [2] \<and> commit_index s3 = 3 \<and> get_value ''x'' s3 = Some [1]"
proof -
  have n: "node_ok serde_ref leader_of_two" "node_ok serde_ref next_leader"
    using lead_log(1) next_log(1) leader_of_two_facts by (simp_all add: node_ok_def serde_ref_ok next_leader_def)
  have m: "machine leader_of_two = new_state_machine" "last_applied leader_of_two = 0" "node_id leader_of_two = ''a''"
    by (simp_all add: leader_of_two_def)
  have t: "role next_leader = Leader" "machine next_leader = new_state_machine" "last_applied next_leader = 0"
    "commit_index next_leader = 0" "pending_requests next_leader = []" "hm_keys (peers next_leader) = [''a'', ''c'']"
    "log next_leader = next_log" "next_index next_leader = [(''a'', 3), (''c'', 3)]" "node_id next_leader = ''b''"
    by (simp_all add: next_leader_def sample_peers_keys)
  note v = log_of_view [OF next_log(2)] log_of_view(2) [OF lead_log(2)]
  have k: "entries lead_log 2 \<noteq> None" by (simp add: log_of_view [OF lead_log(2)])
  show ?thesis
    using overtaken_proposal_diverges [OF n(1) _ _ _ _ _ n(2), of "''x''" "[1]" "[2]" 8 9]
    by (auto simp: leader_of_two_facts m t v k lead_term new_state_machine_def hm_wf_def sm_wf_def hm_get_def
        MAX_KEY_SIZE_def MAX_VALUE_SIZE_def)
qed

end
