(* ===== verification/Ebpf.thy ===== *)
theory Ebpf
  imports Protocol
begin

unbundle bit_operations_syntax

text \<open>
  The traffic classifier of \<open>raft-ebpf/src/main.rs\<close> with the map types of \<open>raft-common/src/maps.rs\<close>, and
  the map reader of \<open>raft/src/ebpf.rs\<close>.  The kernel's side is a parameter: the header loads of the packet
  (\<open>TcContext::load\<close> at an offset, with the header structs of \<open>network-types\<close>), inserting into a map of
  bounded size, and room in the ring buffer.  The target's byte order is an argument of \<open>from_be\<close>.
  Overflow checks are off in the crate's profiles, so counters wrap.
\<close>

section \<open>Headers\<close>

datatype ether_type = EtherIpv4 | EtherOther
datatype ip_proto = ProtoTcp | ProtoOther

record eth_hdr =
  ether_type :: ether_type

record ipv4_hdr =
  version_ihl :: u8
  proto :: ip_proto
  src_addr :: u32
  dst_addr :: u32

record tcp_hdr =
  tcp_source :: u16
  tcp_dest :: u16
  tcp_seq :: u32
  tcp_ack_seq :: u32
  data_offset_reserved_flags :: u16

record tc_context =
  load_eth :: "nat \<Rightarrow> eth_hdr option"
  load_ipv4 :: "nat \<Rightarrow> ipv4_hdr option"
  load_tcp :: "nat \<Rightarrow> tcp_hdr option"

definition EthHdr_LEN :: nat where "EthHdr_LEN = 14"

text \<open>\<open>u16::from_be\<close> and \<open>u32::from_be\<close>: the identity on a big-endian target, else the bytes reversed.\<close>

definition from_be16 :: "bool \<Rightarrow> u16 \<Rightarrow> u16" where
  "from_be16 big w = (if big then w else push_bit 8 w OR drop_bit 8 w)"

definition from_be32 :: "bool \<Rightarrow> u32 \<Rightarrow> u32" where
  "from_be32 big w = (if big then w else
     push_bit 24 w OR (push_bit 8 w AND 0x00FF0000) OR (drop_bit 8 w AND 0x0000FF00) OR drop_bit 24 w)"

section \<open>Maps\<close>

record peer_metadata =
  last_seen_ns :: u64
  packet_count :: u64
  last_seq :: u32
  pm_padding :: u32

record raft_packet_event =
  ev_src_ip :: u32
  ev_dst_ip :: u32
  ev_src_port :: u16
  ev_dst_port :: u16
  ev_timestamp_ns :: u64
  ev_seq :: u32
  ev_ack :: u32
  ev_flags :: u8
  ev_msg_type :: u8
  ev_padding :: "u8 list"

record bpf_state =
  PEER_STATE :: "(u32, peer_metadata) hmap"
  RAFT_EVENTS :: "raft_packet_event list"
  STATS :: "(u32, u64) hmap"

definition PEER_STATE_SIZE :: nat where "PEER_STATE_SIZE = 16"
definition STATS_SIZE :: nat where "STATS_SIZE = 8"

definition fresh_bpf :: bpf_state where
  "fresh_bpf = \<lparr>PEER_STATE = [], RAFT_EVENTS = [], STATS = []\<rparr>"

record bpf =
  insert_peer :: "nat \<Rightarrow> u32 \<Rightarrow> peer_metadata \<Rightarrow> (u32, peer_metadata) hmap \<Rightarrow> (u32, peer_metadata) hmap option"
  insert_stat :: "nat \<Rightarrow> u32 \<Rightarrow> u64 \<Rightarrow> (u32, u64) hmap \<Rightarrow> (u32, u64) hmap option"
  ring_room :: "raft_packet_event list \<Rightarrow> bool"
  big_endian :: bool

text \<open>What the kernel documents: a new key is refused when the map holds its maximum of entries.\<close>

definition bounded_insert :: "nat \<Rightarrow> 'k \<Rightarrow> 'v \<Rightarrow> ('k, 'v) hmap \<Rightarrow> ('k, 'v) hmap option" where
  "bounded_insert n k v m =
     (if hm_get m k \<noteq> None \<or> length (hm_keys m) < n then Some (hm_insert k v m) else None)"

definition bpf_ok :: "bpf \<Rightarrow> bool" where
  "bpf_ok B \<longleftrightarrow> (\<forall>n k v m. insert_peer B n k v m = bounded_insert n k v m) \<and>
     (\<forall>n k v m. insert_stat B n k v m = bounded_insert n k v m)"

section \<open>The classifier\<close>

definition STAT_PACKETS_TOTAL :: u32 where "STAT_PACKETS_TOTAL = 0"
definition STAT_RAFT_PACKETS :: u32 where "STAT_RAFT_PACKETS = 1"
definition STAT_ERRORS :: u32 where "STAT_ERRORS = 2"

definition increment_stat :: "bpf \<Rightarrow> u32 \<Rightarrow> bpf_state \<Rightarrow> bpf_state" where
  "increment_stat B key st = (case hm_get (STATS st) key of
       Some n \<Rightarrow> st\<lparr>STATS := hm_insert key (n + 1) (STATS st)\<rparr>
     | None \<Rightarrow> (case insert_stat B STATS_SIZE key 1 (STATS st) of
           None \<Rightarrow> st
         | Some m \<Rightarrow> st\<lparr>STATS := m\<rparr>))"

datatype tc_action = TC_ACT_PIPE | TC_ACT_SHOT

definition update_peer :: "bpf \<Rightarrow> u32 \<Rightarrow> u64 \<Rightarrow> u32 \<Rightarrow> bpf_state \<Rightarrow> bpf_state" where
  "update_peer B src_ip now seqn st = (case hm_get (PEER_STATE st) src_ip of
       Some p \<Rightarrow> st\<lparr>PEER_STATE := hm_insert src_ip
         (p\<lparr>last_seen_ns := now, packet_count := packet_count p + 1, last_seq := seqn\<rparr>) (PEER_STATE st)\<rparr>
     | None \<Rightarrow> (case insert_peer B PEER_STATE_SIZE src_ip
           \<lparr>last_seen_ns = now, packet_count = 1, last_seq = seqn, pm_padding = 0\<rparr> (PEER_STATE st) of
           None \<Rightarrow> st
         | Some m \<Rightarrow> st\<lparr>PEER_STATE := m\<rparr>))"

definition send_event :: "bpf \<Rightarrow> raft_packet_event \<Rightarrow> bpf_state \<Rightarrow> bpf_state" where
  "send_event B ev st = (if ring_room B (RAFT_EVENTS st) then st\<lparr>RAFT_EVENTS := RAFT_EVENTS st @ [ev]\<rparr> else st)"

definition packet_event :: "bool \<Rightarrow> u64 \<Rightarrow> ipv4_hdr \<Rightarrow> tcp_hdr \<Rightarrow> raft_packet_event" where
  "packet_event big now ip tcp =
     \<lparr>ev_src_ip = from_be32 big (src_addr ip), ev_dst_ip = from_be32 big (dst_addr ip),
      ev_src_port = from_be16 big (tcp_source tcp), ev_dst_port = from_be16 big (tcp_dest tcp),
      ev_timestamp_ns = now, ev_seq = from_be32 big (tcp_seq tcp), ev_ack = from_be32 big (tcp_ack_seq tcp),
      ev_flags = ucast (drop_bit 8 (data_offset_reserved_flags tcp) AND 0x3f),
      ev_msg_type = 0, ev_padding = replicate 6 0\<rparr>"

definition try_classify_raft ::
    "bpf \<Rightarrow> tc_context \<Rightarrow> u64 \<Rightarrow> bpf_state \<Rightarrow> (unit + tc_action) \<times> bpf_state" where
  "try_classify_raft B ctx now st0 =
     (let st = increment_stat B STAT_PACKETS_TOTAL st0; big = big_endian B
      in case load_eth ctx 0 of
        None \<Rightarrow> (Inl (), st)
      | Some eth \<Rightarrow>
       if ether_type eth \<noteq> EtherIpv4 then (Inr TC_ACT_PIPE, st)
       else case load_ipv4 ctx EthHdr_LEN of
        None \<Rightarrow> (Inl (), st)
      | Some ip \<Rightarrow>
       if proto ip \<noteq> ProtoTcp then (Inr TC_ACT_PIPE, st)
       else let ipv4_hdr_len = unat (version_ihl ip AND 0x0f) * 4
         in case load_tcp ctx (EthHdr_LEN + ipv4_hdr_len) of
        None \<Rightarrow> (Inl (), st)
      | Some tcp \<Rightarrow>
       let src_port = from_be16 big (tcp_source tcp); dst_port = from_be16 big (tcp_dest tcp)
       in if dst_port \<noteq> RAFT_PORT \<and> src_port \<noteq> RAFT_PORT then (Inr TC_ACT_PIPE, st)
       else (Inr TC_ACT_PIPE,
         send_event B (packet_event big now ip tcp)
           (update_peer B (from_be32 big (src_addr ip)) now (from_be32 big (tcp_seq tcp))
             (increment_stat B STAT_RAFT_PACKETS st))))"

definition classify_raft :: "bpf \<Rightarrow> tc_context \<Rightarrow> u64 \<Rightarrow> bpf_state \<Rightarrow> tc_action \<times> bpf_state" where
  "classify_raft B ctx now st = (case try_classify_raft B ctx now st of
       (Inr r, st') \<Rightarrow> (r, st')
     | (Inl _, st') \<Rightarrow> (TC_ACT_PIPE, increment_stat B STAT_ERRORS st'))"

section \<open>Reading from user space\<close>

text \<open>\<open>u32::from(Ipv4Addr)\<close> of the four octets, the lookup, and \<open>ip_to_string\<close>.\<close>

definition u32_of_ip :: "u8 \<Rightarrow> u8 \<Rightarrow> u8 \<Rightarrow> u8 \<Rightarrow> u32" where
  "u32_of_ip a b c d = push_bit 24 (ucast a) OR push_bit 16 (ucast b) OR push_bit 8 (ucast c) OR ucast d"

definition get_peer_state :: "bpf_state \<Rightarrow> u8 \<Rightarrow> u8 \<Rightarrow> u8 \<Rightarrow> u8 \<Rightarrow> peer_metadata option" where
  "get_peer_state st a b c d = hm_get (PEER_STATE st) (u32_of_ip a b c d)"

definition octet :: "u32 \<Rightarrow> nat \<Rightarrow> nat" where
  "octet ip n = unat (drop_bit n ip AND 0xFF)"

definition ip_to_string :: "u32 \<Rightarrow> string" where
  "ip_to_string ip = dec (octet ip 24) @ ''.'' @ dec (octet ip 16) @ ''.'' @ dec (octet ip 8) @ ''.'' @ dec (octet ip 0)"

end
