(* ===== verification/Ebpf_Properties.thy ===== *)
theory Ebpf_Properties
  imports Ebpf
begin

unbundle bit_operations_syntax

text \<open>
  What the classifier does with a sequence of packets: the counters against an independent
  classification of the packets, the peer table with its sixteen entries, and the addresses user space
  sees.
\<close>

section \<open>Samples\<close>

definition bpf_ref :: bpf where
  "bpf_ref = \<lparr>insert_peer = bounded_insert, insert_stat = bounded_insert,
     ring_room = (\<lambda>evs. length evs < 4096), big_endian = False\<rparr>"

lemma bpf_ref_ok: "bpf_ok bpf_ref"
  by (simp add: bpf_ok_def bpf_ref_def)

text \<open>A little-endian target's view of a TCP packet from 10.0.0.7 to the Raft port.\<close>

definition sample_ip :: ipv4_hdr where
  "sample_ip = \<lparr>version_ihl = 0x45, proto = ProtoTcp, src_addr = 0x0700000A, dst_addr = 0x0100000A\<rparr>"

definition sample_tcp :: tcp_hdr where
  "sample_tcp = \<lparr>tcp_source = 1, tcp_dest = 0xB315, tcp_seq = 0, tcp_ack_seq = 0, data_offset_reserved_flags = 0x1850\<rparr>"

definition sample_packet :: tc_context where
  "sample_packet =
     \<lparr>load_eth = (\<lambda>n. if n = 0 then Some \<lparr>ether_type = EtherIpv4\<rparr> else None),
      load_ipv4 = (\<lambda>n. if n = 14 then Some sample_ip else None),
      load_tcp = (\<lambda>n. if n = 34 then Some sample_tcp else None)\<rparr>"

section \<open>Classification\<close>

datatype packet_class = Malformed | Ignored | Raft ipv4_hdr tcp_hdr

definition is_raft :: "bool \<Rightarrow> tcp_hdr \<Rightarrow> bool" where
  "is_raft big tcp \<longleftrightarrow> from_be16 big (tcp_dest tcp) = RAFT_PORT \<or> from_be16 big (tcp_source tcp) = RAFT_PORT"

definition classify :: "bool \<Rightarrow> tc_context \<Rightarrow> packet_class" where
  "classify big ctx = (case load_eth ctx 0 of
      None \<Rightarrow> Malformed
    | Some eth \<Rightarrow> if ether_type eth \<noteq> EtherIpv4 then Ignored
      else (case load_ipv4 ctx 14 of
        None \<Rightarrow> Malformed
      | Some ip \<Rightarrow> if proto ip \<noteq> ProtoTcp then Ignored
        else (case load_tcp ctx (14 + unat (version_ihl ip AND 0x0f) * 4) of
          None \<Rightarrow> Malformed
        | Some tcp \<Rightarrow> if is_raft big tcp then Raft ip tcp else Ignored)))"

lemma classify_raft_eq:
  "classify_raft B ctx now st =
    (TC_ACT_PIPE, case classify (big_endian B) ctx of
       Malformed \<Rightarrow> increment_stat B STAT_ERRORS (increment_stat B STAT_PACKETS_TOTAL st)
     | Ignored \<Rightarrow> increment_stat B STAT_PACKETS_TOTAL st
     | Raft ip tcp \<Rightarrow> send_event B (packet_event (big_endian B) now ip tcp)
         (update_peer B (from_be32 (big_endian B) (src_addr ip)) now (from_be32 (big_endian B) (tcp_seq tcp))
           (increment_stat B STAT_RAFT_PACKETS (increment_stat B STAT_PACKETS_TOTAL st))))"
  by (auto simp: classify_raft_def try_classify_raft_def classify_def Let_def is_raft_def EthHdr_LEN_def
      split: option.split)

fun run_packets :: "bpf \<Rightarrow> (tc_context \<times> u64) list \<Rightarrow> bpf_state \<Rightarrow> tc_action list \<times> bpf_state" where
  "run_packets B [] st = ([], st)"
| "run_packets B ((ctx, now) # ps) st =
     (case classify_raft B ctx now st of (a, st') \<Rightarrow>
        (case run_packets B ps st' of (as, st'') \<Rightarrow> (a # as, st'')))"

section \<open>Counters\<close>

definition stat :: "bpf_state \<Rightarrow> u32 \<Rightarrow> u64" where
  "stat st k = (case hm_get (STATS st) k of None \<Rightarrow> 0 | Some n \<Rightarrow> n)"

definition stats_wf :: "bpf_state \<Rightarrow> bool" where
  "stats_wf st \<longleftrightarrow> hm_wf (STATS st) \<and> set (hm_keys (STATS st)) \<subseteq> {0, 1, 2}"

lemma increment_stat:
  assumes "bpf_ok B" "stats_wf st" "k \<in> {0, 1, 2}"
  shows "stats_wf (increment_stat B k st)"
    and "stat (increment_stat B k st) j = stat st j + of_bool (j = k)"
    and "PEER_STATE (increment_stat B k st) = PEER_STATE st"
proof -
  have "length (hm_keys (STATS st)) = card (set (hm_keys (STATS st)))"
    using assms(2) hm.distinct_keys by (metis distinct_card stats_wf_def)
  also have "\<dots> \<le> card {0 :: u32, 1, 2}" using assms(2) by (intro card_mono) (auto simp: stats_wf_def)
  finally have "length (hm_keys (STATS st)) < STATS_SIZE" by (simp add: STATS_SIZE_def)
  with assms have e: "increment_stat B k st =
      st\<lparr>STATS := hm_insert k (stat st k + 1) (STATS st)\<rparr>"
    by (auto simp: increment_stat_def bpf_ok_def bounded_insert_def stat_def split: option.split)
  show "stats_wf (increment_stat B k st)"
    using assms by (auto simp: e stats_wf_def hm.wf_ins hm.set_keys_ins)
  show "stat (increment_stat B k st) j = stat st j + of_bool (j = k)"
    by (auto simp: e stat_def hm_simps)
  show "PEER_STATE (increment_stat B k st) = PEER_STATE st" by (simp add: e)
qed

lemma update_peer_stats [simp]: "STATS (update_peer B k now q st) = STATS st"
  by (auto simp: update_peer_def split: option.split)

lemma send_event_simps [simp]:
  "STATS (send_event B ev st) = STATS st" "PEER_STATE (send_event B ev st) = PEER_STATE st"
  by (simp_all add: send_event_def)

lemma stat_frame: "STATS st' = STATS st \<Longrightarrow> stat st' = stat st \<and> stats_wf st' = stats_wf st"
  by (simp add: stat_def [abs_def] stats_wf_def)

lemma classify_raft_stats:
  assumes "bpf_ok B" "stats_wf st"
  shows "stats_wf (snd (classify_raft B ctx now st)) \<and>
    stat (snd (classify_raft B ctx now st)) 0 = stat st 0 + 1 \<and>
    stat (snd (classify_raft B ctx now st)) 1 = stat st 1 + (case classify (big_endian B) ctx of Raft _ _ \<Rightarrow> 1 | _ \<Rightarrow> 0) \<and>
    stat (snd (classify_raft B ctx now st)) 2 = stat st 2 + (case classify (big_endian B) ctx of Malformed \<Rightarrow> 1 | _ \<Rightarrow> 0)"
proof -
  let ?t = "increment_stat B STAT_PACKETS_TOTAL st"
  note i = increment_stat [OF assms(1)]
  have t: "stats_wf ?t" "stat ?t 0 = stat st 0 + 1" "stat ?t 1 = stat st 1" "stat ?t 2 = stat st 2"
    using i [OF assms(2), of 0] by (simp_all add: STAT_PACKETS_TOTAL_def)
  have "stat (send_event B ev (update_peer B k now q u)) = stat u \<and>
      stats_wf (send_event B ev (update_peer B k now q u)) = stats_wf u" for ev k q u
    by (rule stat_frame) simp
  with t i [OF t(1), of 1] i [OF t(1), of 2] show ?thesis
    by (simp add: classify_raft_eq STAT_RAFT_PACKETS_def STAT_ERRORS_def split: packet_class.split)
qed

definition raft_packets :: "bool \<Rightarrow> (tc_context \<times> u64) list \<Rightarrow> nat" where
  "raft_packets big ps = length (filter (\<lambda>(ctx, _). case classify big ctx of Raft _ _ \<Rightarrow> True | _ \<Rightarrow> False) ps)"

definition malformed_packets :: "bool \<Rightarrow> (tc_context \<times> u64) list \<Rightarrow> nat" where
  "malformed_packets big ps = length (filter (\<lambda>(ctx, _). classify big ctx = Malformed) ps)"

lemma run_packets_stats:
  assumes "bpf_ok B" "stats_wf st"
  shows "fst (run_packets B ps st) = replicate (length ps) TC_ACT_PIPE \<and>
    stat (snd (run_packets B ps st)) 0 = stat st 0 + word_of_nat (length ps) \<and>
    stat (snd (run_packets B ps st)) 1 = stat st 1 + word_of_nat (raft_packets (big_endian B) ps) \<and>
    stat (snd (run_packets B ps st)) 2 = stat st 2 + word_of_nat (malformed_packets (big_endian B) ps)"
  using assms(2)
proof (induction ps arbitrary: st)
  case Nil
  then show ?case by (simp add: raft_packets_def malformed_packets_def)
next
  case (Cons p ps)
  obtain ctx now where p: "p = (ctx, now)" by (cases p)
  note c = classify_raft_stats [OF assms(1) Cons.prems, of ctx now]
  have "fst (classify_raft B ctx now st) = TC_ACT_PIPE" by (simp add: classify_raft_eq)
  with c Cons.IH [of "snd (classify_raft B ctx now st)"] show ?case
    by (auto simp: p raft_packets_def malformed_packets_def split: prod.splits packet_class.splits)
qed

text \<open>
  C39: The classifier lets every packet pass, and its three counters are, modulo 2^64, the number of
  packets seen, of packets with the Raft port on either side, and of packets too short for the headers
  they announce.  The malformed ones pass too, while the comment on \<open>EbpfStats.errors\<close> in
  \<open>raft-common/src/maps.rs\<close> calls them packets dropped due to errors; the program drops none.
\<close>
theorem classifier_accounts:
  assumes "bpf_ok B"
  shows "fst (run_packets B ps fresh_bpf) = replicate (length ps) TC_ACT_PIPE \<and>
    stat (snd (run_packets B ps fresh_bpf)) STAT_PACKETS_TOTAL = word_of_nat (length ps) \<and>
    stat (snd (run_packets B ps fresh_bpf)) STAT_RAFT_PACKETS = word_of_nat (raft_packets (big_endian B) ps) \<and>
    stat (snd (run_packets B ps fresh_bpf)) STAT_ERRORS = word_of_nat (malformed_packets (big_endian B) ps)"
proof -
  have "stats_wf fresh_bpf" "stat fresh_bpf = (\<lambda>_. 0)"
    by (simp_all add: fresh_bpf_def stats_wf_def stat_def [abs_def])
  then show ?thesis
    using run_packets_stats [OF assms, of fresh_bpf ps]
    by (simp add: STAT_PACKETS_TOTAL_def STAT_RAFT_PACKETS_def STAT_ERRORS_def)
qed


lemma classify_sample: "classify False sample_packet = Raft sample_ip sample_tcp"
  by (simp add: classify_def sample_packet_def sample_ip_def sample_tcp_def is_raft_def from_be16_def RAFT_PORT_def)

lemma classifier_accounts_witness:
  "stat (snd (run_packets bpf_ref [(sample_packet, 5), (sample_packet\<lparr>load_tcp := \<lambda>_. None\<rparr>, 6)] fresh_bpf))
     STAT_RAFT_PACKETS = 1"
  using classifier_accounts [OF bpf_ref_ok, of "[(sample_packet, 5), (sample_packet\<lparr>load_tcp := \<lambda>_. None\<rparr>, 6)]"]
  by (simp add: raft_packets_def bpf_ref_def classify_sample)
    (simp add: classify_def sample_packet_def sample_ip_def)

section \<open>The peer table\<close>

text \<open>What the Raft packets show of their senders: address, time and sequence number.\<close>

type_synonym sighting = "u32 \<times> u64 \<times> u32"

definition sighting_of :: "bool \<Rightarrow> tc_context \<times> u64 \<Rightarrow> sighting option" where
  "sighting_of big p = (case classify big (fst p) of
       Raft ip tcp \<Rightarrow> Some (from_be32 big (src_addr ip), snd p, from_be32 big (tcp_seq tcp))
     | _ \<Rightarrow> None)"

definition sightings :: "bool \<Rightarrow> (tc_context \<times> u64) list \<Rightarrow> sighting list" where
  "sightings big ps = List.map_filter (sighting_of big) ps"

definition first_seen :: "'a list \<Rightarrow> 'a list" where
  "first_seen xs = rev (remdups (rev xs))"

lemma first_seen_snoc: "first_seen (xs @ [x]) = (if x \<in> set xs then first_seen xs else first_seen xs @ [x])"
  by (simp add: first_seen_def)

lemma set_first_seen [simp]: "set (first_seen xs) = set xs"
  by (simp add: first_seen_def)

definition of_peer :: "u32 \<Rightarrow> sighting list \<Rightarrow> sighting list" where
  "of_peer k rs = filter (\<lambda>r. fst r = k) rs"

definition peer_record :: "sighting list \<Rightarrow> peer_metadata" where
  "peer_record mine = \<lparr>last_seen_ns = fst (snd (last mine)), packet_count = word_of_nat (length mine),
     last_seq = snd (snd (last mine)), pm_padding = 0\<rparr>"

definition tracks :: "sighting list \<Rightarrow> bpf_state \<Rightarrow> bool" where
  "tracks rs st \<longleftrightarrow> hm_wf (PEER_STATE st) \<and> hm_keys (PEER_STATE st) = take 16 (first_seen (map fst rs)) \<and>
     (\<forall>k \<in> set (hm_keys (PEER_STATE st)). hm_get (PEER_STATE st) k = Some (peer_record (of_peer k rs)))"

lemma tracks_frame: "PEER_STATE st' = PEER_STATE st \<Longrightarrow> tracks rs st' = tracks rs st"
  by (simp add: tracks_def)

lemma of_peer_snoc: "of_peer k (rs @ [r]) = of_peer k rs @ (if fst r = k then [r] else [])"
  by (simp add: of_peer_def)

lemma peer_record_snoc:
  "peer_record (mine @ [(k, now, q)]) =
     (peer_record mine)\<lparr>last_seen_ns := now, packet_count := packet_count (peer_record mine) + 1, last_seq := q\<rparr>"
  by (simp add: peer_record_def)

lemma tracks_insert:
  assumes "tracks rs st" "hm_get (PEER_STATE st') = (hm_get (PEER_STATE st))(k \<mapsto> peer_record (of_peer k (rs @ [(k, now, q)])))"
    and "hm_wf (PEER_STATE st')" "hm_keys (PEER_STATE st') = take 16 (first_seen (map fst (rs @ [(k, now, q)])))"
    and "set (hm_keys (PEER_STATE st')) \<subseteq> insert k (set (hm_keys (PEER_STATE st)))"
  shows "tracks (rs @ [(k, now, q)]) st'"
  unfolding tracks_def
proof (intro conjI ballI)
  fix j assume j: "j \<in> set (hm_keys (PEER_STATE st'))"
  show "hm_get (PEER_STATE st') j = Some (peer_record (of_peer j (rs @ [(k, now, q)])))"
  proof (cases "j = k")
    case True
    then show ?thesis by (simp add: assms(2))
  next
    case False
    then have "j \<in> set (hm_keys (PEER_STATE st))" using j assms(5) by blast
    with assms(1) False show ?thesis by (simp add: assms(2) tracks_def of_peer_snoc)
  qed
qed (fact assms(3,4))+

lemma tracks_update_peer:
  assumes B: "bpf_ok B" and t: "tracks rs st"
  shows "tracks (rs @ [(k, now, q)]) (update_peer B k now q st)"
proof (cases "k \<in> set (hm_keys (PEER_STATE st))")
  case True
  let ?p = "peer_record (of_peer k rs)"
  have g: "hm_get (PEER_STATE st) k = Some ?p" using t True by (simp add: tracks_def)
  have "k \<in> set (take 16 (first_seen (map fst rs)))" using t True by (simp add: tracks_def)
  then have "k \<in> set (map fst rs)" using in_set_takeD [of k 16] by fastforce
  then have f: "first_seen (map fst (rs @ [(k, now, q)])) = first_seen (map fst rs)" by (simp add: first_seen_snoc)
  have r: "peer_record (of_peer k (rs @ [(k, now, q)])) =
      ?p\<lparr>last_seen_ns := now, packet_count := packet_count ?p + 1, last_seq := q\<rparr>"
    by (simp add: of_peer_snoc peer_record_snoc)
  have e: "update_peer B k now q st =
      st\<lparr>PEER_STATE := hm_insert k (peer_record (of_peer k (rs @ [(k, now, q)]))) (PEER_STATE st)\<rparr>"
    unfolding r by (simp add: update_peer_def g)
  show ?thesis
  proof (rule tracks_insert [OF t])
    show "hm_keys (PEER_STATE (update_peer B k now q st)) = take 16 (first_seen (map fst (rs @ [(k, now, q)])))"
      using t True unfolding e f by (simp add: hm_keys_insert tracks_def)
  qed (use t in \<open>simp_all add: e fun_eq_iff hm_simps hm.wf_ins hm.set_keys_ins tracks_def\<close>)
next
  case False
  then have g: "hm_get (PEER_STATE st) k = None" by (auto simp: hm.set_keys)
  have keys: "hm_keys (PEER_STATE st) = take 16 (first_seen (map fst rs))" using t by (simp add: tracks_def)
  show ?thesis
  proof (cases "length (hm_keys (PEER_STATE st)) < 16")
    case True
    with keys have all: "hm_keys (PEER_STATE st) = first_seen (map fst rs)" by simp
    with False have new: "k \<notin> set (map fst rs)" by (metis set_first_seen)
    then have "of_peer k rs = []" by (auto simp: of_peer_def filter_empty_conv)
    then have r: "peer_record (of_peer k (rs @ [(k, now, q)])) =
        \<lparr>last_seen_ns = now, packet_count = 1, last_seq = q, pm_padding = 0\<rparr>"
      by (simp add: of_peer_snoc peer_record_def)
    have e: "update_peer B k now q st =
        st\<lparr>PEER_STATE := hm_insert k (peer_record (of_peer k (rs @ [(k, now, q)]))) (PEER_STATE st)\<rparr>"
      unfolding r using True g B
      by (simp add: update_peer_def bpf_ok_def bounded_insert_def PEER_STATE_SIZE_def)
    have f: "first_seen (map fst (rs @ [(k, now, q)])) = hm_keys (PEER_STATE st) @ [k]"
      using new by (simp add: first_seen_snoc all)
    show ?thesis
    proof (rule tracks_insert [OF t])
      show "hm_keys (PEER_STATE (update_peer B k now q st)) = take 16 (first_seen (map fst (rs @ [(k, now, q)])))"
        unfolding e f using False True by (simp add: hm_keys_insert)
    qed (use t in \<open>simp_all add: e fun_eq_iff hm_simps hm.wf_ins hm.set_keys_ins tracks_def\<close>)
  next
    case full: False
    then have "16 \<le> length (first_seen (map fst rs))" using keys by simp
    then have f: "take 16 (first_seen (map fst (rs @ [(k, now, q)]))) = take 16 (first_seen (map fst rs))"
      by (simp add: first_seen_snoc)
    have "update_peer B k now q st = st"
      using full g B by (simp add: update_peer_def bpf_ok_def bounded_insert_def PEER_STATE_SIZE_def)
    moreover have "j \<noteq> k \<Longrightarrow> of_peer j (rs @ [(k, now, q)]) = of_peer j rs" for j
      by (simp add: of_peer_snoc)
    ultimately show ?thesis
      using t False unfolding tracks_def f by metis
  qed
qed

lemma tracks_step:
  assumes "bpf_ok B" "stats_wf st" "tracks rs st"
  shows "tracks (rs @ sightings (big_endian B) [(ctx, now)]) (snd (classify_raft B ctx now st))"
proof -
  note i = increment_stat [OF assms(1)]
  let ?t = "increment_stat B STAT_PACKETS_TOTAL st"
  have t: "stats_wf ?t" "PEER_STATE ?t = PEER_STATE st"
    using i [OF assms(2), of 0] by (simp_all add: STAT_PACKETS_TOTAL_def)
  have p: "PEER_STATE (increment_stat B STAT_ERRORS ?t) = PEER_STATE st"
    "PEER_STATE (increment_stat B STAT_RAFT_PACKETS ?t) = PEER_STATE st"
    using i(3) [OF t(1), of 1] i(3) [OF t(1), of 2] t(2) by (simp_all add: STAT_ERRORS_def STAT_RAFT_PACKETS_def)
  have u: "tracks rs ?t" "tracks rs (increment_stat B STAT_ERRORS ?t)" "tracks rs (increment_stat B STAT_RAFT_PACKETS ?t)"
    using assms(3) tracks_frame [OF t(2)] tracks_frame [OF p(1)] tracks_frame [OF p(2)] by simp_all
  have s: "sightings big [(ctx, now)] = (case classify big ctx of
      Raft ip tcp \<Rightarrow> [(from_be32 big (src_addr ip), now, from_be32 big (tcp_seq tcp))] | _ \<Rightarrow> [])" for big
    by (simp add: sightings_def sighting_of_def map_filter_simps split: packet_class.split)
  show ?thesis
  proof (cases "classify (big_endian B) ctx")
    case (Raft ip tcp)
    have "tracks (rs @ [(k, now, q)]) (send_event B ev (update_peer B k now q (increment_stat B STAT_RAFT_PACKETS ?t)))"
      for k q ev
      using tracks_update_peer [OF assms(1) u(3), of k now q] tracks_frame [OF send_event_simps(2)] by simp
    then show ?thesis by (simp add: s classify_raft_eq Raft)
  qed (simp_all add: s classify_raft_eq u)
qed

lemma tracks_run:
  assumes "bpf_ok B" "stats_wf st" "tracks rs st"
  shows "tracks (rs @ sightings (big_endian B) ps) (snd (run_packets B ps st))"
  using assms(2,3)
proof (induction ps arbitrary: st rs)
  case Nil
  then show ?case by (simp add: sightings_def map_filter_simps)
next
  case (Cons p ps)
  obtain ctx now where p: "p = (ctx, now)" by (cases p)
  have s: "sightings (big_endian B) (p # ps) = sightings (big_endian B) [p] @ sightings (big_endian B) ps"
    by (simp add: sightings_def map_filter_def)
  have "stats_wf (snd (classify_raft B ctx now st))"
    using classify_raft_stats [OF assms(1) Cons.prems(1)] by blast
  from Cons.IH [OF this tracks_step [OF assms(1) Cons.prems]]
  have "tracks ((rs @ sightings (big_endian B) [p]) @ sightings (big_endian B) ps)
      (snd (run_packets B ps (snd (classify_raft B ctx now st))))"
    by (simp add: p)
  moreover have "snd (run_packets B (p # ps) st) = snd (run_packets B ps (snd (classify_raft B ctx now st)))"
    by (simp add: p split: prod.split)
  ultimately show ?case by (simp only: s append_assoc)
qed

lemma tracks_get:
  assumes "tracks rs st"
  shows "hm_get (PEER_STATE st) k =
    (if k \<in> set (take 16 (first_seen (map fst rs))) then Some (peer_record (of_peer k rs)) else None)"
proof (cases "k \<in> set (hm_keys (PEER_STATE st))")
  case True
  with assms show ?thesis by (simp add: tracks_def)
next
  case False
  then have "hm_get (PEER_STATE st) k = None" by (auto simp: hm.set_keys)
  with False assms show ?thesis by (simp add: tracks_def)
qed

lemma tracks_run_fresh:
  "bpf_ok B \<Longrightarrow> tracks (sightings (big_endian B) ps) (snd (run_packets B ps fresh_bpf))"
  using tracks_run [of B fresh_bpf "[]" ps]
  by (simp add: fresh_bpf_def stats_wf_def tracks_def first_seen_def)

text \<open>
  The peer table holds the first sixteen source addresses of Raft packets, in the order in which
  they were first seen, and no other ever; for each of them the number of its packets modulo 2^64 and
  the time and sequence number of the last.
\<close>
theorem peer_table_first_sixteen:
  assumes "bpf_ok B" "rs = sightings (big_endian B) ps" "m = PEER_STATE (snd (run_packets B ps fresh_bpf))"
  shows "hm_keys m = take 16 (first_seen (map fst rs)) \<and>
    (\<forall>k. hm_get m k = (if k \<in> set (take 16 (first_seen (map fst rs)))
       then Some (peer_record (of_peer k rs)) else None))"
proof -
  have t: "tracks rs (snd (run_packets B ps fresh_bpf))" using tracks_run_fresh [OF assms(1)] assms(2) by simp
  then have "hm_keys m = take 16 (first_seen (map fst rs))" using assms(3) by (simp add: tracks_def)
  with tracks_get [OF t] assms(3) show ?thesis by simp
qed

lemma peer_table_first_sixteen_witness:
  "hm_keys (PEER_STATE (snd (run_packets bpf_ref [(sample_packet, 5), (sample_packet, 9)] fresh_bpf))) = [0x0A000007]"
  using conjunct1 [OF peer_table_first_sixteen [OF bpf_ref_ok refl refl,
      of "[(sample_packet, 5), (sample_packet, 9)]"]]
  by (simp add: sightings_def sighting_of_def map_filter_simps bpf_ref_def classify_sample first_seen_def)
    (simp add: sample_ip_def from_be32_def)

section \<open>Addresses\<close>

text \<open>The word that a load of four bytes in network order gives on either target.\<close>

definition memory_u32 :: "bool \<Rightarrow> u8 \<Rightarrow> u8 \<Rightarrow> u8 \<Rightarrow> u8 \<Rightarrow> u32" where
  "memory_u32 big a b c d = (if big then u32_of_ip a b c d else u32_of_ip d c b a)"

lemma from_be32_memory: "from_be32 big (memory_u32 big a b c d) = u32_of_ip a b c d"
proof (cases big)
  case True
  then show ?thesis by (simp add: from_be32_def memory_u32_def)
next
  case False
  have masks: "0x0000FF00 = push_bit 8 (mask 8 :: u32)" "0x00FF0000 = push_bit 16 (mask 8 :: u32)"
    by (simp_all add: mask_numeral push_bit_eq_mult)
  show ?thesis
  proof (rule bit_word_eqI)
    fix n assume "n < LENGTH(32)"
    then have "n < 8 \<or> (8 \<le> n \<and> n < 16) \<or> (16 \<le> n \<and> n < 24) \<or> (24 \<le> n \<and> n < 32)" by auto
    with False show "bit (from_be32 big (memory_u32 big a b c d)) n = bit (u32_of_ip a b c d) n"
      by (elim disjE conjE) (auto simp: from_be32_def memory_u32_def u32_of_ip_def bit_simps masks dest: bit_imp_le_length)
  qed
qed


lemma octets:
  "octet (u32_of_ip a b c d) 24 = unat a" "octet (u32_of_ip a b c d) 16 = unat b"
  "octet (u32_of_ip a b c d) 8 = unat c" "octet (u32_of_ip a b c d) 0 = unat d"
proof -
  have m: "0xFF = (mask 8 :: u32)" by (simp add: mask_numeral)
  have u: "unat (ucast x :: u32) = unat x" for x :: u8
    using unsigned_less [of x, where ?'a = nat] by (simp add: unsigned_ucast_eq take_bit_nat_eq_self)
  have "drop_bit 24 (u32_of_ip a b c d) AND 0xFF = ucast a" "drop_bit 16 (u32_of_ip a b c d) AND 0xFF = ucast b"
    "drop_bit 8 (u32_of_ip a b c d) AND 0xFF = ucast c" "drop_bit 0 (u32_of_ip a b c d) AND 0xFF = ucast d"
    unfolding m by (rule bit_word_eqI, auto simp: u32_of_ip_def bit_simps dest: bit_imp_le_length)+
  then show "octet (u32_of_ip a b c d) 24 = unat a" "octet (u32_of_ip a b c d) 16 = unat b"
    "octet (u32_of_ip a b c d) 8 = unat c" "octet (u32_of_ip a b c d) 0 = unat d"
    by (simp_all add: octet_def u)
qed

text \<open>
  On either byte order a Raft packet whose source address bytes on the wire are a.b.c.d reports its
  source as the number that user space prints as a.b.c.d and finds in the peer table: host byte order.
\<close>
theorem peer_found_by_address:
  assumes "bpf_ok B" "classify (big_endian B) ctx = Raft ip tcp" "src_addr ip = memory_u32 (big_endian B) a b c d"
  shows "ip_to_string (ev_src_ip (packet_event (big_endian B) now ip tcp)) =
      dec (unat a) @ ''.'' @ dec (unat b) @ ''.'' @ dec (unat c) @ ''.'' @ dec (unat d) \<and>
    get_peer_state (snd (classify_raft B ctx now fresh_bpf)) a b c d =
      Some \<lparr>last_seen_ns = now, packet_count = 1,
        last_seq = from_be32 (big_endian B) (tcp_seq tcp), pm_padding = 0\<rparr>"
proof -
  have "stats_wf fresh_bpf" "tracks [] fresh_bpf"
    by (simp_all add: fresh_bpf_def stats_wf_def tracks_def first_seen_def)
  from tracks_step [OF assms(1) this, of ctx now] assms(2,3)
  have "tracks [(u32_of_ip a b c d, now, from_be32 (big_endian B) (tcp_seq tcp))]
      (snd (classify_raft B ctx now fresh_bpf))"
    by (simp add: sightings_def sighting_of_def map_filter_simps from_be32_memory)
  then show ?thesis
    using assms(3)
    by (simp add: packet_event_def from_be32_memory ip_to_string_def octets get_peer_state_def tracks_def
        first_seen_def of_peer_def peer_record_def)
qed

lemma peer_found_by_address_witness:
  "ip_to_string (ev_src_ip (packet_event (big_endian bpf_ref) 5 sample_ip sample_tcp)) =
      dec (unat (10 :: u8)) @ ''.'' @ dec (unat (0 :: u8)) @ ''.'' @ dec (unat (0 :: u8)) @ ''.'' @ dec (unat (7 :: u8)) \<and>
    get_peer_state (snd (classify_raft bpf_ref sample_packet 5 fresh_bpf)) 10 0 0 7 =
      Some \<lparr>last_seen_ns = 5, packet_count = 1,
        last_seq = from_be32 (big_endian bpf_ref) (tcp_seq sample_tcp), pm_padding = 0\<rparr>"
proof (rule peer_found_by_address [OF bpf_ref_ok])
  show "classify (big_endian bpf_ref) sample_packet = Raft sample_ip sample_tcp"
    by (simp add: bpf_ref_def classify_sample)
  show "src_addr sample_ip = memory_u32 (big_endian bpf_ref) 10 0 0 7"
    by (simp add: sample_ip_def bpf_ref_def memory_u32_def u32_of_ip_def)
qed

end
