(* ===== verification/Ebpf_Loader.thy ===== *)
theory Ebpf_Loader
  imports Ebpf_Properties
begin

text \<open>
  The loader of \<open>raft/src/ebpf.rs\<close>.  The library \<open>aya\<close> and the kernel it talks to are parameters: what
  parses as an object file, which programs and maps an object holds, what the verifier accepts, and
  when an interface takes a program.  The kernel's state is its list of attached programs and the
  interfaces with a \<open>clsact\<close> queueing discipline.  A program is what it does to a packet.
\<close>

section \<open>The library and the kernel\<close>

type_synonym packet_program = "bpf \<Rightarrow> tc_context \<Rightarrow> u64 \<Rightarrow> bpf_state \<Rightarrow> tc_action \<times> bpf_state"

datatype attach_type = Ingress | Egress
datatype program_kind = Classifier | OtherProgram
datatype map_kind = HashMapKind | RingBufKind | OtherMap

record kernel =
  clsact :: "string list"
  attached :: "(string \<times> attach_type \<times> packet_program) list"

record 'o aya =
  aya_load :: "u8 list \<Rightarrow> 'o option"
  aya_program :: "'o \<Rightarrow> string \<Rightarrow> (program_kind \<times> packet_program) option"
  aya_map :: "'o \<Rightarrow> string \<Rightarrow> map_kind option"
  qdisc_refused :: "kernel \<Rightarrow> string \<Rightarrow> bool"
  verifier_accepts :: "kernel \<Rightarrow> packet_program \<Rightarrow> bool"
  attach_refused :: "kernel \<Rightarrow> string \<Rightarrow> bool"

definition qdisc_add_clsact :: "'o aya \<Rightarrow> string \<Rightarrow> kernel \<Rightarrow> kernel" where
  "qdisc_add_clsact A i k = (if qdisc_refused A k i then k else k\<lparr>clsact := i # clsact k\<rparr>)"

text \<open>Attaching needs the queueing discipline.\<close>

definition attach_program :: "'o aya \<Rightarrow> string \<Rightarrow> attach_type \<Rightarrow> packet_program \<Rightarrow> kernel \<Rightarrow> kernel option" where
  "attach_program A i t p k =
     (if i \<notin> set (clsact k) \<or> attach_refused A k i then None else Some (k\<lparr>attached := attached k @ [(i, t, p)]\<rparr>))"

section \<open>The manager\<close>

datatype ebpf_error = ReadFailed | LoadFailed | ProgramNotFound | NotAClassifier | VerifierRejected | AttachFailed
  | MapNotFound | WrongMapKind

record 'o ebpf_manager =
  mgr_bpf :: 'o
  mgr_interface :: string

definition load_from_bytes ::
    "'o aya \<Rightarrow> u8 list \<Rightarrow> string \<Rightarrow> kernel \<Rightarrow> (ebpf_error + 'o ebpf_manager) \<times> kernel" where
  "load_from_bytes A bytes iface k0 = (case aya_load A bytes of
       None \<Rightarrow> (Inl LoadFailed, k0)
     | Some obj \<Rightarrow>
       let k = qdisc_add_clsact A iface k0
       in case aya_program A obj ''classify_raft'' of
           None \<Rightarrow> (Inl ProgramNotFound, k)
         | Some (OtherProgram, p) \<Rightarrow> (Inl NotAClassifier, k)
         | Some (Classifier, p) \<Rightarrow>
             if \<not> verifier_accepts A k p then (Inl VerifierRejected, k)
             else (case attach_program A iface Ingress p k of
                 None \<Rightarrow> (Inl AttachFailed, k)
               | Some k' \<Rightarrow> (Inr \<lparr>mgr_bpf = obj, mgr_interface = iface\<rparr>, k')))"

definition load_from_file ::
    "'o aya \<Rightarrow> (string \<Rightarrow> u8 list option) \<Rightarrow> string \<Rightarrow> string \<Rightarrow> kernel \<Rightarrow> (ebpf_error + 'o ebpf_manager) \<times> kernel" where
  "load_from_file A read_file path iface k = (case read_file path of
       None \<Rightarrow> (Inl ReadFailed, k)
     | Some bytes \<Rightarrow> load_from_bytes A bytes iface k)"

definition map_PEER_STATE :: string where "map_PEER_STATE = ''PEER_STATE''"
definition map_RAFT_EVENTS :: string where "map_RAFT_EVENTS = ''RAFT_EVENTS''"
definition map_STATS :: string where "map_STATS = ''STATS''"

definition manager_peer_state ::
    "'o aya \<Rightarrow> 'o ebpf_manager \<Rightarrow> bpf_state \<Rightarrow> u8 \<Rightarrow> u8 \<Rightarrow> u8 \<Rightarrow> u8 \<Rightarrow> ebpf_error + peer_metadata option" where
  "manager_peer_state A mgr st a b c d = (case aya_map A (mgr_bpf mgr) map_PEER_STATE of
       None \<Rightarrow> Inl MapNotFound
     | Some HashMapKind \<Rightarrow> Inr (get_peer_state st a b c d)
     | Some _ \<Rightarrow> Inl WrongMapKind)"

text \<open>The reader task: after each sleep it takes nothing from the ring buffer and sends nothing.\<close>

definition reader_poll :: "bpf_state \<Rightarrow> raft_packet_event list \<times> bpf_state" where
  "reader_poll st = ([], st)"

definition start_event_reader ::
    "'o aya \<Rightarrow> 'o ebpf_manager \<Rightarrow> ebpf_error + (bpf_state \<Rightarrow> raft_packet_event list \<times> bpf_state)" where
  "start_event_reader A mgr = (case aya_map A (mgr_bpf mgr) map_RAFT_EVENTS of
       None \<Rightarrow> Inl MapNotFound
     | Some RingBufKind \<Rightarrow> Inr reader_poll
     | Some _ \<Rightarrow> Inl WrongMapKind)"

section \<open>Packets through an interface\<close>

text \<open>The programs attached to the ingress of an interface in turn, as long as they pass the packet on.\<close>

fun run_chain :: "packet_program list \<Rightarrow> packet_program" where
  "run_chain [] B ctx now st = (TC_ACT_PIPE, st)"
| "run_chain (p # ps) B ctx now st = (case p B ctx now st of
      (TC_ACT_PIPE, st') \<Rightarrow> run_chain ps B ctx now st'
    | (TC_ACT_SHOT, st') \<Rightarrow> (TC_ACT_SHOT, st'))"

definition programs_at :: "kernel \<Rightarrow> string \<Rightarrow> packet_program list" where
  "programs_at k iface = map (\<lambda>(_, _, p). p) (filter (\<lambda>(i, t, _). i = iface \<and> t = Ingress) (attached k))"

fun receive_packets :: "kernel \<Rightarrow> string \<Rightarrow> bpf \<Rightarrow> (tc_context \<times> u64) list \<Rightarrow> bpf_state \<Rightarrow> tc_action list \<times> bpf_state" where
  "receive_packets k iface B [] st = ([], st)"
| "receive_packets k iface B ((ctx, now) # ps) st =
     (let (a, st') = run_chain (programs_at k iface) B ctx now st;
          (as, st'') = receive_packets k iface B ps st'
      in (a # as, st''))"

section \<open>Facts\<close>

text \<open>What a build of \<open>raft-ebpf\<close> holds.\<close>

definition built_from_crate :: "'o aya \<Rightarrow> 'o \<Rightarrow> bool" where
  "built_from_crate A obj \<longleftrightarrow> aya_program A obj ''classify_raft'' = Some (Classifier, classify_raft) \<and>
     aya_map A obj map_PEER_STATE = Some HashMapKind \<and> aya_map A obj map_RAFT_EVENTS = Some RingBufKind"

lemma attached_qdisc [simp]: "attached (qdisc_add_clsact A i k) = attached k"
  by (simp add: qdisc_add_clsact_def)

lemma load_from_bytes_result:
  "case load_from_bytes A bytes iface k of
     (Inl e, k') \<Rightarrow> attached k' = attached k
   | (Inr mgr, k') \<Rightarrow> aya_load A bytes = Some (mgr_bpf mgr) \<and> mgr_interface mgr = iface \<and> iface \<in> set (clsact k') \<and>
       (\<exists>p. aya_program A (mgr_bpf mgr) ''classify_raft'' = Some (Classifier, p) \<and>
          attached k' = attached k @ [(iface, Ingress, p)])"
  by (auto simp: load_from_bytes_def attach_program_def Let_def split: option.splits program_kind.splits)

lemma programs_at_attached:
  "attached k' = attached k @ [(iface, Ingress, p)] \<Longrightarrow> programs_at k' iface = programs_at k iface @ [p]"
  by (simp add: programs_at_def)

lemma run_classify: "fst (classify_raft B ctx now st) = TC_ACT_PIPE"
  by (simp add: classify_raft_eq)

lemma receive_packets_classified:
  "programs_at k iface = [classify_raft] \<Longrightarrow> receive_packets k iface B ps st = run_packets B ps st"
proof (induction ps arbitrary: st)
  case Nil
  then show ?case by simp
next
  case (Cons p ps)
  obtain ctx now where p: "p = (ctx, now)" by (cases p)
  have "classify_raft B ctx now st = (TC_ACT_PIPE, snd (classify_raft B ctx now st))"
    by (metis run_classify prod.collapse)
  with Cons show ?case by (auto simp: p split: prod.splits tc_action.splits)
qed

lemma get_peer_state_run:
  assumes "bpf_ok B"
  shows "get_peer_state (snd (run_packets B ps fresh_bpf)) a b c d =
    (let rs = sightings (big_endian B) ps; ip = u32_of_ip a b c d
     in if ip \<in> set (take 16 (first_seen (map fst rs))) then Some (peer_record (of_peer ip rs)) else None)"
  using tracks_get [OF tracks_run_fresh [OF assms]] by (simp add: get_peer_state_def Let_def)

section \<open>Theorems\<close>

text \<open>
  C36: A manager that was loaded from a build of the crate, on an interface without another program, sees
  through the address of a host what its packets have shown: all packets at the interface pass, and
  the lookup gives the record of each of the first sixteen senders and nothing for any other.
\<close>
theorem loaded_manager_sees_peers:
  assumes "bpf_ok B" "load_from_file A read_file path iface k = (Inr mgr, k')"
    and "built_from_crate A (mgr_bpf mgr)" "programs_at k iface = []" "rs = sightings (big_endian B) ps"
    and "receive_packets k' iface B ps fresh_bpf = (verdicts, st)"
  shows "verdicts = replicate (length ps) TC_ACT_PIPE \<and>
    manager_peer_state A mgr st a b c d = Inr
      (if u32_of_ip a b c d \<in> set (take 16 (first_seen (map fst rs)))
       then Some (peer_record (of_peer (u32_of_ip a b c d) rs)) else None)"
proof -
  from assms(2) obtain bytes where l: "load_from_bytes A bytes iface k = (Inr mgr, k')"
    by (auto simp: load_from_file_def split: option.splits)
  with load_from_bytes_result [where A = A and bytes = bytes and iface = iface and k = k] assms(3)
  have "attached k' = attached k @ [(iface, Ingress, classify_raft)]"
    by (auto simp: built_from_crate_def)
  from programs_at_attached [OF this] assms(4) have "programs_at k' iface = [classify_raft]" by simp
  with assms(6) have r: "run_packets B ps fresh_bpf = (verdicts, st)" by (simp add: receive_packets_classified)
  have "stats_wf fresh_bpf" by (simp add: fresh_bpf_def stats_wf_def)
  from run_packets_stats [OF assms(1) this, of ps] r have "verdicts = replicate (length ps) TC_ACT_PIPE" by simp
  with get_peer_state_run [OF assms(1), of ps a b c d] r assms(3,5) show ?thesis
    by (simp add: manager_peer_state_def built_from_crate_def Let_def)
qed

definition aya_ref :: "unit aya" where
  "aya_ref = \<lparr>aya_load = (\<lambda>b. if b = [127] then Some () else None),
     aya_program = (\<lambda>_ n. if n = ''classify_raft'' then Some (Classifier, classify_raft) else None),
     aya_map = (\<lambda>_ n. if n = map_PEER_STATE then Some HashMapKind
        else if n = map_RAFT_EVENTS then Some RingBufKind else None),
     qdisc_refused = (\<lambda>k i. i \<in> set (clsact k)), verifier_accepts = (\<lambda>_ _. True), attach_refused = (\<lambda>_ _. False)\<rparr>"

lemma loaded_manager_sees_peers_witness:
  "manager_peer_state aya_ref \<lparr>mgr_bpf = (), mgr_interface = ''eth0''\<rparr>
     (snd (receive_packets \<lparr>clsact = [''eth0''], attached = [(''eth0'', Ingress, classify_raft)]\<rparr> ''eth0'' bpf_ref
        [(sample_packet, 5), (sample_packet, 9)] fresh_bpf)) 10 0 0 7 =
   Inr (Some \<lparr>last_seen_ns = 9, packet_count = 2, last_seq = from_be32 False (tcp_seq sample_tcp), pm_padding = 0\<rparr>)"
proof -
  let ?mgr = "\<lparr>mgr_bpf = (), mgr_interface = ''eth0''\<rparr>"
  let ?k = "\<lparr>clsact = [''eth0''], attached = [(''eth0'', Ingress, classify_raft)]\<rparr>"
  let ?ps = "[(sample_packet, 5), (sample_packet, 9)]"
  have l: "load_from_file aya_ref (\<lambda>_. Some [127]) ''raft-ebpf'' ''eth0'' \<lparr>clsact = [''eth0''], attached = []\<rparr> = (Inr ?mgr, ?k)"
    by (simp add: load_from_file_def load_from_bytes_def aya_ref_def qdisc_add_clsact_def attach_program_def)
  have b: "built_from_crate aya_ref (mgr_bpf ?mgr)"
    by (simp add: built_from_crate_def aya_ref_def map_PEER_STATE_def map_RAFT_EVENTS_def)
  have p: "programs_at \<lparr>clsact = [''eth0''], attached = []\<rparr> ''eth0'' = []" by (simp add: programs_at_def)
  have s: "sightings (big_endian bpf_ref) ?ps = [(0x0A000007, 5, from_be32 False (tcp_seq sample_tcp)),
      (0x0A000007, 9, from_be32 False (tcp_seq sample_tcp))]"
    by (simp add: sightings_def sighting_of_def map_filter_simps bpf_ref_def classify_sample sample_ip_def from_be32_def)
  have "receive_packets ?k ''eth0'' bpf_ref ?ps fresh_bpf =
      (fst (receive_packets ?k ''eth0'' bpf_ref ?ps fresh_bpf), snd (receive_packets ?k ''eth0'' bpf_ref ?ps fresh_bpf))"
    by simp
  from conjunct2 [OF loaded_manager_sees_peers [OF bpf_ref_ok l b p refl this, of 10 0 0 7]]
  show ?thesis by (simp add: s u32_of_ip_def first_seen_def of_peer_def peer_record_def)
qed

text \<open>
  Loading attaches one program or none: on an error, wherever it arises, the kernel's attached
  programs are what they were; on success the program named classify_raft, and nothing else, has been
  added at the ingress of the interface.  That the queueing discipline exists already is no error.
\<close>
theorem loading_attaches_or_fails:
  "case load_from_file A read_file path iface k of
     (Inl e, k') \<Rightarrow> attached k' = attached k
   | (Inr mgr, k') \<Rightarrow> mgr_interface mgr = iface \<and>
       (\<exists>p. aya_program A (mgr_bpf mgr) ''classify_raft'' = Some (Classifier, p) \<and>
          attached k' = attached k @ [(iface, Ingress, p)])"
proof (cases "read_file path")
  case None
  then show ?thesis by (simp add: load_from_file_def)
next
  case (Some bytes)
  with load_from_bytes_result [where A = A and bytes = bytes and iface = iface and k = k] show ?thesis
    by (simp add: load_from_file_def split: prod.splits sum.splits)
qed

end
