(* ===== verification/Store_Tests.thy ===== *)
theory Store_Tests
  imports Ipc_Properties
begin

text \<open>
  The unit tests of \<open>raft/src/state_machine.rs\<close> on the model: a test is a truth value, an assertion one
  of its conjuncts.  They are proved for every \<open>heapless\<close>, \<open>bincode\<close> and \<open>serde_json\<close> that does what
  these crates document.
\<close>

section \<open>The tests\<close>

definition make_key :: "'e heapless_scheme \<Rightarrow> string \<Rightarrow> string" where
  "make_key E s = push_str E 256 s"

definition make_value :: "'e heapless_scheme \<Rightarrow> u8 list \<Rightarrow> u8 list" where
  "make_value E data = push_bytes E 1024 data"

definition put_entry :: "'e heapless_scheme \<Rightarrow> u64 \<Rightarrow> string \<Rightarrow> u8 list \<Rightarrow> log_entry" where
  "put_entry E i k v = \<lparr>index = i, entry_term = 1, command = Put (make_key E k) (make_value E v)\<rparr>"

definition test_new_state_machine :: bool where
  "test_new_state_machine =
     (let sm = new_state_machine in sm_last_applied sm = 0 \<and> sm_keys sm = [])"

definition test_apply_put_command :: "'e heapless_scheme \<Rightarrow> bool" where
  "test_apply_put_command E =
     (let (result, sm) = apply_entry (put_entry E 1 ''test_key'' (as_bytes ''test_value'')) new_state_machine
      in result = Ok \<and> sm_last_applied sm = 1 \<and> sm_get sm ''test_key'' = Some (as_bytes ''test_value''))"

definition test_apply_delete_command :: "'e heapless_scheme \<Rightarrow> bool" where
  "test_apply_delete_command E =
     (let (_, sm) = apply_entry (put_entry E 1 ''to_delete'' (as_bytes ''value'')) new_state_machine;
          (result, sm') = apply_entry \<lparr>index = 2, entry_term = 1, command = Delete (make_key E ''to_delete'')\<rparr> sm
      in sm_get sm ''to_delete'' \<noteq> None \<and>
         result = Ok \<and> sm_last_applied sm' = 2 \<and> sm_get sm' ''to_delete'' = None)"

definition test_apply_noop_command :: bool where
  "test_apply_noop_command =
     (let (result, sm) = apply_entry \<lparr>index = 1, entry_term = 1, command = Noop\<rparr> new_state_machine
      in result = NoopApplied \<and> sm_last_applied sm = 1)"

definition test_apply_already_applied_entry :: "'e heapless_scheme \<Rightarrow> bool" where
  "test_apply_already_applied_entry E =
     (let (_, sm) = apply_entry (put_entry E 1 ''key1'' (as_bytes ''value1'')) new_state_machine;
          (result, sm') = apply_entry (put_entry E 0 ''key0'' (as_bytes ''should_not_apply'')) sm
      in result = Ok \<and> sm_get sm' ''key0'' = None \<and> sm_last_applied sm' = 1)"

definition test_get_nonexistent_key :: bool where
  "test_get_nonexistent_key = (sm_get new_state_machine ''nonexistent'' = None)"

definition test_keys_returns_all_keys :: "'e heapless_scheme \<Rightarrow> bool" where
  "test_keys_returns_all_keys E =
     (let key = (\<lambda>i. if i = 1 then ''alpha'' else if i = 2 then ''beta'' else ''gamma'');
          sm = fold (\<lambda>i sm. snd (apply_entry (put_entry E i (key i) (as_bytes ''value'')) sm)) [1, 2, 3] new_state_machine;
          keys = sm_keys sm
      in length keys = 3 \<and> ''alpha'' \<in> set keys \<and> ''beta'' \<in> set keys \<and> ''gamma'' \<in> set keys)"

definition test_overwrite_value :: "'e heapless_scheme \<Rightarrow> bool" where
  "test_overwrite_value E =
     (let (_, sm) = apply_entry (put_entry E 1 ''key'' (as_bytes ''initial'')) new_state_machine;
          (_, sm') = apply_entry (put_entry E 2 ''key'' (as_bytes ''updated'')) sm
      in sm_get sm ''key'' = Some (as_bytes ''initial'') \<and> sm_get sm' ''key'' = Some (as_bytes ''updated''))"

definition test_message :: "string \<Rightarrow> string \<Rightarrow> nat \<Rightarrow> json" where
  "test_message from text timestamp =
     JObj [(''from'', JStr from), (''message'', JStr text), (''timestamp'', JNum timestamp)]"

definition test_get_messages :: "'e heapless_scheme \<Rightarrow> ipc_env \<Rightarrow> bool" where
  "test_get_messages E J =
     (let msg1 = test_message ''node-01'' ''Hello'' 1000; msg2 = test_message ''node-02'' ''World'' 2000;
          (_, sm1) = apply_entry (put_entry E 1 ''regular_key'' (as_bytes ''regular_value'')) new_state_machine;
          (_, sm2) = apply_entry (put_entry E 2 ''_msg:1000'' (as_bytes (value_to_text J msg1))) sm1;
          (_, sm3) = apply_entry (put_entry E 3 ''_msg:2000'' (as_bytes (value_to_text J msg2))) sm2;
          messages = sm_get_messages (value_from_slice J) sm3 10
      in length messages = 2 \<and>
         j_get (messages ! 0) ''timestamp'' = Some (JNum 2000) \<and> j_get (messages ! 1) ''timestamp'' = Some (JNum 1000))"

definition numbered_message :: "nat \<Rightarrow> json" where
  "numbered_message i = JObj [(''message'', JNum i), (''timestamp'', JNum (i * 1000))]"

definition test_get_messages_with_limit :: "'e heapless_scheme \<Rightarrow> ipc_env \<Rightarrow> bool" where
  "test_get_messages_with_limit E J =
     (let sm = fold (\<lambda>i sm. snd (apply_entry (put_entry E (word_of_nat i) (''_msg:'' @ dec (i * 1000))
            (as_bytes (value_to_text J (numbered_message i)))) sm)) [1, 2, 3, 4, 5] new_state_machine;
          messages = sm_get_messages (value_from_slice J) sm 2
      in length messages = 2 \<and>
         j_get (messages ! 0) ''timestamp'' = Some (JNum 5000) \<and> j_get (messages ! 1) ''timestamp'' = Some (JNum 4000))"

definition test_snapshot_and_restore :: "'e heapless_scheme \<Rightarrow> bincode \<Rightarrow> bool" where
  "test_snapshot_and_restore E B =
     (let (_, sm1) = apply_entry (put_entry E 1 ''key1'' (as_bytes ''value1'')) new_state_machine;
          (_, sm) = apply_entry (put_entry E 2 ''key2'' (as_bytes ''value2'')) sm1;
          snap = snapshot B sm
      in snap \<noteq> [] \<and>
         (case restore B snap 2 new_state_machine of
            None \<Rightarrow> False
          | Some sm2 \<Rightarrow> sm_last_applied sm2 = 2 \<and> sm_get sm2 ''key1'' = Some (as_bytes ''value1'') \<and>
              sm_get sm2 ''key2'' = Some (as_bytes ''value2'')))"

definition test_delete_nonexistent_key :: "'e heapless_scheme \<Rightarrow> bool" where
  "test_delete_nonexistent_key E =
     (fst (apply_entry \<lparr>index = 1, entry_term = 1, command = Delete (make_key E ''nonexistent'')\<rparr> new_state_machine) = Ok)"

definition state_machine_tests :: "'e heapless_scheme \<Rightarrow> ipc_env \<Rightarrow> bincode \<Rightarrow> bool list" where
  "state_machine_tests E J B = [test_new_state_machine, test_apply_put_command E, test_apply_delete_command E,
     test_apply_noop_command, test_apply_already_applied_entry E, test_get_nonexistent_key,
     test_keys_returns_all_keys E, test_overwrite_value E, test_get_messages E J, test_get_messages_with_limit E J,
     test_snapshot_and_restore E B, test_delete_nonexistent_key E]"

section \<open>They pass\<close>

text \<open>What the crates document: text of a value reads back, the messages are short, \<open>bincode\<close> starts with a length.\<close>

definition tested_messages :: "json list" where
  "tested_messages = [test_message ''node-01'' ''Hello'' 1000, test_message ''node-02'' ''World'' 2000,
     numbered_message 1, numbered_message 2, numbered_message 3, numbered_message 4, numbered_message 5]"

definition test_json_ok :: "ipc_env \<Rightarrow> bool" where
  "test_json_ok J \<longleftrightarrow> list_all (\<lambda>j. reads_back J j \<and> length (value_to_text J j) \<le> 1024) tested_messages"

definition bincode_prefixed :: "bincode \<Rightarrow> bool" where
  "bincode_prefixed B \<longleftrightarrow> (\<forall>m b. bin_serialize B m = Some b \<longrightarrow> 8 \<le> length b)"

lemma put_entry_fits:
  "heapless_ok E \<Longrightarrow> length k \<le> 256 \<Longrightarrow> length v \<le> 1024 \<Longrightarrow>
   put_entry E i k v = \<lparr>index = i, entry_term = 1, command = Put k v\<rparr>"
  by (simp add: put_entry_def make_key_def make_value_def push_str_fits push_bytes_take)

lemma index_samples: "\<not> (2 :: u64) \<le> 1" "\<not> (3 :: u64) \<le> 2" "\<not> (4 :: u64) \<le> 3" "\<not> (5 :: u64) \<le> 4"
  by (simp_all add: word_le_nat_alt)

lemmas store_defs = apply_entry_def new_state_machine_def sm_get_def sm_keys_def index_samples hm_get_def hm_insert_def
  hm_remove_def hm_keys_def

lemma plain_tests_pass:
  assumes "heapless_ok E"
  shows "test_new_state_machine" "test_apply_put_command E" "test_apply_delete_command E" "test_apply_noop_command"
    "test_apply_already_applied_entry E" "test_get_nonexistent_key" "test_keys_returns_all_keys E"
    "test_overwrite_value E" "test_delete_nonexistent_key E"
  unfolding test_new_state_machine_def test_apply_put_command_def test_apply_delete_command_def
    test_apply_noop_command_def test_apply_already_applied_entry_def test_get_nonexistent_key_def
    test_keys_returns_all_keys_def test_overwrite_value_def test_delete_nonexistent_key_def
  by (simp_all add: put_entry_fits [OF assms] make_key_def push_str_fits [OF assms] store_defs)

lemma stamp_samples:
  "strip_prefix ''_msg:1000'' msg_prefix = Some ''1000''" "strip_prefix ''_msg:2000'' msg_prefix = Some ''2000''"
  "strip_prefix ''_msg:3000'' msg_prefix = Some ''3000''" "strip_prefix ''_msg:4000'' msg_prefix = Some ''4000''"
  "strip_prefix ''_msg:5000'' msg_prefix = Some ''5000''" "\<not> starts_with ''regular_key'' msg_prefix"
  "starts_with ''_msg:1000'' msg_prefix" "starts_with ''_msg:2000'' msg_prefix" "starts_with ''_msg:3000'' msg_prefix"
  "starts_with ''_msg:4000'' msg_prefix" "starts_with ''_msg:5000'' msg_prefix"
  by (simp_all add: strip_prefix_def starts_with_def msg_prefix_def)

lemma number_samples:
  "parse_u128 ''1000'' = Some 1000" "parse_u128 ''2000'' = Some 2000" "parse_u128 ''3000'' = Some 3000"
  "parse_u128 ''4000'' = Some 4000" "parse_u128 ''5000'' = Some 5000"
  by (simp_all add: parse_u128_def digit_of_def Let_def)

lemma dec_samples: "dec 1000 = ''1000''" "dec 2000 = ''2000''" "dec 3000 = ''3000''" "dec 4000 = ''4000''" "dec 5000 = ''5000''"
  by (simp_all add: dec.simps digit_char_def char_of_def bit_0)

lemma message_tests_pass:
  assumes "heapless_ok E" "test_json_ok J"
  shows "test_get_messages E J" "test_get_messages_with_limit E J"
proof -
  have t: "length (value_to_text J j) \<le> 1024 \<and> value_from_slice J (as_bytes (value_to_text J j)) = Some j"
    if "j \<in> set tested_messages" for j
    using assms(2) that by (simp add: test_json_ok_def list_all_iff value_from_bytes)
  note m = t [unfolded tested_messages_def, simplified list.set]
  show "test_get_messages E J"
    unfolding test_get_messages_def
    by (simp add: Let_def m put_entry_fits [OF assms(1)] store_defs sm_get_messages_def stamped_messages_def
        read_message_def stamp_samples number_samples dec_samples map_filter_simps test_message_def numbered_message_def)
  show "test_get_messages_with_limit E J"
    unfolding test_get_messages_with_limit_def
    by (simp add: Let_def m put_entry_fits [OF assms(1)] store_defs sm_get_messages_def stamped_messages_def
        read_message_def stamp_samples number_samples dec_samples map_filter_simps test_message_def numbered_message_def)
qed

lemma snapshot_test_passes:
  assumes "heapless_ok E" "bincode_ok B" "bincode_prefixed B"
  shows "test_snapshot_and_restore E B"
proof -
  let ?m = "[(''key1'', as_bytes ''value1''), (''key2'', as_bytes ''value2'')]"
  have "hm_wf ?m" by (simp add: hm_wf_def)
  with assms(2) obtain b m' where b: "bin_serialize B ?m = Some b" "bin_deserialize B b = Some m'" "hm_get m' = hm_get ?m"
    unfolding bincode_ok_def by blast
  moreover from b(1) assms(3) have "b \<noteq> []" by (fastforce simp: bincode_prefixed_def)
  moreover from b(3) have "map_of m' = map_of ?m" by (simp add: hm_get_def fun_eq_iff)
  ultimately show ?thesis
    unfolding test_snapshot_and_restore_def
    by (simp add: put_entry_fits [OF assms(1)] store_defs snapshot_def restore_def)
qed

lemma state_machine_tests_pass:
  assumes "heapless_ok E" "test_json_ok J" "bincode_ok B" "bincode_prefixed B"
  shows "list_all id (state_machine_tests E J B)"
  using plain_tests_pass [OF assms(1)] message_tests_pass [OF assms(1,2)] snapshot_test_passes [OF assms(1,3,4)]
  by (simp add: state_machine_tests_def)

end
