(* ===== verification/Log_Tests.thy ===== *)
theory Log_Tests
  imports Sample_Nodes Store_Tests
begin

text \<open>
  The unit tests of \<open>raft/src/log.rs\<close> on the model, for every codec that keeps its laws.  A test is a
  predicate on the log it works on; an operation that fails, where the source panics, fails the test.
  Each starts with an empty temporary directory.
\<close>

section \<open>Tests as predicates\<close>

definition call :: "(raft_log, 'a) op \<Rightarrow> ('a \<Rightarrow> raft_log \<Rightarrow> bool) \<Rightarrow> raft_log \<Rightarrow> bool" where
  "call m k l = (case m l of (Ret x, l') \<Rightarrow> k x l' | _ \<Rightarrow> False)"

definition check :: "(raft_log \<Rightarrow> bool) \<Rightarrow> (raft_log \<Rightarrow> bool) \<Rightarrow> raft_log \<Rightarrow> bool" where
  "check P k l \<longleftrightarrow> P l \<and> k l"

definition passed :: "raft_log \<Rightarrow> bool" where "passed l = True"

definition on_log_in :: "'e serde_scheme \<Rightarrow> data_dir \<Rightarrow> (raft_log \<Rightarrow> bool) \<Rightarrow> bool" where
  "on_log_in E d k = (case new_raft_log E d of (Ret _, l) \<Rightarrow> k l | _ \<Rightarrow> False)"

definition reopen :: "'e serde_scheme \<Rightarrow> (raft_log \<Rightarrow> bool) \<Rightarrow> raft_log \<Rightarrow> bool" where
  "reopen E k l = on_log_in E (data_dir l) k"

section \<open>The tests\<close>

definition test_new_raft_log :: "'e serde_scheme \<Rightarrow> bool" where
  "test_new_raft_log E = on_log_in E no_files (
     check (\<lambda>l. log_current_term l = 0 \<and> last_index l = 0 \<and> last_term l = 0 \<and> log_voted_for l = None) passed)"

definition test_set_current_term :: "'e serde_scheme \<Rightarrow> bool" where
  "test_set_current_term E = on_log_in E no_files (
     call (set_current_term E 5) (\<lambda>_.
     check (\<lambda>l. log_current_term l = 5) (
     call (set_voted_for E (Some ''candidate-01'')) (\<lambda>_.
     check (\<lambda>l. log_voted_for l \<noteq> None) (
     call (set_current_term E 6) (\<lambda>_.
     check (\<lambda>l. log_current_term l = 6 \<and> log_voted_for l = None) passed))))))"

definition test_voted_for :: "'e serde_scheme \<Rightarrow> bool" where
  "test_voted_for E = on_log_in E no_files (
     check (\<lambda>l. log_voted_for l = None) (
     call (set_voted_for E (Some ''node-02'')) (\<lambda>_.
     check (\<lambda>l. log_voted_for l = Some ''node-02'') (
     call (set_voted_for E None) (\<lambda>_.
     check (\<lambda>l. log_voted_for l = None) passed)))))"

definition test_append_entry :: "'e serde_scheme \<Rightarrow> bool" where
  "test_append_entry E = on_log_in E no_files (
     call (log_append E 1 Noop) (\<lambda>index.
     check (\<lambda>l. index = 1 \<and> last_index l = 1 \<and> last_term l = 1) (
     check (\<lambda>l. case get_entry l 1 of None \<Rightarrow> False | Some e \<Rightarrow> log_entry.index e = 1 \<and> entry_term e = 1) passed)))"

definition test_append_multiple_entries :: "'e serde_scheme \<Rightarrow> bool" where
  "test_append_multiple_entries E = on_log_in E no_files (
     call (log_append E 1 Noop) (\<lambda>_.
     call (log_append E 1 (Put (make_key E ''key1'') (make_value E (as_bytes ''value1'')))) (\<lambda>_.
     call (log_append E 2 (Delete (make_key E ''key1''))) (\<lambda>_.
     check (\<lambda>l. last_index l = 3 \<and> last_term l = 2) (
     check (\<lambda>l. term_at l 1 = Some 1 \<and> term_at l 2 = Some 1 \<and> term_at l 3 = Some 2) passed)))))"

definition five_noops :: "'e serde_scheme \<Rightarrow> (raft_log \<Rightarrow> bool) \<Rightarrow> raft_log \<Rightarrow> bool" where
  "five_noops E k = ((\<lambda>k. call (log_append E 1 Noop) (\<lambda>_. k)) ^^ 5) k"

definition test_get_entries_range :: "'e serde_scheme \<Rightarrow> bool" where
  "test_get_entries_range E = on_log_in E no_files (
     five_noops E (
     check (\<lambda>l. let entries = get_entries l 2 4
       in length entries = 3 \<and> index (entries ! 0) = 2 \<and> index (entries ! 1) = 3 \<and> index (entries ! 2) = 4) passed))"

definition test_has_entry :: "'e serde_scheme \<Rightarrow> bool" where
  "test_has_entry E = on_log_in E no_files (
     call (log_append E 1 Noop) (\<lambda>_.
     call (log_append E 2 Noop) (\<lambda>_.
     check (\<lambda>l. has_entry l 0 0 \<and> has_entry l 1 1 \<and> \<not> has_entry l 1 2 \<and> has_entry l 2 2 \<and> \<not> has_entry l 3 1)
     passed)))"

definition test_truncate_from :: "'e serde_scheme \<Rightarrow> bool" where
  "test_truncate_from E = on_log_in E no_files (
     five_noops E (
     check (\<lambda>l. last_index l = 5) (
     call (truncate_from E 3) (\<lambda>_.
     check (\<lambda>l. last_index l = 2 \<and> get_entry l 1 \<noteq> None \<and> get_entry l 2 \<noteq> None \<and>
       get_entry l 3 = None \<and> get_entry l 4 = None \<and> get_entry l 5 = None) passed))))"

definition test_append_entries_from_leader :: "'e serde_scheme \<Rightarrow> bool" where
  "test_append_entries_from_leader E = on_log_in E no_files (
     call (append_entries E [\<lparr>index = 1, entry_term = 1, command = Noop\<rparr>,
       \<lparr>index = 2, entry_term = 1, command = Put (make_key E ''k'') (make_value E (as_bytes ''v''))\<rparr>]) (\<lambda>_.
     check (\<lambda>l. last_index l = 2 \<and> get_entry l 1 \<noteq> None \<and> get_entry l 2 \<noteq> None) passed))"

definition test_persistence_across_restarts :: "'e serde_scheme \<Rightarrow> bool" where
  "test_persistence_across_restarts E = on_log_in E no_files (
     call (set_current_term E 5) (\<lambda>_.
     call (set_voted_for E (Some ''node-01'')) (\<lambda>_.
     call (log_append E 5 (Put (make_key E ''persistent'') (make_value E (as_bytes ''data'')))) (\<lambda>_.
     reopen E (
     check (\<lambda>l. log_current_term l = 5 \<and> log_voted_for l = Some ''node-01'' \<and> last_index l = 1 \<and> last_term l = 5) (
     check (\<lambda>l. case get_entry l 1 of
          Some e \<Rightarrow> (case command e of
            Put key value \<Rightarrow> key = ''persistent'' \<and> value = as_bytes ''data'' | _ \<Rightarrow> False)
        | None \<Rightarrow> False) passed))))))"

definition test_term_at_nonexistent_index :: "'e serde_scheme \<Rightarrow> bool" where
  "test_term_at_nonexistent_index E = on_log_in E no_files (check (\<lambda>l. term_at l 999 = None) passed)"

definition test_get_nonexistent_entry :: "'e serde_scheme \<Rightarrow> bool" where
  "test_get_nonexistent_entry E = on_log_in E no_files (check (\<lambda>l. get_entry l 999 = None) passed)"

definition test_empty_get_entries_range :: "'e serde_scheme \<Rightarrow> bool" where
  "test_empty_get_entries_range E = on_log_in E no_files (check (\<lambda>l. get_entries l 1 10 = []) passed)"

definition log_tests :: "'e serde_scheme \<Rightarrow> bool list" where
  "log_tests E = [test_new_raft_log E, test_set_current_term E, test_voted_for E, test_append_entry E,
     test_append_multiple_entries E, test_get_entries_range E, test_has_entry E, test_truncate_from E,
     test_append_entries_from_leader E, test_persistence_across_restarts E, test_term_at_nonexistent_index E,
     test_get_nonexistent_entry E, test_empty_get_entries_range E]"

section \<open>They pass\<close>

text \<open>Rules for the operations on a log whose files are in step, by its entries, state and last index.\<close>

definition logged :: "'e serde_scheme \<Rightarrow> raft_log \<Rightarrow> log_view \<Rightarrow> bool" where
  "logged E l v \<longleftrightarrow> serde_ok E \<and> synced E l \<and> log_view l = v"

lemma logged_start: "serde_ok E \<Longrightarrow> (\<And>l. logged E l (Map.empty, default_persistent_state, 0) \<Longrightarrow> k l) \<Longrightarrow> on_log_in E no_files k"
  using fresh_log_synced [of E]
  by (simp add: on_log_in_def no_files_def new_raft_log_fresh logged_def log_view_def fresh_log_def)

lemma logged_reopen: "logged E l v \<Longrightarrow> (\<And>l'. logged E l' v \<Longrightarrow> k l') \<Longrightarrow> reopen E k l"
  using new_raft_log_synced [of E l] by (auto simp: reopen_def on_log_in_def logged_def)

lemma logged_op:
  assumes "logged E l v" "log_op_ok l x" "\<And>l'. logged E l' (view_op E x v) \<Longrightarrow> k l'"
  shows "k (run_log_op E x l)"
  using assms synced_run_log_op [of E l x] run_log_op_view [of E l x] by (simp add: logged_def)

lemma logged_term: "logged E l v \<Longrightarrow> (\<And>l'. logged E l' (view_op E (SetTerm t) v) \<Longrightarrow> k () l') \<Longrightarrow> call (set_current_term E t) k l"
  using logged_op [of E l v "SetTerm t" "k ()"] synced_set_current_term [of E l t] by (auto simp: call_def logged_def)

lemma logged_vote: "logged E l v \<Longrightarrow> (\<And>l'. logged E l' (view_op E (SetVote c) v) \<Longrightarrow> k () l') \<Longrightarrow> call (set_voted_for E c) k l"
  using logged_op [of E l v "SetVote c" "k ()"] synced_set_voted_for [of E l c] by (auto simp: call_def logged_def)

lemma logged_append:
  assumes "logged E l (m, p, n)" "n \<noteq> - 1 \<and> command_ok c"
    "\<And>l'. logged E l' (view_op E (AppendCmd t c) (m, p, n)) \<Longrightarrow> k (n + 1) l'"
  shows "call (log_append E t c) k l"
proof -
  have n: "last_index l = n" using assms(1) by (auto simp: logged_def log_view_def)
  with logged_op [OF assms(1), of "AppendCmd t c" "k (n + 1)"] assms(2,3)
  have "k (n + 1) (run_log_op E (AppendCmd t c) l)" by simp
  with synced_log_append(1) [of E l c t] assms(1,2) n show ?thesis by (simp add: call_def logged_def)
qed

lemma logged_append_entries:
  assumes "logged E l (m, p, n)" "fits n es \<and> list_all entry_ok es"
    "\<And>l'. logged E l' (view_op E (AppendAll es) (m, p, n)) \<Longrightarrow> k () l'"
  shows "call (append_entries E es) k l"
proof -
  have n: "last_index l = n" using assms(1) by (auto simp: logged_def log_view_def)
  with logged_op [OF assms(1), of "AppendAll es" "k ()"] assms(2,3)
  have "k () (run_log_op E (AppendAll es) l)" by simp
  with synced_append_entries(1) [of E l es] assms(1,2) n show ?thesis by (simp add: call_def logged_def)
qed

lemma logged_truncate:
  assumes "logged E l (m, p, n)" "0 < b \<and> b \<le> n" "\<And>l'. logged E l' (view_op E (TruncateFrom b) (m, p, n)) \<Longrightarrow> k () l'"
  shows "call (truncate_from E b) k l"
proof -
  have n: "last_index l = n" using assms(1) by (auto simp: logged_def log_view_def)
  with logged_op [OF assms(1), of "TruncateFrom b" "k ()"] assms(2,3)
  have "k () (run_log_op E (TruncateFrom b) l)" by simp
  with synced_truncate_from [of E l b] assms(1,2) n show ?thesis by (auto simp: call_def logged_def)
qed

lemma logged_check: "P l \<Longrightarrow> k l \<Longrightarrow> check P k l" by (simp add: check_def)

lemma logged_passed: "passed l" by (simp add: passed_def)

lemma loggedD: "logged E l (m, p, n) \<Longrightarrow> heapless_ok E \<and> entries l = m \<and> persistent l = p \<and> last_index l = n"
  by (auto simp: logged_def log_view_def serde_ok_def)

lemmas logged_calls = logged_term [where v = "(m, p, n)" for m p n, unfolded view_op.simps]
  logged_vote [where v = "(m, p, n)" for m p n, unfolded view_op.simps]
  logged_append [unfolded view_op.simps] logged_append_entries [unfolded view_op.simps]
  logged_truncate [unfolded view_op.simps] logged_reopen

lemmas log_test_defs = test_new_raft_log_def test_set_current_term_def test_voted_for_def test_append_entry_def
  test_append_multiple_entries_def test_get_entries_range_def test_has_entry_def test_truncate_from_def
  test_append_entries_from_leader_def test_persistence_across_restarts_def test_term_at_nonexistent_index_def
  test_get_nonexistent_entry_def test_empty_get_entries_range_def

lemmas log_reads = log_current_term_def log_voted_for_def last_term_def term_at_def get_entry_def has_entry_def
  get_entries_def

lemma range_incl_sample: "range_incl 2 4 = [2, 3, 4]"
  by (simp add: range_incl_def upt_rec)

lemma saturating_sub_sample: "saturating_sub 3 1 = 2"
  by code_simp

lemma map_filter_empty: "List.map_filter (\<lambda>x. None) xs = []"
  by (induction xs) (simp_all add: map_filter_simps)

lemma five_noops_unfold: "five_noops E k = call (log_append E 1 Noop) (\<lambda>_. call (log_append E 1 Noop) (\<lambda>_.
    call (log_append E 1 Noop) (\<lambda>_. call (log_append E 1 Noop) (\<lambda>_. call (log_append E 1 Noop) (\<lambda>_. k)))))"
  by (simp add: five_noops_def numeral_eq_Suc)

lemma made_key_ok: "heapless_ok E \<Longrightarrow> length s \<le> 256 \<Longrightarrow> make_key E s = s"
  by (simp add: make_key_def push_str_fits)

lemma made_value_ok: "heapless_ok E \<Longrightarrow> length v \<le> 1024 \<Longrightarrow> make_value E v = v"
  by (simp add: make_value_def push_bytes_take)

lemma log_tests_pass:
  assumes E: "serde_ok E"
  shows "list_all id (log_tests E)"
proof -
  note h = serde_ok_heapless [OF E]
  note s = made_key_ok [OF h] made_value_ok [OF h] push_str_fits [OF h] fits.simps entry_ok_def insert_entry_def
    default_persistent_state_def MAX_KEY_SIZE_def MAX_VALUE_SIZE_def range_incl_sample map_filter_simps map_filter_empty log_reads saturating_sub_sample
  show ?thesis
    unfolding log_tests_def log_test_defs five_noops_unfold list.pred_inject(2) id_apply
    by (intro conjI list.pred_inject(1); rule logged_start [OF E])
      ((erule logged_calls | rule logged_check logged_passed | (auto dest!: loggedD simp: s; fail))+)
qed

end
