(* ===== verification/Config_Tests.thy ===== *)
theory Config_Tests
  imports Config
begin

text \<open>
  The unit tests of \<open>raft/src/config.rs\<close> on the model.  The TOML reader and the temporary file are
  parameters: each test says what document its text is and loads it from the path it was written to.
\<close>

section \<open>The tests\<close>

definition test_timing_config_defaults :: bool where
  "test_timing_config_defaults =
     (let timing = default_timing
      in heartbeat_interval_ms timing = 50 \<and> election_timeout_min_ms timing = 150 \<and>
         election_timeout_max_ms timing = 300 \<and> rpc_timeout_ms timing = 1000)"

definition test_ebpf_config_defaults :: bool where
  "test_ebpf_config_defaults = (let ebpf = default_ebpf in ebpf_enabled ebpf \<and> ebpf_interface ebpf = ''eth0'')"

definition test_default_for_testing :: bool where
  "test_default_for_testing =
     (let config = default_for_testing ''test-node'' 6000
      in cfg_node_id (cfg_server config) = ''test-node'' \<and> cfg_listen_addr (cfg_server config) = ''127.0.0.1:6000'' \<and>
         cfg_data_dir (cfg_server config) = ''/tmp/raft-test-node'' \<and> cfg_log_level (cfg_server config) = ''debug'' \<and>
         \<not> ebpf_enabled (cfg_ebpf config) \<and> cfg_peers config = [])"

text \<open>Load what was written to a file whose text is the document \<open>d\<close>.\<close>

definition load_written :: "config_doc option \<Rightarrow> config option" where
  "load_written d = load_config (\<lambda>text. d) (\<lambda>path. if path = ''config.toml'' then Some ''text'' else None) ''config.toml''"

definition full_doc :: config_doc where
  "full_doc =
     \<lparr>doc_server = Some \<lparr>doc_node_id = Some ''node-01'', doc_listen_addr = Some ''0.0.0.0:5555'',
        doc_data_dir = Some ''/var/lib/raft/node-01'', doc_log_level = Some ''info''\<rparr>,
      doc_timing = Some \<lparr>doc_heartbeat = Some 100, doc_timeout_min = Some 200, doc_timeout_max = Some 400,
        doc_rpc_timeout = Some 2000\<rparr>,
      doc_peers = Some [\<lparr>doc_peer_id = Some ''node-02'', doc_peer_address = Some ''192.168.1.2:5555''\<rparr>,
        \<lparr>doc_peer_id = Some ''node-03'', doc_peer_address = Some ''192.168.1.3:5555''\<rparr>],
      doc_ebpf = Some \<lparr>doc_enabled = Some False, doc_interface = Some ''ens192''\<rparr>\<rparr>"

definition test_load_config_from_toml :: bool where
  "test_load_config_from_toml = (case load_written (Some full_doc) of
       None \<Rightarrow> False
     | Some config \<Rightarrow>
         cfg_node_id (cfg_server config) = ''node-01'' \<and> cfg_listen_addr (cfg_server config) = ''0.0.0.0:5555'' \<and>
         cfg_data_dir (cfg_server config) = ''/var/lib/raft/node-01'' \<and> cfg_log_level (cfg_server config) = ''info'' \<and>
         heartbeat_interval_ms (cfg_timing config) = 100 \<and> election_timeout_min_ms (cfg_timing config) = 200 \<and>
         election_timeout_max_ms (cfg_timing config) = 400 \<and> rpc_timeout_ms (cfg_timing config) = 2000 \<and>
         \<not> ebpf_enabled (cfg_ebpf config) \<and> ebpf_interface (cfg_ebpf config) = ''ens192'' \<and>
         length (cfg_peers config) = 2 \<and>
         pc_id (cfg_peers config ! 0) = ''node-02'' \<and> pc_address (cfg_peers config ! 0) = ''192.168.1.2:5555'' \<and>
         pc_id (cfg_peers config ! 1) = ''node-03'' \<and> pc_address (cfg_peers config ! 1) = ''192.168.1.3:5555'')"

definition minimal_doc :: config_doc where
  "minimal_doc =
     \<lparr>doc_server = Some \<lparr>doc_node_id = Some ''minimal-node'', doc_listen_addr = Some ''0.0.0.0:5555'',
        doc_data_dir = None, doc_log_level = None\<rparr>,
      doc_timing = None, doc_peers = None, doc_ebpf = None\<rparr>"

definition test_load_config_with_defaults :: bool where
  "test_load_config_with_defaults = (case load_written (Some minimal_doc) of
       None \<Rightarrow> False
     | Some config \<Rightarrow>
         cfg_node_id (cfg_server config) = ''minimal-node'' \<and> cfg_data_dir (cfg_server config) = ''/var/lib/raft'' \<and>
         cfg_log_level (cfg_server config) = ''info'' \<and>
         heartbeat_interval_ms (cfg_timing config) = 50 \<and> election_timeout_min_ms (cfg_timing config) = 150 \<and>
         election_timeout_max_ms (cfg_timing config) = 300 \<and>
         ebpf_enabled (cfg_ebpf config) \<and> ebpf_interface (cfg_ebpf config) = ''eth0'' \<and> cfg_peers config = [])"

definition test_load_nonexistent_file :: bool where
  "test_load_nonexistent_file =
     (load_config (\<lambda>text. Some full_doc) (\<lambda>path. if path = ''config.toml'' then Some ''text'' else None)
        ''/nonexistent/path/config.toml'' = None)"

definition test_load_invalid_toml :: bool where
  "test_load_invalid_toml = (load_written None = None)"

definition config_tests :: "bool list" where
  "config_tests = [test_timing_config_defaults, test_ebpf_config_defaults, test_default_for_testing,
     test_load_config_from_toml, test_load_config_with_defaults, test_load_nonexistent_file, test_load_invalid_toml]"

section \<open>They pass\<close>

lemma config_tests_pass: "list_all id config_tests"
proof -
  note defaults = default_timing_def default_heartbeat_interval_def default_election_timeout_min_def
    default_election_timeout_max_def default_rpc_timeout_def default_ebpf_def default_ebpf_enabled_def
    default_interface_def default_data_dir_def default_log_level_def
  note docs = load_written_def load_config_def config_of_doc_def server_of_doc_def timing_of_doc_def peer_of_doc_def
    ebpf_of_doc_def default_or_def full_doc_def minimal_doc_def
  have "dec 6000 = ''6000''" by (simp add: dec.simps digit_char_def char_of_def bit_0)
  then have "test_default_for_testing" by (simp add: test_default_for_testing_def default_for_testing_def)
  moreover have "test_timing_config_defaults" "test_ebpf_config_defaults"
    by (simp_all add: test_timing_config_defaults_def test_ebpf_config_defaults_def defaults)
  moreover have "test_load_config_from_toml" by (simp add: test_load_config_from_toml_def docs)
  moreover have "test_load_config_with_defaults" by (simp add: test_load_config_with_defaults_def docs defaults)
  moreover have "test_load_nonexistent_file" "test_load_invalid_toml"
    by (simp_all add: test_load_nonexistent_file_def test_load_invalid_toml_def docs)
  ultimately show ?thesis by (simp add: config_tests_def)
qed

end
