(* ===== verification/Cli.thy ===== *)
theory Cli
  imports Ipc
begin

text \<open>
  The command-line client (\<open>raft-cli/src/commands/mod.rs\<close>, \<open>client.rs\<close> and \<open>main.rs\<close>): the requests it
  writes, the responses it reads, and what each command prints.  A daemon's socket is an operation from
  a request line to a response line on a state \<open>'s\<close>; the empty line is a closed connection, and a daemon
  that never answers leaves the command waiting (\<open>NeverReturns\<close>).  Argument
  parsing (\<open>clap\<close>), JSON text and the debug form of a JSON array are parameters.
\<close>

section \<open>Wire types\<close>

datatype cli_request =
    JoinReq string string
  | LeaveReq string
  | StatusReq
  | ProposeReq string "string option"
  | GetReq string
  | SendReq string
  | MessagesReq "u64 option" "u64 option"

record cli_response =
  cr_success :: bool
  cr_message :: string
  cr_data :: "json option"

definition opt_json :: "('a \<Rightarrow> json) \<Rightarrow> 'a option \<Rightarrow> json" where
  "opt_json f x = (case x of None \<Rightarrow> JNull | Some y \<Rightarrow> f y)"

definition u64_json :: "u64 \<Rightarrow> json" where "u64_json w = JNum (unat w)"

definition request_json :: "cli_request \<Rightarrow> json" where
  "request_json req = (case req of
       JoinReq n a \<Rightarrow> JObj [(''Join'', JObj [(''node_id'', JStr n), (''address'', JStr a)])]
     | LeaveReq n \<Rightarrow> JObj [(''Leave'', JObj [(''node_id'', JStr n)])]
     | StatusReq \<Rightarrow> JStr ''Status''
     | ProposeReq k v \<Rightarrow> JObj [(''Propose'', JObj [(''key'', JStr k), (''value'', opt_json JStr v)])]
     | GetReq k \<Rightarrow> JObj [(''Get'', JObj [(''key'', JStr k)])]
     | SendReq m \<Rightarrow> JObj [(''Send'', JObj [(''message'', JStr m)])]
     | MessagesReq l i \<Rightarrow> JObj [(''Messages'', JObj [(''limit'', opt_json u64_json l),
         (''since_index'', opt_json u64_json i)])])"

text \<open>\<open>success\<close> and \<open>message\<close> are required; \<open>data\<close> defaults to \<open>None\<close>.\<close>

definition cli_response_of_json :: "json \<Rightarrow> cli_response option" where
  "cli_response_of_json j =
     Option.bind (Option.bind (j_get j ''success'') as_bool) (\<lambda>b.
     Option.bind (str_field j ''message'') (\<lambda>m.
     Option.bind (opt_field Some j ''data'') (\<lambda>d.
     Some \<lparr>cr_success = b, cr_message = m, cr_data = d\<rparr>)))"

section \<open>Talking to a daemon\<close>

datatype cli_error =
    NotRunning string
  | ConnectionClosed
  | NeverReturns
  | BadResponse
  | ValueRequired
  | UnknownOperation string

record 's cli_env =
  json_text :: "json \<Rightarrow> string"
  json_value :: "string \<Rightarrow> json option"
  debug_values :: "json list \<Rightarrow> string"
  sockets :: "string \<Rightarrow> (string \<Rightarrow> ('s, string) op) option"

type_synonym ('s, 'a) cli_op = "'s \<Rightarrow> (cli_error + 'a) \<times> 's"

definition connect_node :: "'s cli_env \<Rightarrow> string \<Rightarrow> cli_error + (string \<Rightarrow> ('s, string) op)" where
  "connect_node C node =
     (case sockets C (''/tmp/raft-'' @ node @ ''.sock'') of
        None \<Rightarrow> Inl (NotRunning node)
      | Some server \<Rightarrow> Inr server)"

definition send_request ::
    "'s cli_env \<Rightarrow> (string \<Rightarrow> ('s, string) op) \<Rightarrow> cli_request \<Rightarrow> ('s, cli_response) cli_op" where
  "send_request C server req s =
     (case server (json_text C (request_json req) @ [LF]) s of
        (Hang, s') \<Rightarrow> (Inl NeverReturns, s')
      | (Fail _, s') \<Rightarrow> (Inl ConnectionClosed, s')
      | (Ret line, s') \<Rightarrow>
         (if line = [] then Inl ConnectionClosed
          else case Option.bind (json_value C line) cli_response_of_json of
              None \<Rightarrow> Inl BadResponse
            | Some r \<Rightarrow> Inr r, s'))"

definition request_response :: "'s cli_env \<Rightarrow> string \<Rightarrow> cli_request \<Rightarrow> ('s, cli_response) cli_op" where
  "request_response C node req s =
     (case connect_node C node of
        Inl e \<Rightarrow> (Inl e, s)
      | Inr server \<Rightarrow> send_request C server req s)"

definition show_response :: "(cli_response \<Rightarrow> 'a) \<Rightarrow> ('s, cli_response) cli_op \<Rightarrow> ('s, 'a) cli_op" where
  "show_response f m s = (case m s of (Inl e, s') \<Rightarrow> (Inl e, s') | (Inr r, s') \<Rightarrow> (Inr (f r), s'))"

section \<open>Output\<close>

datatype printed = Out string | Err string

text \<open>The check mark and the cross, in UTF-8.\<close>

definition tick :: string where "tick = [CHR 0xE2, CHR 0x9C, CHR 0x93, CHR '' '']"
definition cross :: string where "cross = [CHR 0xE2, CHR 0x9C, CHR 0x97, CHR '' '']"

definition get_str :: "json \<Rightarrow> string \<Rightarrow> string option" where
  "get_str j k = Option.bind (j_get j k) as_str"

definition get_u64 :: "json \<Rightarrow> string \<Rightarrow> nat option" where
  "get_u64 j k = Option.bind (j_get j k) as_u64"

definition get_array :: "json \<Rightarrow> string \<Rightarrow> json list option" where
  "get_array j k = Option.bind (j_get j k) as_array"

definition line_if :: "'a option \<Rightarrow> ('a \<Rightarrow> printed) \<Rightarrow> printed list" where
  "line_if x f = (case x of None \<Rightarrow> [] | Some y \<Rightarrow> [f y])"

text \<open>\<open>{:02}\<close>.\<close>

definition dec2 :: "nat \<Rightarrow> string" where
  "dec2 n = (if n < 10 then CHR ''0'' # dec n else dec n)"

definition chrono_lite :: "nat \<Rightarrow> string" where
  "chrono_lite unix_secs =
     (let secs = unix_secs mod 60; mins = (unix_secs div 60) mod 60; hours = (unix_secs div 3600) mod 24
      in dec2 hours @ '':'' @ dec2 mins @ '':'' @ dec2 secs)"

definition join_output :: "string \<Rightarrow> string \<Rightarrow> cli_response \<Rightarrow> printed list" where
  "join_output n address r =
     (if cr_success r then [Out (tick @ ''Successfully joined '' @ n @ '' at '' @ address)]
      else [Err (cross @ ''Failed to join: '' @ cr_message r)])"

definition leave_output :: "string \<Rightarrow> cli_response \<Rightarrow> printed list" where
  "leave_output n r =
     (if cr_success r then [Out (tick @ ''Successfully removed '' @ n)]
      else [Err (cross @ ''Failed to remove: '' @ cr_message r)])"

definition status_lines :: "'s cli_env \<Rightarrow> json \<Rightarrow> printed list" where
  "status_lines C d =
     [Out ''RAFT Cluster Status'', Out ''==================''] @
     line_if (get_str d ''node_id'') (\<lambda>v. Out (''Node ID:      '' @ v)) @
     line_if (get_str d ''role'') (\<lambda>v. Out (''Role:         '' @ v)) @
     line_if (get_u64 d ''current_term'') (\<lambda>v. Out (''Current Term: '' @ dec v)) @
     line_if (get_u64 d ''commit_index'') (\<lambda>v. Out (''Commit Index: '' @ dec v)) @
     line_if (get_u64 d ''last_applied'') (\<lambda>v. Out (''Last Applied: '' @ dec v)) @
     (case j_get d ''leader_id'' of
        None \<Rightarrow> []
      | Some l \<Rightarrow> if is_null l then [Out ''Leader:       (none)'']
                 else line_if (as_str l) (\<lambda>v. Out (''Leader:       '' @ v))) @
     line_if (get_array d ''peers'') (\<lambda>ps. Out (''Peers:        '' @ debug_values C ps))"

definition status_output :: "'s cli_env \<Rightarrow> cli_response \<Rightarrow> printed list" where
  "status_output C r =
     (if cr_success r then (case cr_data r of None \<Rightarrow> [] | Some d \<Rightarrow> status_lines C d)
      else [Err (cross @ ''Failed to get status: '' @ cr_message r)])"

definition leader_hint_line :: "string \<Rightarrow> cli_response \<Rightarrow> printed list" where
  "leader_hint_line hint r =
     (case cr_data r of None \<Rightarrow> [] | Some d \<Rightarrow> line_if (get_str d ''leader_id'') (\<lambda>l. Err (hint @ l)))"

definition get_lines :: "string \<Rightarrow> json \<Rightarrow> printed list" where
  "get_lines key d = (case j_get d ''value'' of
       None \<Rightarrow> []
     | Some v \<Rightarrow> if is_null v then [Out (key @ '': (not found)'')]
                else line_if (as_str v) (\<lambda>s. Out (key @ '': '' @ s)))"

definition propose_output :: "string \<Rightarrow> string \<Rightarrow> string option \<Rightarrow> cli_response \<Rightarrow> printed list" where
  "propose_output operation key v r =
     (if cr_success r then
        (if operation = ''put'' then [Out (tick @ ''Set '' @ key @ ''='' @ default_or [] v)]
         else if operation = ''delete'' then [Out (tick @ ''Deleted '' @ key)]
         else if operation = ''get'' then (case cr_data r of None \<Rightarrow> [] | Some d \<Rightarrow> get_lines key d)
         else [])
      else Err (cross @ ''Operation failed: '' @ cr_message r) #
        leader_hint_line ''  Hint: Try connecting to leader node: '' r)"

definition send_output :: "string \<Rightarrow> cli_response \<Rightarrow> printed list" where
  "send_output msg r =
     (if cr_success r then
        Out (tick @ ''Message sent: '' @ [CHR 0x22] @ msg @ [CHR 0x22]) #
        (case cr_data r of None \<Rightarrow> []
         | Some d \<Rightarrow> line_if (get_u64 d ''index'') (\<lambda>i. Out (''  Replicated at log index '' @ dec i)))
      else Err (cross @ ''Failed to send: '' @ cr_message r) #
        leader_hint_line ''  Hint: Send from leader node: '' r)"

definition message_line :: "json \<Rightarrow> printed" where
  "message_line msg =
     (let sender = default_or ''?'' (get_str msg ''from'');
          txt = default_or [] (get_str msg ''message'');
          ts = default_or 0 (get_u64 msg ''timestamp'')
      in Out (''['' @ chrono_lite (ts div 1000) @ ''] '' @ sender @ '': '' @ txt))"

definition messages_lines :: "json \<Rightarrow> printed list" where
  "messages_lines d =
     (case get_u64 d ''last_applied'' of
        None \<Rightarrow> []
      | Some i \<Rightarrow> [Out (''Messages (last applied index: '' @ dec i @ '')''), Out (replicate 50 CHR ''='')]) @
     (case get_array d ''messages'' of
        None \<Rightarrow> []
      | Some [] \<Rightarrow> [Out ''(no messages)'']
      | Some msgs \<Rightarrow> map message_line msgs)"

definition messages_output :: "cli_response \<Rightarrow> printed list" where
  "messages_output r =
     (if cr_success r then (case cr_data r of None \<Rightarrow> [] | Some d \<Rightarrow> messages_lines d)
      else [Err (cross @ ''Failed to get messages: '' @ cr_message r)])"

section \<open>Commands\<close>

definition cli_join :: "'s cli_env \<Rightarrow> string \<Rightarrow> string \<Rightarrow> string \<Rightarrow> ('s, printed list) cli_op" where
  "cli_join C local n address =
     show_response (join_output n address) (request_response C local (JoinReq n address))"

definition cli_leave :: "'s cli_env \<Rightarrow> string \<Rightarrow> string \<Rightarrow> ('s, printed list) cli_op" where
  "cli_leave C local n = show_response (leave_output n) (request_response C local (LeaveReq n))"

definition cli_status :: "'s cli_env \<Rightarrow> string \<Rightarrow> ('s, printed list) cli_op" where
  "cli_status C local = show_response (status_output C) (request_response C local StatusReq)"

definition operation_request :: "string \<Rightarrow> string \<Rightarrow> string option \<Rightarrow> cli_error + cli_request" where
  "operation_request operation key v =
     (if operation = ''put'' then (case v of None \<Rightarrow> Inl ValueRequired | Some w \<Rightarrow> Inr (ProposeReq key (Some w)))
      else if operation = ''delete'' then Inr (ProposeReq key None)
      else if operation = ''get'' then Inr (GetReq key)
      else Inl (UnknownOperation operation))"

definition cli_propose ::
    "'s cli_env \<Rightarrow> string \<Rightarrow> string \<Rightarrow> string \<Rightarrow> string option \<Rightarrow> ('s, printed list) cli_op" where
  "cli_propose C local operation key v s =
     (case connect_node C local of
        Inl e \<Rightarrow> (Inl e, s)
      | Inr server \<Rightarrow> (case operation_request operation key v of
            Inl e \<Rightarrow> (Inl e, s)
          | Inr req \<Rightarrow> show_response (propose_output operation key v) (send_request C server req) s))"

definition cli_send :: "'s cli_env \<Rightarrow> string \<Rightarrow> string \<Rightarrow> ('s, printed list) cli_op" where
  "cli_send C local msg = show_response (send_output msg) (request_response C local (SendReq msg))"

definition cli_messages :: "'s cli_env \<Rightarrow> string \<Rightarrow> u64 \<Rightarrow> ('s, printed list) cli_op" where
  "cli_messages C local limit =
     show_response messages_output (request_response C local (MessagesReq (Some limit) None))"

text \<open>
  \<open>watch\<close> polls for ever; a poll is one connection and one request.  \<open>seen\<close> is the set of keys of the
  messages already shown.
\<close>

definition message_key :: "json \<Rightarrow> string" where
  "message_key msg = dec (default_or 0 (get_u64 msg ''timestamp'')) @ '':'' @ default_or [] (get_str msg ''message'')"

definition watch_message :: "json \<Rightarrow> string list \<times> printed list \<Rightarrow> string list \<times> printed list" where
  "watch_message msg st = (case st of (seen, out) \<Rightarrow>
     if message_key msg \<in> set seen then (seen, out)
     else (message_key msg # seen, out @ [message_line msg]))"

definition watch_response :: "cli_response \<Rightarrow> string list \<times> printed list \<Rightarrow> string list \<times> printed list" where
  "watch_response r st =
     (if cr_success r then
        (case cr_data r of None \<Rightarrow> st
         | Some d \<Rightarrow> (case get_array d ''messages'' of None \<Rightarrow> st | Some msgs \<Rightarrow> fold watch_message (rev msgs) st))
      else st)"

definition watch_request :: cli_request where "watch_request = MessagesReq (Some 50) None"

fun watch_polls ::
    "'s cli_env \<Rightarrow> string \<Rightarrow> nat \<Rightarrow> string list \<times> printed list \<Rightarrow> ('s, string list \<times> printed list) cli_op" where
  "watch_polls C local 0 st s = (Inr st, s)"
| "watch_polls C local (Suc n) st s =
     (case request_response C local watch_request s of
        (Inl e, s') \<Rightarrow> (Inl e, s')
      | (Inr r, s') \<Rightarrow> watch_polls C local n (watch_response r st) s')"

section \<open>The main function\<close>

datatype cli_command =
    CmdJoin string string
  | CmdLeave string
  | CmdStatus
  | CmdPropose string string "string option"
  | CmdSend string
  | CmdMessages u64
  | CmdWatch u64

text \<open>\<open>Watch\<close> does not return; \<open>polls\<close> bounds how many polls are looked at.\<close>

definition cli_main :: "'s cli_env \<Rightarrow> nat \<Rightarrow> string \<Rightarrow> cli_command \<Rightarrow> ('s, printed list) cli_op" where
  "cli_main C polls node cmd s = (case cmd of
       CmdJoin n a \<Rightarrow> cli_join C node n a s
     | CmdLeave n \<Rightarrow> cli_leave C node n s
     | CmdStatus \<Rightarrow> cli_status C node s
     | CmdPropose oper key v \<Rightarrow> cli_propose C node oper key v s
     | CmdSend m \<Rightarrow> cli_send C node m s
     | CmdMessages limit \<Rightarrow> cli_messages C node limit s
     | CmdWatch interval \<Rightarrow>
         (case watch_polls C node polls
              ([], [Out (''Watching for messages on '' @ node @ '' (Ctrl+C to stop)...''),
                    Out (replicate 50 CHR ''='')]) s of
            (Inl e, s') \<Rightarrow> (Inl e, s')
          | (Inr (seen, out), s') \<Rightarrow> (Inr out, s')))"

end
