(* ===== verification/Cli_Properties.thy ===== *)
theory Cli_Properties
  imports Cli Ipc_Properties
begin

text \<open>
  The client against the daemon: every request the client writes is the request the daemon reads, so
  put, delete and get print what the daemon's node makes of them; and what \<open>watch\<close> and the clock format
  show.
\<close>

section \<open>The wire\<close>

fun ipc_of_cli :: "cli_request \<Rightarrow> ipc_request" where
  "ipc_of_cli (JoinReq n a) = ipc_request.Join n a"
| "ipc_of_cli (LeaveReq n) = ipc_request.Leave n"
| "ipc_of_cli StatusReq = ipc_request.Status"
| "ipc_of_cli (ProposeReq k v) = Propose k v"
| "ipc_of_cli (GetReq k) = Get k"
| "ipc_of_cli (SendReq m) = Send m"
| "ipc_of_cli (MessagesReq l i) = Messages l i"

definition cli_of_ipc :: "ipc_response \<Rightarrow> cli_response" where
  "cli_of_ipc r = \<lparr>cr_success = resp_success r, cr_message = resp_message r, cr_data = resp_data r\<rparr>"

lemma opt_str_field [simp]: "opt_field as_str (JObj [(a, b), (k, opt_json JStr v)]) k = Some v" if "a \<noteq> k"
  using that by (cases v) (simp_all add: opt_field_def opt_json_def is_null_def)

lemma u64_of_json_json [simp]: "u64_of_json (u64_json w) = Some w"
  using unsigned_less [of w, where ?'a = nat] by (simp add: u64_of_json_def u64_json_def)

lemma opt_u64_field:
  "j_get j k = Some (opt_json u64_json v) \<Longrightarrow> opt_field u64_of_json j k = Some v"
  by (cases v) (auto simp: opt_field_def opt_json_def is_null_def, auto simp: u64_json_def)

lemma request_wire: "request_of_json (request_json req) = Some (ipc_of_cli req)"
  by (cases req) (simp_all add: request_json_def request_of_json_def str_field_def opt_u64_field)

lemma response_wire:
  "resp_data r \<noteq> Some JNull \<Longrightarrow> cli_response_of_json (response_json r) = Some (cli_of_ipc r)"
  by (cases "resp_data r")
    (simp_all add: response_json_def cli_response_of_json_def str_field_def opt_field_def is_null_def cli_of_ipc_def)


text \<open>
  The socket of a daemon, for one request: \<open>serve_line\<close> with a clock, a channel and an interleaving, and
  its answer as a line.
\<close>

definition daemon_socket ::
    "'e serde_scheme \<Rightarrow> ipc_env \<Rightarrow> nat \<Rightarrow> nat \<Rightarrow> unit node_op \<Rightarrow> string \<Rightarrow> string node_op" where
  "daemon_socket E J now tx meanwhile line =
     bind (handle_ipc_connection E J
       [\<lparr>turn_line = line, turn_now = now, turn_tx = tx, turn_meanwhile = meanwhile\<rparr>]) (\<lambda>out. ret (concat out))"

text \<open>The client's JSON is the daemon's, and reading a line ignores the line feed.\<close>

definition same_json :: "node cli_env \<Rightarrow> ipc_env \<Rightarrow> bool" where
  "same_json C J \<longleftrightarrow> json_text C = value_to_text J \<and> json_value C = value_from_text J"

definition reads_line_back :: "ipc_env \<Rightarrow> json \<Rightarrow> bool" where
  "reads_line_back J j \<longleftrightarrow> value_from_text J (value_to_text J j @ [LF]) = Some j"

lemma request_served:
  assumes "same_json C J" "reads_line_back J (request_json req)" "reads_line_back J (response_json r)"
    and "process_request E J now tx meanwhile (ipc_of_cli req) s = (Ret r, s')" "resp_data r \<noteq> Some JNull"
  shows "send_request C (daemon_socket E J now tx meanwhile) req s = (Inr (cli_of_ipc r), s')"
  using assms
  by (simp add: send_request_def daemon_socket_def serve_line_def same_json_def reads_line_back_def
      request_wire response_wire response_line_def bind_def ret_def)

text \<open>
  The daemon serves a request with a response, and both lines are read back as they were written.
\<close>

definition served ::
    "'e serde_scheme \<Rightarrow> ipc_env \<Rightarrow> nat \<Rightarrow> nat \<Rightarrow> unit node_op \<Rightarrow> cli_request \<Rightarrow> node \<Rightarrow> ipc_response \<Rightarrow> node \<Rightarrow> bool" where
  "served E J now tx meanwhile req s r s' \<longleftrightarrow> process_request E J now tx meanwhile (ipc_of_cli req) s = (Ret r, s') \<and>
     reads_line_back J (request_json req) \<and> reads_line_back J (response_json r)"

definition refusal :: "string \<Rightarrow> string option \<Rightarrow> printed list" where
  "refusal text leader = Err (cross @ ''Operation failed: '' @ text) #
     (case leader of None \<Rightarrow> [] | Some l \<Rightarrow> [Err (''  Hint: Try connecting to leader node: '' @ l)])"

lemma propose_data:
  assumes "process_request E J now tx meanwhile (Propose key v) s = (Ret r, s')"
  shows "\<exists>l. resp_data r = leader_hint l"
proof -
  have "\<exists>l. resp_data (propose_response out) = leader_hint l" for out
    by (auto simp: propose_response_def failure_def leader_hint_def split: outcome.split propose_result.split
        intro: exI [of _ None])
  then show ?thesis
    using assms
    by (auto simp: process_request_def submit_def bind_def gets_def ret_def failure_def leader_hint_def
        split: res.splits option.splits prod.splits intro: exI [of _ None])
qed

lemma refused_output:
  assumes "resp_data r = leader_hint l" "\<not> resp_success r"
  shows "propose_output operation key v (cli_of_ipc r) = refusal (resp_message r) l"
  using assms
  by (cases l) (simp_all add: propose_output_def cli_of_ipc_def refusal_def leader_hint_line_def leader_hint_def
      line_if_def get_str_def)

lemma cli_propose_served:
  assumes "sockets C (''/tmp/raft-'' @ local @ ''.sock'') = Some (daemon_socket E J now tx meanwhile)" "same_json C J"
    and "operation_request operation key v = Inr req" "served E J now tx meanwhile req s r s'" "resp_data r \<noteq> Some JNull"
  shows "cli_main C polls local (CmdPropose operation key v) s = (Inr (propose_output operation key v (cli_of_ipc r)), s')"
proof -
  have "send_request C (daemon_socket E J now tx meanwhile) req s = (Inr (cli_of_ipc r), s')"
    using assms(4,5) unfolding served_def by (intro request_served [OF assms(2)]) simp_all
  then show ?thesis using assms(1,3) by (simp add: cli_main_def cli_propose_def connect_node_def show_response_def)
qed

text \<open>
  C37: What the client prints for put, delete and get, against the daemon's node.  A put and a delete are
  the proposals of that key and value; when the daemon answers success the client confirms the key and
  value it was called with, otherwise it prints the daemon's message and, if the daemon names a leader, that
  node as a hint.  A get prints the value the node holds under the key, or that there is none, and leaves the
  node as it is.
\<close>
theorem cli_shows_answer:
  assumes "sockets C (''/tmp/raft-'' @ local @ ''.sock'') = Some (daemon_socket E J now tx meanwhile)" "same_json C J"
  shows "(served E J now tx meanwhile (ProposeReq key (Some text)) s r s' \<longrightarrow>
      (\<exists>l. resp_data r = leader_hint l \<and>
        cli_main C polls local (CmdPropose ''put'' key (Some text)) s =
          (Inr (if resp_success r then [Out (tick @ ''Set '' @ key @ ''='' @ text)] else refusal (resp_message r) l), s'))) \<and>
    (served E J now tx meanwhile (ProposeReq key None) s r s' \<longrightarrow>
      (\<exists>l. resp_data r = leader_hint l \<and>
        cli_main C polls local (CmdPropose ''delete'' key v) s =
          (Inr (if resp_success r then [Out (tick @ ''Deleted '' @ key)] else refusal (resp_message r) l), s'))) \<and>
    (served E J now tx meanwhile (GetReq key) s r s' \<longrightarrow>
      cli_main C polls local (CmdPropose ''get'' key v) s =
        (Inr [Out (key @ '': '' @ (case get_value key s of None \<Rightarrow> ''(not found)'' | Some b \<Rightarrow> utf8_lossy J b))], s))"
proof (intro conjI impI)
  assume a: "served E J now tx meanwhile (ProposeReq key (Some text)) s r s'"
  then obtain l where l: "resp_data r = leader_hint l" using propose_data unfolding served_def by fastforce
  then have "resp_data r \<noteq> Some JNull" by (simp add: leader_hint_def)
  from cli_propose_served [OF assms _ a this, of "''put''" key "Some text" polls] refused_output [OF l] l
  show "\<exists>l. resp_data r = leader_hint l \<and> cli_main C polls local (CmdPropose ''put'' key (Some text)) s =
      (Inr (if resp_success r then [Out (tick @ ''Set '' @ key @ ''='' @ text)] else refusal (resp_message r) l), s')"
    by (auto simp: operation_request_def propose_output_def cli_of_ipc_def default_or_def)
next
  assume a: "served E J now tx meanwhile (ProposeReq key None) s r s'"
  then obtain l where l: "resp_data r = leader_hint l" using propose_data unfolding served_def by fastforce
  then have "resp_data r \<noteq> Some JNull" by (simp add: leader_hint_def)
  from cli_propose_served [OF assms _ a this, of "''delete''" key v polls] refused_output [OF l] l
  show "\<exists>l. resp_data r = leader_hint l \<and> cli_main C polls local (CmdPropose ''delete'' key v) s =
      (Inr (if resp_success r then [Out (tick @ ''Deleted '' @ key)] else refusal (resp_message r) l), s')"
    by (auto simp: operation_request_def propose_output_def cli_of_ipc_def)
next
  assume a: "served E J now tx meanwhile (GetReq key) s r s'"
  then have r: "s' = s" "resp_success r" "resp_data r = Some (JObj [(''key'', JStr key),
      (''value'', case get_value key s of None \<Rightarrow> JNull | Some b \<Rightarrow> JStr (utf8_lossy J b))])"
    by (auto simp: served_def process_request_def bind_def gets_def ret_def)
  from cli_propose_served [OF assms _ a, of "''get''" key v polls]
  show "cli_main C polls local (CmdPropose ''get'' key v) s =
      (Inr [Out (key @ '': '' @ (case get_value key s of None \<Rightarrow> ''(not found)'' | Some b \<Rightarrow> utf8_lossy J b))], s)"
    by (simp add: r operation_request_def propose_output_def cli_of_ipc_def get_lines_def is_null_def line_if_def
        split: option.split)
qed

lemma cli_shows_answer_witness:
  fixes r and a and b
  defines "r \<equiv> \<lparr>resp_success = True, resp_message = ''OK'',
    resp_data = Some (JObj [(''key'', JStr ''k''), (''value'', JNull)])\<rparr>"
  defines "a \<equiv> request_json (GetReq ''k'')" and "b \<equiv> response_json r"
  defines "J \<equiv> sample_ipc\<lparr>value_to_text := (\<lambda>j. if j = a then ''a'' else ''b''),
    value_from_text := (\<lambda>t. if t = ''a'' @ [LF] then Some a else if t = ''b'' @ [LF] then Some b else None)\<rparr>"
  defines "C \<equiv> \<lparr>json_text = value_to_text J, json_value = value_from_text J, debug_values = (\<lambda>_. []),
    sockets = (\<lambda>path. if path = ''/tmp/raft-a.sock'' then Some (daemon_socket serde_ref J 0 1 (ret ())) else None)\<rparr>"
  shows "cli_main C 0 ''a'' (CmdPropose ''get'' ''k'' None) (idle_node ''a'' [''b''] fresh_log) =
    (Inr [Out ''k: (not found)''], idle_node ''a'' [''b''] fresh_log)"
proof -
  let ?s = "idle_node ''a'' [''b''] fresh_log"
  have n: "get_value ''k'' ?s = None" by (simp add: get_value_def sm_get_def new_state_machine_def)
  have "process_request serde_ref J 0 1 (ret ()) (ipc_of_cli (GetReq ''k'')) ?s = (Ret r, ?s)"
    by (simp add: process_request_def bind_def gets_def ret_def n r_def)
  moreover have "a \<noteq> b" by (simp add: a_def b_def request_json_def response_json_def)
  then have "reads_line_back J a" "reads_line_back J b" by (simp_all add: reads_line_back_def J_def)
  ultimately have "served serde_ref J 0 1 (ret ()) (GetReq ''k'') ?s r ?s" by (simp add: served_def a_def b_def)
  moreover have "sockets C (''/tmp/raft-'' @ ''a'' @ ''.sock'') = Some (daemon_socket serde_ref J 0 1 (ret ()))" "same_json C J"
    by (simp_all add: same_json_def C_def)
  ultimately show ?thesis
    using cli_shows_answer [of C "''a''" serde_ref J 0 1 "ret ()" "''k''" "[]" ?s r ?s 0 None] by (simp add: n)
qed

section \<open>Watching\<close>

definition response_messages :: "cli_response \<Rightarrow> json list" where
  "response_messages r = (if cr_success r then
     (case cr_data r of None \<Rightarrow> [] | Some d \<Rightarrow> default_or [] (get_array d ''messages'')) else [])"

lemma watch_response_fold: "watch_response r st = fold watch_message (rev (response_messages r)) st"
  by (simp add: watch_response_def response_messages_def default_or_def split: option.split)

definition shown :: "json list \<Rightarrow> string list \<times> printed list \<Rightarrow> bool" where
  "shown all st \<longleftrightarrow> (\<exists>ms. snd st = map message_line ms \<and> fst st = rev (map message_key ms) \<and>
     distinct (map message_key ms) \<and> set ms \<subseteq> set all \<and> message_key ` set ms = message_key ` set all)"

lemma shown_watch_message: "shown all st \<Longrightarrow> shown (all @ [msg]) (watch_message msg st)"
proof -
  assume "shown all st"
  then obtain ms where ms: "st = (rev (map message_key ms), map message_line ms)"
    "distinct (map message_key ms)" "set ms \<subseteq> set all" "message_key ` set ms = message_key ` set all"
    by (cases st) (auto simp: shown_def)
  show ?thesis
  proof (cases "message_key msg \<in> message_key ` set ms")
    case True
    with ms show ?thesis
      by (auto simp: shown_def watch_message_def intro!: exI [of _ ms])
  next
    case False
    with ms show ?thesis
      by (auto simp: shown_def watch_message_def intro!: exI [of _ "ms @ [msg]"])
  qed
qed

lemma shown_messages: "shown all st \<Longrightarrow> shown (all @ msgs) (fold watch_message msgs st)"
proof (induction msgs arbitrary: all st)
  case Nil
  then show ?case by simp
next
  case (Cons msg msgs)
  from Cons.IH [OF shown_watch_message [OF Cons.prems, of msg]] show ?case by simp
qed

text \<open>
  However often \<open>watch\<close> polls, it prints each message once: the printed lines are those of messages
  with distinct keys (time and text), and every message of every response has its key among them.
\<close>
theorem watch_shows_once:
  "\<exists>ms. fold watch_response rs ([], []) = (rev (map message_key ms), map message_line ms) \<and>
     distinct (map message_key ms) \<and> set ms \<subseteq> set (concat (map response_messages rs)) \<and>
     message_key ` set ms = message_key ` set (concat (map response_messages rs))"
proof -
  have "shown (all @ concat (map (\<lambda>r. rev (response_messages r)) rs)) (fold watch_response rs st)"
    if "shown all st" for all st
    using that
  proof (induction rs arbitrary: all st)
    case Nil
    then show ?case by simp
  next
    case (Cons r rs)
    have "shown (all @ rev (response_messages r)) (watch_response r st)"
      unfolding watch_response_fold by (rule shown_messages [OF Cons.prems])
    from Cons.IH [OF this] show ?case by simp
  qed
  from this [of "[]" "([], [])"] have "shown (concat (map (\<lambda>r. rev (response_messages r)) rs)) (fold watch_response rs ([], []))"
    by (simp add: shown_def)
  then show ?thesis by (auto simp: shown_def prod_eq_iff)
qed

section \<open>The clock\<close>

lemma length_dec2: "n < 100 \<Longrightarrow> length (dec2 n) = 2"
proof -
  assume "n < 100"
  then have "n div 10 < 10" by (simp add: div_less_iff_less_mult)
  then show ?thesis by (simp add: dec2_def dec.simps [of n] dec.simps [of "n div 10"])
qed

lemma time_of_day: "t mod 86400 = 3600 * (t div 3600 mod 24) + 60 * (t div 60 mod 60) + t mod (60 :: nat)"
proof -
  have "t mod 86400 = 3600 * (t div 3600 mod 24) + t mod 3600"
    using mod_mult2_eq [of t 3600 24] by simp
  moreover have "t mod 3600 = 60 * (t div 60 mod 60) + t mod 60"
    using mod_mult2_eq [of t 60 60] by simp
  ultimately show ?thesis by simp
qed

text \<open>
  The clock of a message is always eight characters, the time of day: hours below 24, minutes and
  seconds below 60, which together are the seconds since midnight, so it wraps after a day.
\<close>
theorem chrono_lite_time:
  "\<exists>h m s. chrono_lite t = dec2 h @ '':'' @ dec2 m @ '':'' @ dec2 s \<and>
     h \<le> 23 \<and> m \<le> 59 \<and> s \<le> 59 \<and> t mod 86400 = 3600 * h + 60 * m + s \<and> length (chrono_lite t) = 8"
proof -
  have b: "t div 3600 mod 24 < 24" "t div 60 mod 60 < 60" "t mod 60 < 60" by simp_all
  show ?thesis
    by (intro exI [of _ "t div 3600 mod 24"] exI [of _ "t div 60 mod 60"] exI [of _ "t mod 60"])
      (use b in \<open>simp add: chrono_lite_def Let_def time_of_day length_dec2 less_Suc_eq_le [symmetric]\<close>)
qed

end
