(* ===== verification/Cli_Tests.thy ===== *)
theory Cli_Tests
  imports Cli_Properties
begin

text \<open>
  The unit tests of \<open>raft-cli/src/commands/mod.rs\<close> on the model.  The client derives both directions of
  the wire form: \<open>request_json\<close> and \<open>cli_response_of_json\<close> of \<open>Cli\<close> are the ones it uses, the other two are
  defined here.  JSON text is a parameter that reads back what it prints.
\<close>

section \<open>The other directions\<close>

fun cli_request_of :: "ipc_request \<Rightarrow> cli_request" where
  "cli_request_of (ipc_request.Join n a) = JoinReq n a"
| "cli_request_of (ipc_request.Leave n) = LeaveReq n"
| "cli_request_of ipc_request.Status = StatusReq"
| "cli_request_of (Propose k v) = ProposeReq k v"
| "cli_request_of (Get k) = GetReq k"
| "cli_request_of (Send m) = SendReq m"
| "cli_request_of (Messages l i) = MessagesReq l i"

text \<open>The two enums have the same variants and fields, so they are read from the same JSON.\<close>

definition cli_request_of_json :: "json \<Rightarrow> cli_request option" where
  "cli_request_of_json j = map_option cli_request_of (request_of_json j)"

text \<open>The client's response always writes its data, as \<open>null\<close> when there is none.\<close>

definition cli_response_json :: "cli_response \<Rightarrow> json" where
  "cli_response_json r = JObj [(''success'', JBool (cr_success r)), (''message'', JStr (cr_message r)),
     (''data'', case cr_data r of None \<Rightarrow> JNull | Some d \<Rightarrow> d)]"

definition request_again :: "'s cli_env \<Rightarrow> cli_request \<Rightarrow> cli_request option" where
  "request_again C req = Option.bind (json_value C (json_text C (request_json req))) cli_request_of_json"

definition response_again :: "'s cli_env \<Rightarrow> cli_response \<Rightarrow> cli_response option" where
  "response_again C r = Option.bind (json_value C (json_text C (cli_response_json r))) cli_response_of_json"

section \<open>The tests\<close>

definition done_response :: cli_response where
  "done_response = \<lparr>cr_success = True, cr_message = ''Operation completed'', cr_data = Some (JObj [(''index'', JNum 42)])\<rparr>"

definition refused_response :: cli_response where
  "refused_response = \<lparr>cr_success = False, cr_message = ''Not leader'',
     cr_data = Some (JObj [(''leader_id'', JStr ''node-02'')])\<rparr>"

definition bare_response :: cli_response where
  "bare_response = \<lparr>cr_success = True, cr_message = ''OK'', cr_data = None\<rparr>"

definition test_ipc_request_join_serialization :: "'s cli_env \<Rightarrow> bool" where
  "test_ipc_request_join_serialization C =
     (case request_again C (JoinReq ''node-02'' ''192.168.1.2:5555'') of
        Some (JoinReq n a) \<Rightarrow> n = ''node-02'' \<and> a = ''192.168.1.2:5555'' | _ \<Rightarrow> False)"

definition test_ipc_request_leave_serialization :: "'s cli_env \<Rightarrow> bool" where
  "test_ipc_request_leave_serialization C =
     (case request_again C (LeaveReq ''node-03'') of Some (LeaveReq n) \<Rightarrow> n = ''node-03'' | _ \<Rightarrow> False)"

definition test_ipc_request_status_serialization :: "'s cli_env \<Rightarrow> bool" where
  "test_ipc_request_status_serialization C =
     (case request_again C StatusReq of Some StatusReq \<Rightarrow> True | _ \<Rightarrow> False)"

definition test_ipc_request_propose_put_serialization :: "'s cli_env \<Rightarrow> bool" where
  "test_ipc_request_propose_put_serialization C =
     (case request_again C (ProposeReq ''mykey'' (Some ''myvalue'')) of
        Some (ProposeReq key v) \<Rightarrow> key = ''mykey'' \<and> v = Some ''myvalue'' | _ \<Rightarrow> False)"

definition test_ipc_request_propose_delete_serialization :: "'s cli_env \<Rightarrow> bool" where
  "test_ipc_request_propose_delete_serialization C =
     (case request_again C (ProposeReq ''deletekey'' None) of
        Some (ProposeReq key v) \<Rightarrow> key = ''deletekey'' \<and> v = None | _ \<Rightarrow> False)"

definition test_ipc_request_get_serialization :: "'s cli_env \<Rightarrow> bool" where
  "test_ipc_request_get_serialization C =
     (case request_again C (GetReq ''lookupkey'') of Some (GetReq key) \<Rightarrow> key = ''lookupkey'' | _ \<Rightarrow> False)"

definition test_ipc_request_send_serialization :: "'s cli_env \<Rightarrow> bool" where
  "test_ipc_request_send_serialization C =
     (case request_again C (SendReq ''Hello, RAFT cluster!'') of
        Some (SendReq msg) \<Rightarrow> msg = ''Hello, RAFT cluster!'' | _ \<Rightarrow> False)"

definition test_ipc_request_messages_serialization :: "'s cli_env \<Rightarrow> bool" where
  "test_ipc_request_messages_serialization C =
     (case request_again C (MessagesReq (Some 50) (Some 100)) of
        Some (MessagesReq limit since_index) \<Rightarrow> limit = Some 50 \<and> since_index = Some 100 | _ \<Rightarrow> False)"

definition test_ipc_request_messages_no_options_serialization :: "'s cli_env \<Rightarrow> bool" where
  "test_ipc_request_messages_no_options_serialization C =
     (case request_again C (MessagesReq None None) of
        Some (MessagesReq limit since_index) \<Rightarrow> limit = None \<and> since_index = None | _ \<Rightarrow> False)"

definition test_ipc_response_success_serialization :: "'s cli_env \<Rightarrow> bool" where
  "test_ipc_response_success_serialization C =
     (case response_again C done_response of
        None \<Rightarrow> False
      | Some r \<Rightarrow> cr_success r \<and> cr_message r = ''Operation completed'' \<and>
          (case cr_data r of None \<Rightarrow> False | Some d \<Rightarrow> j_get d ''index'' = Some (JNum 42)))"

definition test_ipc_response_failure_serialization :: "'s cli_env \<Rightarrow> bool" where
  "test_ipc_response_failure_serialization C =
     (case response_again C refused_response of
        None \<Rightarrow> False
      | Some r \<Rightarrow> \<not> cr_success r \<and> cr_message r = ''Not leader'' \<and>
          (case cr_data r of None \<Rightarrow> False | Some d \<Rightarrow> j_get d ''leader_id'' = Some (JStr ''node-02'')))"

definition test_ipc_response_no_data_serialization :: "'s cli_env \<Rightarrow> bool" where
  "test_ipc_response_no_data_serialization C =
     (case response_again C bare_response of
        None \<Rightarrow> False
      | Some r \<Rightarrow> cr_success r \<and> cr_data r = None)"

definition test_chrono_lite_midnight :: bool where
  "test_chrono_lite_midnight = (chrono_lite 0 = ''00:00:00'')"

definition test_chrono_lite_noon :: bool where
  "test_chrono_lite_noon = (chrono_lite (12 * 3600) = ''12:00:00'')"

definition test_chrono_lite_specific_time :: bool where
  "test_chrono_lite_specific_time = (chrono_lite 52542 = ''14:35:42'')"

definition test_chrono_lite_wraps_at_24_hours :: bool where
  "test_chrono_lite_wraps_at_24_hours = (chrono_lite (25 * 3600) = ''01:00:00'')"

definition test_chrono_lite_end_of_day :: bool where
  "test_chrono_lite_end_of_day = (chrono_lite (23 * 3600 + 59 * 60 + 59) = ''23:59:59'')"

definition cli_tests :: "'s cli_env \<Rightarrow> bool list" where
  "cli_tests C = [test_ipc_request_join_serialization C, test_ipc_request_leave_serialization C,
     test_ipc_request_status_serialization C, test_ipc_request_propose_put_serialization C,
     test_ipc_request_propose_delete_serialization C, test_ipc_request_get_serialization C,
     test_ipc_request_send_serialization C, test_ipc_request_messages_serialization C,
     test_ipc_request_messages_no_options_serialization C, test_ipc_response_success_serialization C,
     test_ipc_response_failure_serialization C, test_ipc_response_no_data_serialization C,
     test_chrono_lite_midnight, test_chrono_lite_noon, test_chrono_lite_specific_time,
     test_chrono_lite_wraps_at_24_hours, test_chrono_lite_end_of_day]"

section \<open>They pass\<close>

definition tested_requests :: "cli_request list" where
  "tested_requests = [JoinReq ''node-02'' ''192.168.1.2:5555'', LeaveReq ''node-03'', StatusReq,
     ProposeReq ''mykey'' (Some ''myvalue''), ProposeReq ''deletekey'' None, GetReq ''lookupkey'',
     SendReq ''Hello, RAFT cluster!'', MessagesReq (Some 50) (Some 100), MessagesReq None None]"

definition tested_json :: "json list" where
  "tested_json = map request_json tested_requests @ map cli_response_json [done_response, refused_response, bare_response]"

text \<open>What \<open>serde_json\<close> documents, for the values of the tests.\<close>

definition cli_json_ok :: "'s cli_env \<Rightarrow> bool" where
  "cli_json_ok C \<longleftrightarrow> list_all (\<lambda>j. json_value C (json_text C j) = Some j) tested_json"

text \<open>Whatever the client asks or is told, the wire form reads back.\<close>

lemma cli_request_wire: "cli_request_of_json (request_json req) = Some req"
  by (cases req) (simp_all add: cli_request_of_json_def request_wire)

lemma cli_response_wire: "cr_data r \<noteq> Some JNull \<Longrightarrow> cli_response_of_json (cli_response_json r) = Some r"
  by (cases r; cases "cr_data r")
    (auto simp: cli_response_json_def cli_response_of_json_def str_field_def opt_field_def is_null_def)

lemma request_read_back: "cli_json_ok C \<Longrightarrow> list_all (\<lambda>req. request_again C req = Some req) tested_requests"
  by (simp add: cli_json_ok_def request_again_def tested_json_def list_all_iff cli_request_wire)

lemma response_read_back:
  "cli_json_ok C \<Longrightarrow> list_all (\<lambda>r. response_again C r = Some r) [done_response, refused_response, bare_response]"
  by (simp add: cli_json_ok_def response_again_def tested_json_def cli_response_wire done_response_def
      refused_response_def bare_response_def)

lemma chrono_tests_pass:
  "test_chrono_lite_midnight" "test_chrono_lite_noon" "test_chrono_lite_specific_time"
  "test_chrono_lite_wraps_at_24_hours" "test_chrono_lite_end_of_day"
  by (simp_all add: test_chrono_lite_midnight_def test_chrono_lite_noon_def test_chrono_lite_specific_time_def
      test_chrono_lite_wraps_at_24_hours_def test_chrono_lite_end_of_day_def chrono_lite_def dec2_def
      dec.simps digit_char_def char_of_def bit_0)

lemma cli_tests_pass:
  assumes "cli_json_ok C"
  shows "list_all id (cli_tests C)"
  using chrono_tests_pass request_read_back [OF assms] response_read_back [OF assms]
  by (simp add: cli_tests_def test_ipc_request_join_serialization_def test_ipc_request_leave_serialization_def
      test_ipc_request_status_serialization_def test_ipc_request_propose_put_serialization_def
      test_ipc_request_propose_delete_serialization_def test_ipc_request_get_serialization_def
      test_ipc_request_send_serialization_def test_ipc_request_messages_serialization_def
      test_ipc_request_messages_no_options_serialization_def test_ipc_response_success_serialization_def
      test_ipc_response_failure_serialization_def test_ipc_response_no_data_serialization_def
      tested_requests_def done_response_def refused_response_def bare_response_def)

end
