(* ===== verification/Unit_Tests.thy ===== *)
theory Unit_Tests
  imports Store_Tests Log_Tests Config_Tests Cli_Tests Snapshot
begin

text \<open>
  The repository's own unit tests of the log, the state machine, the configuration and the client,
  together, as a check of the model on the inputs the authors chose: they hold for every instance of the
  third-party crates that behaves as documented.
\<close>

definition unit_tests :: "'e serde_scheme \<Rightarrow> ipc_env \<Rightarrow> bincode \<Rightarrow> 's cli_env \<Rightarrow> bool list" where
  "unit_tests E J B C = log_tests E @ state_machine_tests E J B @ config_tests @ cli_tests C"

section \<open>An instance\<close>

definition value_text_of :: "json list \<Rightarrow> json \<Rightarrow> string" where
  "value_text_of js j = replicate (length (takeWhile (\<lambda>x. x \<noteq> j) js)) CHR ''x''"

definition text_value_of :: "json list \<Rightarrow> string \<Rightarrow> json option" where
  "text_value_of js s = (if length s < length js then Some (js ! length s) else None)"

lemma text_value_of_value: "j \<in> set js \<Longrightarrow> text_value_of js (value_text_of js j) = Some j"
  using takeWhile_position [of j js] by (simp add: text_value_of_def value_text_of_def)

lemma length_value_text: "length (value_text_of js j) \<le> length js"
  by (simp add: value_text_of_def length_takeWhile_le)

definition test_ipc :: ipc_env where
  "test_ipc = \<lparr>value_to_text = value_text_of tested_messages, value_from_text = text_value_of tested_messages,
     utf8_lossy = (\<lambda>b. map (\<lambda>x. char_of (unat x)) b), err_text = (\<lambda>e. ''error''), json_err_text = (\<lambda>s. ''error'')\<rparr>"

definition test_cli :: "unit cli_env" where
  "test_cli = \<lparr>json_text = value_text_of tested_json, json_value = text_value_of tested_json,
     debug_values = (\<lambda>js. []), sockets = (\<lambda>p. None)\<rparr>"

lemma test_ipc_ok: "test_json_ok test_ipc"
proof -
  have "reads_back test_ipc j \<and> length (value_to_text test_ipc j) \<le> 1024" if "j \<in> set tested_messages" for j
    using that length_value_text [of tested_messages j]
    by (simp add: reads_back_def test_ipc_def text_value_of_value) (simp add: tested_messages_def)
  then show ?thesis by (simp add: test_json_ok_def list_all_iff)
qed

lemma test_cli_ok: "cli_json_ok test_cli"
  by (simp add: cli_json_ok_def list_all_iff test_cli_def text_value_of_value)

lemma bincode_ref_prefixed: "bincode_prefixed bincode_ref"
  by (simp add: bincode_prefixed_def bincode_ref_def)

section \<open>All of them\<close>

text \<open>Every translated test passes, for any codecs that keep their laws.\<close>
theorem unit_tests_pass:
  assumes "serde_ok E" "test_json_ok J" "bincode_ok B" "bincode_prefixed B" "cli_json_ok C"
  shows "list_all id (unit_tests E J B C)"
  using log_tests_pass [OF assms(1)] config_tests_pass cli_tests_pass [OF assms(5)]
    state_machine_tests_pass [OF serde_ok_heapless [OF assms(1)] assms(2-4)]
  by (simp add: unit_tests_def)

lemma unit_tests_pass_witness: "list_all id (unit_tests serde_ref test_ipc bincode_ref test_cli)"
  by (rule unit_tests_pass [OF serde_ref_ok test_ipc_ok bincode_ref_ok bincode_ref_prefixed test_cli_ok])

end
