(* ===== verification/Spec2Isabelle.thy ===== *)
theory Spec2Isabelle
  imports Log_Matching Daemon_Properties Deadlock Propose_Race Ebpf_Loader Unit_Tests
begin

text \<open>
  A verification development for \<open>raft-ebpf\<close>, a replicated key-value store in Rust: a daemon that runs
  Raft over TCP (\<open>raft\<close>), a command-line client (\<open>raft-cli\<close>), a traffic classifier in eBPF
  (\<open>raft-ebpf\<close>), and the types they share (\<open>raft-common\<close>).

  The parts and how they meet.  A node keeps a log on disk (\<open>log.rs\<close>) and a state machine in memory
  (\<open>state_machine.rs\<close>).  Messages from peers, two timers and clients drive its handlers (\<open>node.rs\<close>,
  \<open>main.rs\<close>).  The handlers put messages into a channel that the network manager (\<open>network.rs\<close>) writes
  to TCP connections; what it reads from others it hands to the node.  Clients talk to the IPC server
  (\<open>ipc.rs\<close>) over a Unix socket; a proposal waits there until the node has committed it.  The
  classifier watches the Raft port on the way in and shares maps with the daemon.

  Theories, in the order of their imports, with the source they model.

  \<^item> \<open>Prelude\<close>: machine integers at their width (\<open>u64\<close> wraps), \<open>HashMap\<close> as an association list behind
    the interface \<open>hash_map\<close>, decimal text, and \<open>op\<close>, the type of a stateful, fallible operation, with
    its weakest preconditions (\<open>wp\<close>) and laws (\<open>monad\<close>).  A result is a value, an error that left the
    function through \<open>?\<close> or as a panic, or \<open>Hang\<close>: the task waits for a mutex it holds itself.
  \<^item> \<open>Protocol\<close> (\<open>raft-common/src/protocol.rs\<close>, \<open>state.rs\<close>, \<open>lib.rs\<close>): commands, entries, messages,
    roles, peers, constants, and the fixed-size containers of \<open>heapless\<close> as a parameter.
  \<^item> \<open>Raft_Log\<close> (\<open>log.rs\<close>): the log with its two files as bytes and a verdict for every system call;
    \<open>Raft_Log_Facts\<close>: what the operations do when calls work, and what survives when they fail;
    \<open>Log_Recovery\<close>: what a restart reads back; \<open>Log_Properties\<close>: its theorems.
  \<^item> \<open>State_Machine\<close> (\<open>state_machine.rs\<close>), with the interface \<open>applier\<close>; \<open>Config\<close> (\<open>config.rs\<close>).
  \<^item> \<open>Node\<close> (\<open>node.rs\<close>, the timers of \<open>main.rs\<close>): the node's state and one operation per method, with
    the mutex around the log.  \<open>Node_Facts\<close>, \<open>Node_Handlers\<close> and \<open>Node_Leader\<close>: each handler as an
    equation on every branch.  \<open>Node_Events\<close>: the events of a node and the interface \<open>evolution\<close>,
    interpreted for votes, for applied entries and, in \<open>Node_Types\<close>, for the sizes of the containers.
    \<open>Sample_Nodes\<close> and \<open>Reference_Codec\<close>: concrete nodes and codecs for concrete runs.
  \<^item> \<open>Election_Properties\<close>, \<open>Replication_Properties\<close>, \<open>Commit_Properties\<close>: theorems about one node, and
    about a leader and a follower.
  \<^item> \<open>Locks\<close> (\<open>node.rs\<close>): the lock sequences of every method, one for every way through it, and the
    interleavings of tasks over fair locks; \<open>Deadlock\<close>: which methods can stop each other.
  \<^item> \<open>Cluster\<close>: any number of nodes, with messages that may be delayed, lost, repeated and reordered,
    and crashes with restart from disk, as an inductive step relation; \<open>Cluster_Properties\<close>;
    \<open>Election_Safety\<close>: the runs in which no vote arrives late; \<open>Log_Matching\<close>: the logs in such runs.
  \<^item> \<open>Network\<close> (\<open>network.rs\<close>): frames, the receive loop with the interface \<open>stream_reader\<close>, the
    connection cache, and the path from one node's channel to another node's handler.
  \<^item> \<open>Daemon\<close> (\<open>main.rs\<close>, and the tasks of \<open>network.rs\<close>): the start of a daemon from its configuration file,
    its tasks one step at a time, and systems of daemons that exchange bytes over TCP.
    \<open>Node_Outgoing\<close>: no handler looks at the messages that wait in the channel.
    \<open>Daemon_Refinement\<close>: the simulation of such a system by a \<open>Cluster\<close>; \<open>Daemon_Properties\<close>.
  \<^item> \<open>Ipc\<close> (\<open>ipc.rs\<close>) and \<open>Ipc_Properties\<close>; \<open>Cli\<close> (\<open>raft-cli\<close>) and \<open>Cli_Properties\<close>.
    \<open>Propose_Race\<close>: \<open>propose\<close> (\<open>node.rs\<close>) cut where it waits for the log and where it releases it, with other
    tasks of the node in between.
  \<^item> \<open>Ebpf\<close> (\<open>raft-ebpf/src/main.rs\<close>, \<open>raft-common/src/maps.rs\<close>) and \<open>Ebpf_Properties\<close>: the classifier and its
    maps; \<open>Ebpf_Loader\<close> (\<open>raft/src/ebpf.rs\<close>): loading, attaching, and reading the maps.
  \<^item> \<open>Snapshot\<close>: snapshots of the state machine.  \<open>Store_Tests\<close>, \<open>Log_Tests\<close>, \<open>Config_Tests\<close>, \<open>Cli_Tests\<close>
    and \<open>Unit_Tests\<close>: unit tests of the repository on the model.
\<close>

text \<open>
  What the theorems show.

  Safety that holds: a node votes for at most one candidate per term, over crashes and failing system
  calls, so no two candidates are both voted for by a majority; up to three nodes never have two leaders in
  one term, and two logs that have an entry of one term at one index agree up to it, provided that every
  node has a configured peer and never loses its last one (a node without peers elects itself), that
  messages come from other nodes, and that no granted vote arrives in another term than it was given
  in; a granted vote is on disk before the reply; an accepted request leaves leader and follower with
  matching logs; a leader commits only entries of its own term, for which its match table has records of
  more than half as many nodes as are configured, itself counted (records of strangers count too; if there
  are none, it is a majority of the cluster); the state
  machine executes the committed commands in order, once each; the log is rebuilt by a restart; a node
  stays within the containers of the source.

  Progress: tasks that run the methods of a node side by side never block each other for good, apart
  from three kinds of call that do (next paragraph).

  Safety that fails, as runs from the initial state or as general statements: two leaders in one term
  (a late vote is counted, and with four or more nodes one vote fewer than a majority is enough);
  a write acknowledged to the client that only the leader has; success reported for another client's
  command; a rejected AppendEntries, a status request and the taking of leadership, which can each stop
  a node for good; two nodes that commit different commands at one index, because a leader is overtaken
  while it waits for the log; a client told of a timeout although its write has been committed between
  two steps of the proposal; a torn last line that prevents a restart; failed connections and joined peers that
  are never (re)dialled; keys, values and messages that do not fit and are altered in silence.

  The outer components: a system of daemons that exchange bytes refines the cluster of messages, with
  all that waits in channels, streams and buffers, so what holds in every reachable cluster holds for the
  daemons, if the address configured for a peer leads to that peer; a daemon restarted on the directory of an
  earlier run has its log back; a byte stream is parsed the same however it is cut, and delivers exactly the
  messages that were queued, in order; a Put that one peer acknowledges is answered and read back; a
  sent message is listed first; the client's put, delete and get are these operations on the daemon's
  node, and it prints the value read, or its own arguments when a write succeeded; the classifier lets all
  packets pass, malformed ones included, and counts them rightly, and a loaded manager sees the first sixteen sources by address; a
  snapshot restores the map.  As a check of the model, the repository's unit tests of the log, the state
  machine, the configuration and the client hold on it.

  Bounds.  Loops are structural or have a measure (\<open>apply_loop\<close>: commit index minus last applied;
  \<open>process_frames\<close>: the length of the buffer), so there is no fuel.  In \<open>Deadlock\<close> as
  many rounds are enough as the tasks have actions, twice.  \<open>watch\<close> runs for ever and is
  modelled by a number of polls, with statements about every number.
\<close>

text \<open>
  Parameters, each with its documented behaviour as a named hypothesis and a concrete instance:
  \<open>heapless\<close> containers (\<open>heapless_ok\<close>), \<open>serde_json\<close> for the log's files (\<open>serde_ok\<close>), for envelopes
  (\<open>wire_ok\<close>) and for the IPC protocol (\<open>reads_back\<close>, \<open>reads_line_back\<close>), \<open>bincode\<close> (\<open>bincode_ok\<close>), the TOML reader,
  random timeouts, the clock, which daemon answers at a dialled address (\<open>well_addressed\<close>), the eBPF maps (\<open>bpf_ok\<close>), header loads, and \<open>aya\<close>
  with the kernel it talks to (\<open>built_from_crate\<close> for what a build holds).

  Not modelled.  A handler runs without interleaving with other tasks of its node, except in \<open>Locks\<close>,
  in \<open>Propose_Race\<close> and during the wait of a proposal; the outgoing channel is unbounded where the source has room for
  1024 messages.  What binding a socket, attaching a program and other system calls answer is an
  argument; spawning and stopping tasks, argument parsing and log output are calls of libraries and have
  no definition.  Of the unit tests, those of \<open>raft-common\<close> and those that only print and read JSON of
  one value are left out: they build a value and read its fields, or measure its size.  \<open>NodeCommand\<close>, \<open>VolatileState\<close>,
  \<open>LeaderState\<close> and \<open>ClusterConfig\<close> are declared in the source and used nowhere.  JSON objects with
  repeated fields, which \<open>serde\<close> rejects, are read by their first field.
\<close>

end
